(* ===== verification/GoErrors.thy ===== *)
theory GoErrors
  imports Prelude
begin

text \<open>
  Go error values and the library functions the code inspects them with:
  \<open>errors.Is\<close>, \<open>errors.As\<close> / \<open>errors.AsType\<close>, \<open>errors.Unwrap\<close>, \<open>errors.Join\<close> and
  \<open>fmt.Errorf\<close>, and the classification of I/O errors of \<open>io-util.go\<close> (on unix).
  A Go \<open>error\<close> is \<open>gerr option\<close>, \<open>None\<close> being \<open>nil\<close>. The package's error variables and
  the sentinels of the standard library it compares with are \<open>errvar\<close>. An error the code
  allocates is identified with its content, so \<open>errors.Is\<close> compares structurally where Go
  compares pointers; two separately allocated errors of equal content are one error here.
  The children of a joined error are never nil, as \<open>errors.Join\<close> and \<open>fmt.Errorf\<close> ensure.
\<close>

section \<open>Error values\<close>

datatype errvar =
    ErrGracefulShutdownTimeout
  | ErrServerPermissionDenied
  | ErrServerHostSignerRequired
  | ErrServerClientAuthRequired
  | ErrServerAuthCallbackConflict
  | ErrChannelResponseAlreadySent
  | ErrChannelResponseNotSent
  | ErrSubsystemResponseAlreadySent
  | ErrSubsystemResponsePending
  | ErrErrorResponseUnsupported
  | ErrErrorResponseAlreadySent
  | ErrErrorResponseExpired
  | ErrNextErrorHandlerAlreadyCalled
  | ErrNextErrorHandlerExpired
  | ErrNextErrorHandlerIncomplete
  | ErrErrorResponseIncomplete
  | ErrRequestResponseAlreadySent
  | ErrRequestResponseExpired
  | ErrRequestResponseIncomplete
  | ErrRequestResponseNotSent
  | ErrProxyProtocolAlreadyWrapped
  | ContextCanceled
  | ContextDeadlineExceeded
  | IoEOF
  | IoErrClosedPipe
  | IoErrShortWrite
  | NetErrClosed

datatype errno = EIO | EPIPE | OtherErrno nat bool

datatype farg = AStr string | AQuoted string | AInt int

text \<open>
  \<open>ErrorScope\<close> and \<open>ErrorOperation\<close> are \<open>uint8\<close> values. The constructors: a package or library
  variable; an error of a callback or transport that has no method the code looks at; a
  \<open>net.Error\<close> with the value of its \<open>Temporary\<close> method; a \<open>*net.OpError\<close> (its \<open>Op\<close>, the value of
  \<open>Temporary\<close>, its \<open>Err\<close>); a \<open>*os.SyscallError\<close>; a \<open>syscall.Errno\<close>; \<open>fmt.Errorf\<close> without and with
  the verb \<open>w\<close>; a \<open>*locatedError\<close>; an error with \<open>Unwrap() []error\<close>; a \<open>*SessionExitError\<close> (\<open>None\<close>
  a nil pointer); an error whose \<open>As\<close> method fills in a \<open>*SessionExitError\<close>; a
  \<open>*gossh.PartialSuccessError\<close> (its \<open>Next\<close> callbacks known by a number); a
  \<open>*gossh.OpenChannelError\<close>.
\<close>

datatype gerr =
    Var errvar
  | Opaque nat
  | NetError nat bool
  | OpError string bool "gerr option"
  | SyscallError "gerr option"
  | Errno errno
  | Errorf string "farg list"
  | WrapErr string "farg list" gerr
  | Located uint8 uint8 gerr
  | JoinErr "gerr list"
  | SessionExit "(int \<times> string) option"
  | AsExit nat "(int \<times> string) option"
  | PartialSuccess nat
  | OpenChannelError uint32 string

section \<open>Unwrap, Is, As, Join\<close>

text \<open>\<open>errors.Unwrap\<close>: the result of an \<open>Unwrap() error\<close> method; a joined error has none.\<close>

fun errors_Unwrap :: "gerr \<Rightarrow> gerr option" where
  "errors_Unwrap (OpError _ _ e) = e"
| "errors_Unwrap (SyscallError e) = e"
| "errors_Unwrap (WrapErr _ _ e) = Some e"
| "errors_Unwrap (Located _ _ e) = Some e"
| "errors_Unwrap _ = None"

fun errors_Is :: "gerr \<Rightarrow> gerr \<Rightarrow> bool" where
  "errors_Is (OpError op t oe) target =
     (OpError op t oe = target \<or> (case oe of None \<Rightarrow> False | Some e \<Rightarrow> errors_Is e target))"
| "errors_Is (SyscallError oe) target =
     (SyscallError oe = target \<or> (case oe of None \<Rightarrow> False | Some e \<Rightarrow> errors_Is e target))"
| "errors_Is (WrapErr f xs e) target = (WrapErr f xs e = target \<or> errors_Is e target)"
| "errors_Is (Located s p e) target = (Located s p e = target \<or> errors_Is e target)"
| "errors_Is (JoinErr es) target = (JoinErr es = target \<or> list_ex (\<lambda>e. errors_Is e target) es)"
| "errors_Is e target = (e = target)"

text \<open>
  \<open>errors.As\<close>: the first error of the tree, in depth-first order, that the target's type
  accepts; \<open>f\<close> says what the target is set to.
\<close>

fun errors_As :: "(gerr \<Rightarrow> 'a option) \<Rightarrow> gerr \<Rightarrow> 'a option" where
  "errors_As f (OpError op t oe) =
     (case f (OpError op t oe) of Some x \<Rightarrow> Some x
      | None \<Rightarrow> (case oe of None \<Rightarrow> None | Some e \<Rightarrow> errors_As f e))"
| "errors_As f (SyscallError oe) =
     (case f (SyscallError oe) of Some x \<Rightarrow> Some x
      | None \<Rightarrow> (case oe of None \<Rightarrow> None | Some e \<Rightarrow> errors_As f e))"
| "errors_As f (WrapErr m xs e) =
     (case f (WrapErr m xs e) of Some x \<Rightarrow> Some x | None \<Rightarrow> errors_As f e)"
| "errors_As f (Located s p e) =
     (case f (Located s p e) of Some x \<Rightarrow> Some x | None \<Rightarrow> errors_As f e)"
| "errors_As f (JoinErr es) =
     (case f (JoinErr es) of Some x \<Rightarrow> Some x | None \<Rightarrow> first_some (errors_As f) es)"
| "errors_As f e = f e"

text \<open>\<open>errors.Join\<close> drops nil errors and is nil when nothing is left.\<close>

definition errors_Join :: "gerr option list \<Rightarrow> gerr option" where
  "errors_Join es = (let xs = List.map_filter id es in if xs = [] then None else Some (JoinErr xs))"

text \<open>The types the code asks for with \<open>errors.As\<close> and \<open>errors.AsType\<close>.\<close>

fun is_located :: "gerr \<Rightarrow> (uint8 \<times> uint8) option" where
  "is_located (Located s p _) = Some (s, p)"
| "is_located _ = None"

fun is_exit :: "gerr \<Rightarrow> (int \<times> string) option option" where
  "is_exit (SessionExit x) = Some x"
| "is_exit (AsExit _ x) = Some x"
| "is_exit _ = None"

text \<open>
  \<open>net.Error\<close> and what \<open>Temporary\<close> reports: \<open>*net.OpError\<close>, \<open>syscall.Errno\<close>, \<open>net.ErrClosed\<close> and
  \<open>context.DeadlineExceeded\<close> implement it.
\<close>

fun is_net_error :: "gerr \<Rightarrow> bool option" where
  "is_net_error (NetError _ t) = Some t"
| "is_net_error (OpError _ t _) = Some t"
| "is_net_error (Errno (OtherErrno _ t)) = Some t"
| "is_net_error (Errno _) = Some False"
| "is_net_error (Var NetErrClosed) = Some False"
| "is_net_error (Var ContextDeadlineExceeded) = Some True"
| "is_net_error _ = None"

fun is_op_error :: "gerr \<Rightarrow> gerr option option" where
  "is_op_error (OpError _ _ e) = Some e"
| "is_op_error _ = None"

fun is_syscall_error :: "gerr \<Rightarrow> gerr option option" where
  "is_syscall_error (SyscallError e) = Some e"
| "is_syscall_error _ = None"

fun is_partial_success :: "gerr \<Rightarrow> nat option" where
  "is_partial_success (PartialSuccess n) = Some n"
| "is_partial_success _ = None"

fun is_open_channel_error :: "gerr \<Rightarrow> (uint32 \<times> string) option" where
  "is_open_channel_error (OpenChannelError r m) = Some (r, m)"
| "is_open_channel_error _ = None"

section \<open>Classification of I/O errors (io-util.go, io-util_unix.go)\<close>

text \<open>
  The text test of \<open>isClosedError\<close> on a \<open>*net.OpError\<close> compares the message of its inner error
  with \<open>use of closed network connection\<close>. Of the errors modelled, \<open>net.ErrClosed\<close> has that
  message, and an \<open>Errorf\<close> whose format is that text.
\<close>

fun has_closed_text :: "gerr \<Rightarrow> bool" where
  "has_closed_text (Var NetErrClosed) = True"
| "has_closed_text (Errorf f xs) = (f = ''use of closed network connection'' \<and> xs = [])"
| "has_closed_text (Located _ _ e) = has_closed_text e"
| "has_closed_text (JoinErr [e]) = has_closed_text e"
| "has_closed_text _ = False"

definition unix_isClosedError :: "gerr \<Rightarrow> bool" where
  "unix_isClosedError err =
     (case errors_As is_syscall_error err of
        Some (Some e) \<Rightarrow> e = Errno EPIPE
      | _ \<Rightarrow> False)"

text \<open>
  The other platforms: on windows \<open>WSAECONNRESET\<close> (10054) and \<open>WSAECONNABORTED\<close> (10053) mean a closed connection, on the
  rest no system call error does. \<open>isClosedError_on\<close> takes the platform's \<open>_isClosedError\<close>.
\<close>

definition windows_isClosedError :: "gerr \<Rightarrow> bool" where
  "windows_isClosedError err =
     (case errors_As is_syscall_error err of
        Some (Some (Errno (OtherErrno n t))) \<Rightarrow> n = 10054 \<or> n = 10053
      | _ \<Rightarrow> False)"

definition other_isClosedError :: "gerr \<Rightarrow> bool" where
  "other_isClosedError err = False"

definition isClosedError_on :: "(gerr \<Rightarrow> bool) \<Rightarrow> gerr option \<Rightarrow> bool" where
  "isClosedError_on platform oe = (case oe of
     None \<Rightarrow> False
   | Some err \<Rightarrow>
       if errors_Is err (Var IoErrClosedPipe) \<or> errors_Is err (Var IoEOF) \<or> errors_Is err (Var NetErrClosed)
       then True
       else if platform err then True
       else (case errors_As is_op_error err of
               Some (Some e) \<Rightarrow> has_closed_text e
             | _ \<Rightarrow> False))"

definition isClosedError :: "gerr option \<Rightarrow> bool" where
  "isClosedError oe = (case oe of
     None \<Rightarrow> False
   | Some err \<Rightarrow>
       if errors_Is err (Var IoErrClosedPipe) \<or> errors_Is err (Var IoEOF) \<or> errors_Is err (Var NetErrClosed)
       then True
       else if unix_isClosedError err then True
       else (case errors_As is_op_error err of
               Some (Some e) \<Rightarrow> has_closed_text e
             | _ \<Rightarrow> False))"

definition isRelevantIoError :: "gerr option \<Rightarrow> bool" where
  "isRelevantIoError oe = (case oe of
     None \<Rightarrow> False
   | Some err \<Rightarrow> \<not> errors_Is err (Errno EIO) \<and> \<not> isClosedError oe)"

section \<open>Facts\<close>

lemma errors_Is_refl [simp]: "errors_Is e e"
  by (cases e) auto

lemma errors_Join_None_iff: "errors_Join es = None \<longleftrightarrow> (\<forall>e \<in> set es. e = None)"
  by (induction es) (auto simp: errors_Join_def List.map_filter_def Let_def)

lemma errors_Join_Nones [simp]: "errors_Join [None] = None" "errors_Join [None, None] = None"
  "errors_Join [None, None, None] = None"
  by (simp_all add: errors_Join_None_iff)

lemma errors_Join_Some [simp]:
  "errors_Join [Some a] = Some (JoinErr [a])"
  "errors_Join [Some a, None] = Some (JoinErr [a])"
  "errors_Join [None, Some b] = Some (JoinErr [b])"
  "errors_Join [Some a, Some b] = Some (JoinErr [a, b])"
  by (simp_all add: errors_Join_def List.map_filter_def)

lemma errors_Join_Is:
  assumes "Some e \<in> set es" and "errors_Is e t"
  shows "\<exists>j. errors_Join es = Some j \<and> errors_Is j t"
proof -
  have mem: "e \<in> set (List.map_filter id es)"
    using assms(1) by (force simp: List.map_filter_def)
  then have "List.map_filter id es \<noteq> []" by auto
  moreover have "list_ex (\<lambda>x. errors_Is x t) (List.map_filter id es)"
    using mem assms(2) by (auto simp: list_ex_iff)
  ultimately show ?thesis by (simp add: errors_Join_def Let_def)
qed

lemma errors_As_Is_leaf:
  "errors_As f e = Some x \<Longrightarrow> \<exists>e'. errors_Is e e' \<and> f e' = Some x"
proof (induction f e rule: errors_As.induct)
  case (5 f es)
  show ?case
  proof (cases "f (JoinErr es)")
    case None
    with "5.prems" have "first_some (errors_As f) es = Some x" by simp
    then have "\<exists>e \<in> set es. errors_As f e = Some x"
      by (induction es) (auto split: option.splits)
    then obtain e where "e \<in> set es" "errors_As f e = Some x" by blast
    with "5.IH" [OF None] obtain e' where "errors_Is e e'" "f e' = Some x" by blast
    with \<open>e \<in> set es\<close> show ?thesis by (auto simp: list_ex_iff)
  next
    case (Some y)
    with "5.prems" show ?thesis by (auto intro: exI [of _ "JoinErr es"])
  qed
qed (fastforce split: option.splits)+

lemma isClosedError_None [simp]: "isClosedError None = False"
  by (simp add: isClosedError_def)

lemma isRelevantIoError_None [simp]: "isRelevantIoError None = False"
  by (simp add: isRelevantIoError_def)

lemma closed_not_relevant: "isClosedError e \<Longrightarrow> \<not> isRelevantIoError e"
  by (auto simp: isRelevantIoError_def split: option.splits)

lemma isClosedError_unix: "isClosedError = isClosedError_on unix_isClosedError"
  by (rule ext) (simp add: isClosedError_def isClosedError_on_def)

text \<open>
  What the rest of the development needs of the classification holds on every platform: the errors of a closed pipe, of a closed
  connection and of the end of input count as closed, and what counts as closed on a platform without errors of its own does on all.
\<close>

lemma isClosedError_everywhere:
  "isClosedError_on platform (Some (Var IoErrClosedPipe))" "isClosedError_on platform (Some (Var IoEOF))"
  "isClosedError_on platform (Some (Var NetErrClosed))" "\<not> isClosedError_on platform None"
  "isClosedError_on other_isClosedError e \<Longrightarrow> isClosedError_on platform e"
  by (auto simp: isClosedError_on_def other_isClosedError_def split: option.splits if_splits)

definition reset_error :: "gerr option" where
  "reset_error = Some (OpError ''read'' False (Some (SyscallError (Some (Errno (OtherErrno 10054 True))))))"

lemma reset_connections_by_platform:
  "isClosedError_on windows_isClosedError reset_error" "\<not> isClosedError_on unix_isClosedError reset_error"
  "\<not> isClosedError_on other_isClosedError reset_error"
  by (simp_all add: reset_error_def isClosedError_on_def windows_isClosedError_def unix_isClosedError_def other_isClosedError_def)

section \<open>The texts of the package's errors\<close>

text \<open>The error variables, where they are declared, with their texts; the last are variables of the standard library.\<close>

definition server_error_texts :: "(errvar \<times> string) list" where
  "server_error_texts =
     [(ErrGracefulShutdownTimeout, ''ssh: graceful shutdown timeout''),
      (ErrServerPermissionDenied, ''permission denied''),
      (ErrServerHostSignerRequired, ''ssh: at least one persistent host signer is required''),
      (ErrServerClientAuthRequired, ''ssh: at least one client authentication method is required''),
      (ErrServerAuthCallbackConflict, ''ssh: conflicting authentication callbacks''),
      (ErrChannelResponseAlreadySent, ''ssh: channel response was already sent''),
      (ErrChannelResponseNotSent, ''ssh: channel handler returned without accepting or rejecting the channel'')]"

definition subsystem_error_texts :: "(errvar \<times> string) list" where
  "subsystem_error_texts =
     [(ErrSubsystemResponseAlreadySent, ''ssh: subsystem response already sent''),
      (ErrSubsystemResponsePending, ''ssh: subsystem response pending or rejected'')]"

definition dispatch_error_texts :: "(errvar \<times> string) list" where
  "dispatch_error_texts =
     [(ErrErrorResponseUnsupported, ''ssh: error response is not supported''),
      (ErrErrorResponseAlreadySent, ''ssh: error response was already sent''),
      (ErrErrorResponseExpired, ''ssh: error responder has expired''),
      (ErrNextErrorHandlerAlreadyCalled, ''ssh: next error handler was already called''),
      (ErrNextErrorHandlerExpired, ''ssh: next error handler has expired''),
      (ErrNextErrorHandlerIncomplete, ''ssh: next error handler did not complete synchronously'')]"

definition response_error_text :: "errvar \<times> string" where
  "response_error_text = (ErrErrorResponseIncomplete, ''ssh: error response did not complete synchronously'')"

definition request_error_texts :: "(errvar \<times> string) list" where
  "request_error_texts =
     [(ErrRequestResponseAlreadySent, ''ssh: request response was already sent''),
      (ErrRequestResponseExpired, ''ssh: request response is no longer valid''),
      (ErrRequestResponseIncomplete, ''ssh: request response did not complete synchronously''),
      (ErrRequestResponseNotSent, ''ssh: request handler returned without a response'')]"

definition package_error_texts :: "(errvar \<times> string) list" where
  "package_error_texts = server_error_texts @ subsystem_error_texts @ dispatch_error_texts @ response_error_text # request_error_texts"

lemmas error_texts = package_error_texts_def server_error_texts_def subsystem_error_texts_def dispatch_error_texts_def
  response_error_text_def request_error_texts_def

text \<open>No two of them read the same, and none is taken for a closed connection by its text.\<close>

lemma package_errors_distinct: "distinct (map fst package_error_texts)" "distinct (map snd package_error_texts)"
  by (simp_all add: error_texts)

lemma package_errors_not_closed:
  "(v, text) \<in> set package_error_texts \<Longrightarrow> text \<noteq> ''use of closed network connection'' \<and> \<not> isClosedError_on other_isClosedError (Some (Var v))"
  by (auto simp: error_texts isClosedError_on_def other_isClosedError_def)

text \<open>\<open>Error\<close> of a \<open>*SessionExitError\<close>, which may be nil, and its constructor.\<close>

fun NewSessionExitError :: "int \<Rightarrow> string \<Rightarrow> gerr" where
  "NewSessionExitError code message = SessionExit (Some (code, message))"

fun SessionExitError_Error :: "(int \<times> string) option \<Rightarrow> string" where
  "SessionExitError_Error None = ''ssh: session exit requested''"
| "SessionExitError_Error (Some (code, message)) =
     (if message = [] then ''ssh: session exit requested with code '' @ int_text code
      else ''ssh: session exit requested with code '' @ int_text code @ '': '' @ message)"

end
