(* ===== verification/TextCodec.thy ===== *)
theory TextCodec
  imports GoErrors
begin

text \<open>
  The text codec that \<open>cipher.go\<close>, \<open>key-exchange.go\<close> and \<open>message-authentication.go\<close> share by
  repetition: an enumeration over \<open>uint8\<close> with a table of names, and comma-separated lists of
  it. The loops of the list methods, written once over the element methods; the locale
  \<open>text_codec\<close> states what a table of names must promise, and proves the round trips of the
  list methods from it.
\<close>

section \<open>Loops over the element methods\<close>

text \<open>
  The loop of \<open>MarshalTexts\<close>: the texts of the elements in order, or the error of the first
  element that has none, wrapped with its index.
\<close>

fun marshal_texts :: "(uint8 \<Rightarrow> gerr + string) \<Rightarrow> nat \<Rightarrow> uint8 list \<Rightarrow> gerr + string list" where
  "marshal_texts m i [] = Inr []"
| "marshal_texts m i (v # vs) =
     (case m v of
        Inl err \<Rightarrow> Inl (WrapErr ''[%d] %w'' [AInt (int i)] err)
      | Inr t \<Rightarrow> (case marshal_texts m (Suc i) vs of Inl err \<Rightarrow> Inl err | Inr ts \<Rightarrow> Inr (t # ts)))"

text \<open>
  The loop of \<open>UnmarshalText\<close>: each piece is decoded and appended to the receiver; the first
  failing piece ends the loop, and what was appended before it stays in the receiver.
\<close>

fun unmarshal_texts ::
  "(string \<Rightarrow> gerr + uint8) \<Rightarrow> uint8 list \<Rightarrow> string list \<Rightarrow> gerr option \<times> uint8 list" where
  "unmarshal_texts u c [] = (None, c)"
| "unmarshal_texts u c (v # vs) =
     (case u v of
        Inl err \<Rightarrow> (Some err, c)
      | Inr buf \<Rightarrow> unmarshal_texts u (c @ [buf]) vs)"

lemma unmarshal_texts_length:
  "unmarshal_texts u c ts = (None, cs) \<Longrightarrow> length cs = length c + length ts"
  by (induction ts arbitrary: c) (fastforce split: sum.splits)+

lemma unmarshal_texts_nonempty: "unmarshal_texts u [] (split_on sep t) \<noteq> (None, [])"
  using unmarshal_texts_length [of u "[]" "split_on sep t" "[]"] by auto

text \<open>The element-wise comparison of \<open>isEqualTo\<close>, after the length test.\<close>

fun equal_elems :: "(uint8 \<Rightarrow> uint8 option \<Rightarrow> bool) \<Rightarrow> uint8 list \<Rightarrow> uint8 list \<Rightarrow> bool" where
  "equal_elems eq (tv # c) (ov # other) = (if \<not> eq tv (Some ov) then False else equal_elems eq c other)"
| "equal_elems eq _ _ = True"

text \<open>
  \<open>fmt.Sprintf\<close> on arguments that are already text: each verb takes the next one. The text of
  the errors \<open>MarshalTexts\<close> returns; no other error reaches \<open>codec_error_text\<close>.
\<close>

fun sprintf :: "string \<Rightarrow> string list \<Rightarrow> string" where
  "sprintf [] args = []"
| "sprintf [c] args = [c]"
| "sprintf (c # d # f) args =
     (if c = CHR ''%'' then (case args of [] \<Rightarrow> sprintf f [] | a # as \<Rightarrow> a @ sprintf f as)
      else c # sprintf (d # f) args)"

fun farg_text :: "farg \<Rightarrow> string" where
  "farg_text (AStr s) = s"
| "farg_text (AQuoted s) = CHR 0x22 # s @ [CHR 0x22]"
| "farg_text (AInt i) = int_text i"

fun codec_error_text :: "gerr \<Rightarrow> string" where
  "codec_error_text (Errorf f xs) = sprintf f (map farg_text xs)"
| "codec_error_text (WrapErr f xs e) = sprintf f (map farg_text xs @ [codec_error_text e])"
| "codec_error_text _ = []"

text \<open>An argument of type \<open>any\<close> as \<open>IsEqualTo\<close> distinguishes it.\<close>

datatype 'a any = AnyNil | AnyValue 'a | AnyPointer "'a option" | AnyOther

section \<open>A table of names\<close>

locale name_table =
  fixes tbl :: "(uint8 \<times> string) list"
  assumes keys_distinct: "distinct (map fst tbl)"
    and names_distinct: "distinct (map snd tbl)"
begin

lemma lookup_name_iff: "map_of tbl c = Some t \<longleftrightarrow> (c, t) \<in> set tbl"
  using keys_distinct by (rule map_of_eq_Some_iff)

lemma lookup_key_iff: "map_of (map (\<lambda>(k, v). (v, k)) tbl) t = Some c \<longleftrightarrow> (c, t) \<in> set tbl"
proof -
  have "distinct (map fst (map (\<lambda>(k, v). (v, k)) tbl))"
    using names_distinct by (simp add: o_def case_prod_unfold)
  then have "map_of (map (\<lambda>(k, v). (v, k)) tbl) t = Some c
      \<longleftrightarrow> (t, c) \<in> set (map (\<lambda>(k, v). (v, k)) tbl)"
    by (rule map_of_eq_Some_iff)
  also have "\<dots> \<longleftrightarrow> (c, t) \<in> set tbl"
    by force
  finally show ?thesis .
qed

lemma inverse_tables:
  "map_of (map (\<lambda>(k, v). (v, k)) tbl) t = Some c \<longleftrightarrow> map_of tbl c = Some t"
  by (simp add: lookup_name_iff lookup_key_iff)

text \<open>A scan of the table in any order finds the same key: a Go map has no order.\<close>

lemma find_any_order:
  assumes "set order = set tbl"
  shows "(case find (\<lambda>(k, name). name = t) order of None \<Rightarrow> None | Some (k, _) \<Rightarrow> Some k)
    = map_of (map (\<lambda>(k, v). (v, k)) tbl) t"
proof (cases "find (\<lambda>(k, name). name = t) order")
  case None
  then have "\<forall>k. (k, t) \<notin> set tbl"
    using assms by (auto simp: find_None_iff)
  then have "map_of (map (\<lambda>(k, v). (v, k)) tbl) t = None"
    using lookup_key_iff by (cases "map_of (map (\<lambda>(k, v). (v, k)) tbl) t") auto
  with None show ?thesis by simp
next
  case (Some p)
  then have "p \<in> set order" "snd p = t"
    by (auto simp: find_Some_iff case_prod_unfold)
  then have "p \<in> set tbl" "snd p = t"
    using assms by auto
  then have "map_of (map (\<lambda>(k, v). (v, k)) tbl) t = Some (fst p)"
    using lookup_key_iff [of t "fst p"] by (cases p) auto
  with Some show ?thesis by (cases p) simp
qed

end

section \<open>The interface of a codec and what follows from it\<close>

locale text_codec =
  fixes marshal :: "uint8 \<Rightarrow> gerr + string"
    and unmarshal :: "string \<Rightarrow> gerr + uint8"
  assumes unmarshal_iff: "unmarshal t = Inr c \<longleftrightarrow> marshal c = Inr t"
    and no_comma: "marshal c = Inr t \<Longrightarrow> CHR '','' \<notin> set t"
begin

lemma marshal_texts_Inr:
  "marshal_texts marshal i cs = Inr ts \<longleftrightarrow> list_all2 (\<lambda>c t. marshal c = Inr t) cs ts"
proof (induction cs arbitrary: i ts)
  case Nil
  then show ?case by auto
next
  case (Cons c cs)
  show ?case
  proof (cases "marshal c")
    case (Inl e)
    then show ?thesis by (simp add: list_all2_Cons1)
  next
    case (Inr t)
    then have "marshal_texts marshal i (c # cs) = Inr ts
        \<longleftrightarrow> (\<exists>ts'. marshal_texts marshal (Suc i) cs = Inr ts' \<and> ts = t # ts')"
      by (auto split: sum.splits)
    with Inr show ?thesis by (auto simp: Cons.IH list_all2_Cons1)
  qed
qed

lemma marshal_texts_length:
  "marshal_texts marshal i cs = Inr ts \<Longrightarrow> length ts = length cs"
  by (simp add: marshal_texts_Inr list_all2_lengthD)

lemma marshal_texts_total_iff:
  "(\<exists>ts. marshal_texts marshal i cs = Inr ts) \<longleftrightarrow> (\<forall>c \<in> set cs. \<exists>t. marshal c = Inr t)"
  unfolding marshal_texts_Inr by (induction cs) (auto simp: list_all2_Cons1)

lemma unmarshal_texts_marshalled:
  "list_all2 (\<lambda>c t. marshal c = Inr t) cs ts \<Longrightarrow>
   unmarshal_texts unmarshal old ts = (None, old @ cs)"
  by (induction cs ts arbitrary: old rule: list_all2_induct) (auto simp: unmarshal_iff [THEN iffD2])

lemma unmarshal_texts_Some:
  "unmarshal_texts unmarshal old ts = (None, new) \<Longrightarrow>
   \<exists>cs. new = old @ cs \<and> list_all2 (\<lambda>c t. marshal c = Inr t) cs ts"
proof (induction ts arbitrary: old)
  case Nil
  then show ?case by simp
next
  case (Cons t ts)
  then obtain c where c: "unmarshal t = Inr c"
    by (cases "unmarshal t") auto
  with Cons.prems have "unmarshal_texts unmarshal (old @ [c]) ts = (None, new)" by simp
  from Cons.IH [OF this] obtain cs
    where "new = (old @ [c]) @ cs" and "list_all2 (\<lambda>c t. marshal c = Inr t) cs ts" by blast
  with c show ?case
    by (intro exI [of _ "c # cs"]) (simp add: unmarshal_iff)
qed

lemma pieces_of_marshalled:
  assumes "list_all2 (\<lambda>c t. marshal c = Inr t) cs ts" and "cs \<noteq> []"
  shows "split_on (CHR '','') (join_with (CHR '','') ts) = ts"
proof (rule split_on_join)
  show "ts \<noteq> []" using assms by auto
  show "\<forall>p \<in> set ts. CHR '','' \<notin> set p"
    using assms(1) by (induction rule: list_all2_induct) (auto dest: no_comma)
qed

lemma list_round_trip:
  assumes "marshal_texts marshal 0 cs = Inr ts" and "cs \<noteq> []"
  shows "unmarshal_texts unmarshal old (split_on (CHR '','') (join_with (CHR '','') ts)) = (None, old @ cs)"
proof -
  from assms(1) have "list_all2 (\<lambda>c t. marshal c = Inr t) cs ts"
    by (simp add: marshal_texts_Inr)
  with assms(2) show ?thesis
    by (simp add: pieces_of_marshalled unmarshal_texts_marshalled)
qed

lemma list_parse_print:
  assumes "unmarshal_texts unmarshal [] (split_on (CHR '','') text) = (None, cs)"
  shows "\<exists>ts. marshal_texts marshal 0 cs = Inr ts \<and> join_with (CHR '','') ts = text"
proof -
  from unmarshal_texts_Some [OF assms]
  have "list_all2 (\<lambda>c t. marshal c = Inr t) cs (split_on (CHR '','') text)" by simp
  then show ?thesis
    by (intro exI [of _ "split_on (CHR '','') text"]) (simp add: marshal_texts_Inr join_split_on)
qed

end

lemma equal_elems_iff:
  assumes "\<And>x y. eq x (Some y) \<longleftrightarrow> x = y" and "length xs = length ys"
  shows "equal_elems eq xs ys \<longleftrightarrow> xs = ys"
  using assms(2) by (induction xs ys rule: list_induct2) (auto simp: assms(1))

end
