(* ===== verification/Algorithms.thy ===== *)
theory Algorithms
  imports TextCodec
begin

text \<open>
  \<open>cipher.go\<close>, \<open>key-exchange.go\<close> and \<open>message-authentication.go\<close>: three enumerations over \<open>uint8\<close>,
  their tables of names, their defaults, and the text methods of one value and of a list. A
  method with a pointer receiver returns the receiver's new value. Each enumeration's methods
  are shown to be a \<open>text_codec\<close>; the round trips of the list methods follow.
\<close>

section \<open>Cipher\<close>

abbreviation CipherAes128Cbc :: uint8 where "CipherAes128Cbc \<equiv> 0"
abbreviation Cipher3desCbc :: uint8 where "Cipher3desCbc \<equiv> 1"
abbreviation CipherArcfour :: uint8 where "CipherArcfour \<equiv> 2"
abbreviation CipherArcfour128 :: uint8 where "CipherArcfour128 \<equiv> 3"
abbreviation CipherArcfour256 :: uint8 where "CipherArcfour256 \<equiv> 4"
abbreviation CipherChacha20Poly1305 :: uint8 where "CipherChacha20Poly1305 \<equiv> 5"
abbreviation CipherAes128Ctr :: uint8 where "CipherAes128Ctr \<equiv> 6"
abbreviation CipherAes192Ctr :: uint8 where "CipherAes192Ctr \<equiv> 7"
abbreviation CipherAes256Ctr :: uint8 where "CipherAes256Ctr \<equiv> 8"
abbreviation CipherAes128Gcm :: uint8 where "CipherAes128Gcm \<equiv> 9"
abbreviation CipherAes256Gcm :: uint8 where "CipherAes256Gcm \<equiv> 10"

definition cipher2Name :: "(uint8 \<times> string) list" where
  "cipher2Name =
   [(CipherAes128Cbc, ''aes128-cbc''),
    (Cipher3desCbc, ''3des-cbc''),
    (CipherArcfour, ''arcfour''),
    (CipherArcfour128, ''arcfour128''),
    (CipherArcfour256, ''arcfour256''),
    (CipherChacha20Poly1305, ''chacha20-poly1305@openssh.com''),
    (CipherAes128Ctr, ''aes128-ctr''),
    (CipherAes192Ctr, ''aes192-ctr''),
    (CipherAes256Ctr, ''aes256-ctr''),
    (CipherAes128Gcm, ''aes128-gcm@openssh.com''),
    (CipherAes256Gcm, ''aes256-gcm@openssh.com'')]"

definition name2Cipher :: "(string \<times> uint8) list" where
  "name2Cipher = map (\<lambda>(k, v). (v, k)) cipher2Name"

definition DefaultCiphers :: "uint8 list" where
  "DefaultCiphers = [CipherAes256Gcm, CipherAes256Ctr, CipherAes192Ctr]"

definition Cipher_MarshalText :: "uint8 \<Rightarrow> gerr + string" where
  "Cipher_MarshalText c =
     (case map_of cipher2Name c of
        Some v \<Rightarrow> Inr v
      | None \<Rightarrow> Inl (Errorf ''illegal ssh cipher: %d'' [AInt (uint c)]))"

definition Cipher_Validate :: "uint8 \<Rightarrow> gerr option" where
  "Cipher_Validate c = (case Cipher_MarshalText c of Inl err \<Rightarrow> Some err | Inr _ \<Rightarrow> None)"

definition Cipher_String :: "uint8 \<Rightarrow> string" where
  "Cipher_String c =
     (case Cipher_MarshalText c of
        Inr v \<Rightarrow> v
      | Inl _ \<Rightarrow> ''illegal-ssh-cipher-'' @ int_text (uint c))"

text \<open>The result is the new value of the receiver, or the error and the receiver unchanged.\<close>

definition Cipher_UnmarshalText :: "string \<Rightarrow> gerr + uint8" where
  "Cipher_UnmarshalText text =
     (case map_of name2Cipher text of
        Some v \<Rightarrow> Inr v
      | None \<Rightarrow> Inl (Errorf ''illegal ssh cipher: %q'' [AQuoted text]))"

definition Cipher_isEqualTo :: "uint8 \<Rightarrow> uint8 option \<Rightarrow> bool" where
  "Cipher_isEqualTo c other = (case other of None \<Rightarrow> False | Some v \<Rightarrow> c = v)"

definition Ciphers_MarshalTexts :: "uint8 list \<Rightarrow> gerr + string list" where
  "Ciphers_MarshalTexts c = marshal_texts Cipher_MarshalText 0 c"

definition Ciphers_MarshalText :: "uint8 list \<Rightarrow> gerr + string" where
  "Ciphers_MarshalText c =
     (case Ciphers_MarshalTexts c of
        Inl err \<Rightarrow> Inl err
      | Inr texts \<Rightarrow> Inr (join_with (CHR '','') texts))"

definition Ciphers_Validate :: "uint8 list \<Rightarrow> gerr option" where
  "Ciphers_Validate c = (case Ciphers_MarshalText c of Inl err \<Rightarrow> Some err | Inr _ \<Rightarrow> None)"

definition Ciphers_UnmarshalText :: "uint8 list \<Rightarrow> string \<Rightarrow> gerr option \<times> uint8 list" where
  "Ciphers_UnmarshalText c text =
     unmarshal_texts Cipher_UnmarshalText c (split_on (CHR '','') text)"

definition Ciphers_isEqualTo :: "uint8 list \<Rightarrow> uint8 list option \<Rightarrow> bool" where
  "Ciphers_isEqualTo c other =
     (case other of
        None \<Rightarrow> False
      | Some os \<Rightarrow>
          if length c \<noteq> length os then False else equal_elems Cipher_isEqualTo c os)"

definition Cipher_Set :: "string \<Rightarrow> gerr + uint8" where
  "Cipher_Set text = Cipher_UnmarshalText text"

definition Cipher_IsEqualTo :: "uint8 \<Rightarrow> uint8 any \<Rightarrow> bool" where
  "Cipher_IsEqualTo c other =
     (case other of
        AnyNil \<Rightarrow> False
      | AnyValue v \<Rightarrow> Cipher_isEqualTo c (Some v)
      | AnyPointer v \<Rightarrow> Cipher_isEqualTo c v
      | AnyOther \<Rightarrow> False)"

definition Ciphers_IsEmpty :: "uint8 list \<Rightarrow> bool" where
  "Ciphers_IsEmpty c = (length c = 0)"

definition Ciphers_String :: "uint8 list \<Rightarrow> string" where
  "Ciphers_String c =
     (case Ciphers_MarshalText c of
        Inl err \<Rightarrow> ''illegal-ssh-ciphers: '' @ codec_error_text err
      | Inr v \<Rightarrow> v)"

definition Ciphers_Set :: "uint8 list \<Rightarrow> string \<Rightarrow> gerr option \<times> uint8 list" where
  "Ciphers_Set c text = Ciphers_UnmarshalText c text"

definition Ciphers_IsEqualTo :: "uint8 list \<Rightarrow> uint8 list any \<Rightarrow> bool" where
  "Ciphers_IsEqualTo c other =
     (case other of
        AnyNil \<Rightarrow> False
      | AnyValue v \<Rightarrow> Ciphers_isEqualTo c (Some v)
      | AnyPointer v \<Rightarrow> Ciphers_isEqualTo c v
      | AnyOther \<Rightarrow> False)"

definition Ciphers_Contains :: "uint8 list \<Rightarrow> uint8 \<Rightarrow> bool" where
  "Ciphers_Contains c v = List.member c v"

interpretation cipher_names: name_table cipher2Name
  by unfold_locales (simp_all add: cipher2Name_def)

lemma Cipher_MarshalText_Inr: "Cipher_MarshalText c = Inr t \<longleftrightarrow> map_of cipher2Name c = Some t"
  by (auto simp: Cipher_MarshalText_def split: option.splits)

lemma Cipher_UnmarshalText_Inr: "Cipher_UnmarshalText t = Inr c \<longleftrightarrow> map_of name2Cipher t = Some c"
  by (auto simp: Cipher_UnmarshalText_def split: option.splits)

interpretation cipher_codec: text_codec Cipher_MarshalText Cipher_UnmarshalText
proof unfold_locales
  show "Cipher_UnmarshalText t = Inr c \<longleftrightarrow> Cipher_MarshalText c = Inr t" for t c
    unfolding Cipher_MarshalText_Inr Cipher_UnmarshalText_Inr name2Cipher_def
    by (rule cipher_names.inverse_tables)
  show "CHR '','' \<notin> set t" if "Cipher_MarshalText c = Inr t" for c t
  proof -
    have "t \<in> snd ` set cipher2Name"
      using that unfolding Cipher_MarshalText_Inr cipher_names.lookup_name_iff by force
    moreover have "\<forall>n \<in> snd ` set cipher2Name. CHR '','' \<notin> set n"
      by (simp add: cipher2Name_def)
    ultimately show ?thesis by blast
  qed
qed

section \<open>KeyExchange\<close>

abbreviation KeyExchangeDh1Sha1 :: uint8 where "KeyExchangeDh1Sha1 \<equiv> 0"
abbreviation KeyExchangeDh14Sha1 :: uint8 where "KeyExchangeDh14Sha1 \<equiv> 1"
abbreviation KeyExchangeDh14Sha256 :: uint8 where "KeyExchangeDh14Sha256 \<equiv> 2"
abbreviation KeyExchangeDh16Sha512 :: uint8 where "KeyExchangeDh16Sha512 \<equiv> 3"
abbreviation KeyExchangeEcdh256 :: uint8 where "KeyExchangeEcdh256 \<equiv> 4"
abbreviation KeyExchangeEcdh384 :: uint8 where "KeyExchangeEcdh384 \<equiv> 5"
abbreviation KeyExchangeEcdh521 :: uint8 where "KeyExchangeEcdh521 \<equiv> 6"
abbreviation KeyExchangeCurve25519Sha256LibSsh :: uint8 where "KeyExchangeCurve25519Sha256LibSsh \<equiv> 7"
abbreviation KeyExchangeCurve25519Sha256 :: uint8 where "KeyExchangeCurve25519Sha256 \<equiv> 8"
abbreviation KeyExchangeDhgexSha1 :: uint8 where "KeyExchangeDhgexSha1 \<equiv> 9"
abbreviation KeyExchangeDhgexSha256 :: uint8 where "KeyExchangeDhgexSha256 \<equiv> 10"
abbreviation KeyExchangeMlkem768x25519xSha256 :: uint8 where "KeyExchangeMlkem768x25519xSha256 \<equiv> 11"

definition keyExchange2Name :: "(uint8 \<times> string) list" where
  "keyExchange2Name =
   [(KeyExchangeDh1Sha1, ''diffie-hellman-group1-sha1''),
    (KeyExchangeDh14Sha1, ''diffie-hellman-group14-sha1''),
    (KeyExchangeDh14Sha256, ''diffie-hellman-group14-sha256''),
    (KeyExchangeDh16Sha512, ''diffie-hellman-group16-sha512''),
    (KeyExchangeEcdh256, ''ecdh-sha2-nistp256''),
    (KeyExchangeEcdh384, ''ecdh-sha2-nistp384''),
    (KeyExchangeEcdh521, ''ecdh-sha2-nistp521''),
    (KeyExchangeCurve25519Sha256LibSsh, ''curve25519-sha256@libssh.org''),
    (KeyExchangeCurve25519Sha256, ''curve25519-sha256''),
    (KeyExchangeDhgexSha1, ''diffie-hellman-group-exchange-sha1''),
    (KeyExchangeDhgexSha256, ''diffie-hellman-group-exchange-sha256''),
    (KeyExchangeMlkem768x25519xSha256, ''mlkem768x25519-sha256'')]"

definition name2KeyExchange :: "(string \<times> uint8) list" where
  "name2KeyExchange = map (\<lambda>(k, v). (v, k)) keyExchange2Name"

definition DefaultKeyExchanges :: "uint8 list" where
  "DefaultKeyExchanges = [KeyExchangeCurve25519Sha256LibSsh, KeyExchangeCurve25519Sha256, KeyExchangeDh16Sha512, KeyExchangeMlkem768x25519xSha256]"

definition KeyExchange_MarshalText :: "uint8 \<Rightarrow> gerr + string" where
  "KeyExchange_MarshalText c =
     (case map_of keyExchange2Name c of
        Some v \<Rightarrow> Inr v
      | None \<Rightarrow> Inl (Errorf ''illegal ssh key exchange: %d'' [AInt (uint c)]))"

definition KeyExchange_Validate :: "uint8 \<Rightarrow> gerr option" where
  "KeyExchange_Validate c = (case KeyExchange_MarshalText c of Inl err \<Rightarrow> Some err | Inr _ \<Rightarrow> None)"

definition KeyExchange_String :: "uint8 \<Rightarrow> string" where
  "KeyExchange_String c =
     (case KeyExchange_MarshalText c of
        Inr v \<Rightarrow> v
      | Inl _ \<Rightarrow> ''illegal-ssh-key-exchange-'' @ int_text (uint c))"

text \<open>The result is the new value of the receiver, or the error and the receiver unchanged.\<close>

definition KeyExchange_UnmarshalText :: "string \<Rightarrow> gerr + uint8" where
  "KeyExchange_UnmarshalText text =
     (case map_of name2KeyExchange text of
        Some v \<Rightarrow> Inr v
      | None \<Rightarrow> Inl (Errorf ''illegal ssh key exchange: %q'' [AQuoted text]))"

definition KeyExchange_isEqualTo :: "uint8 \<Rightarrow> uint8 option \<Rightarrow> bool" where
  "KeyExchange_isEqualTo c other = (case other of None \<Rightarrow> False | Some v \<Rightarrow> c = v)"

definition KeyExchanges_MarshalTexts :: "uint8 list \<Rightarrow> gerr + string list" where
  "KeyExchanges_MarshalTexts c = marshal_texts KeyExchange_MarshalText 0 c"

definition KeyExchanges_MarshalText :: "uint8 list \<Rightarrow> gerr + string" where
  "KeyExchanges_MarshalText c =
     (case KeyExchanges_MarshalTexts c of
        Inl err \<Rightarrow> Inl err
      | Inr texts \<Rightarrow> Inr (join_with (CHR '','') texts))"

definition KeyExchanges_Validate :: "uint8 list \<Rightarrow> gerr option" where
  "KeyExchanges_Validate c = (case KeyExchanges_MarshalText c of Inl err \<Rightarrow> Some err | Inr _ \<Rightarrow> None)"

definition KeyExchanges_UnmarshalText :: "uint8 list \<Rightarrow> string \<Rightarrow> gerr option \<times> uint8 list" where
  "KeyExchanges_UnmarshalText c text =
     unmarshal_texts KeyExchange_UnmarshalText c (split_on (CHR '','') text)"

definition KeyExchanges_isEqualTo :: "uint8 list \<Rightarrow> uint8 list option \<Rightarrow> bool" where
  "KeyExchanges_isEqualTo c other =
     (case other of
        None \<Rightarrow> False
      | Some os \<Rightarrow>
          if length c \<noteq> length os then False else equal_elems KeyExchange_isEqualTo c os)"

definition KeyExchange_Set :: "string \<Rightarrow> gerr + uint8" where
  "KeyExchange_Set text = KeyExchange_UnmarshalText text"

definition KeyExchange_IsEqualTo :: "uint8 \<Rightarrow> uint8 any \<Rightarrow> bool" where
  "KeyExchange_IsEqualTo c other =
     (case other of
        AnyNil \<Rightarrow> False
      | AnyValue v \<Rightarrow> KeyExchange_isEqualTo c (Some v)
      | AnyPointer v \<Rightarrow> KeyExchange_isEqualTo c v
      | AnyOther \<Rightarrow> False)"

definition KeyExchanges_IsEmpty :: "uint8 list \<Rightarrow> bool" where
  "KeyExchanges_IsEmpty c = (length c = 0)"

definition KeyExchanges_String :: "uint8 list \<Rightarrow> string" where
  "KeyExchanges_String c =
     (case KeyExchanges_MarshalText c of
        Inl err \<Rightarrow> ''illegal-ssh-key-exchanges: '' @ codec_error_text err
      | Inr v \<Rightarrow> v)"

definition KeyExchanges_Set :: "uint8 list \<Rightarrow> string \<Rightarrow> gerr option \<times> uint8 list" where
  "KeyExchanges_Set c text = KeyExchanges_UnmarshalText c text"

definition KeyExchanges_IsEqualTo :: "uint8 list \<Rightarrow> uint8 list any \<Rightarrow> bool" where
  "KeyExchanges_IsEqualTo c other =
     (case other of
        AnyNil \<Rightarrow> False
      | AnyValue v \<Rightarrow> KeyExchanges_isEqualTo c (Some v)
      | AnyPointer v \<Rightarrow> KeyExchanges_isEqualTo c v
      | AnyOther \<Rightarrow> False)"

definition KeyExchanges_Contains :: "uint8 list \<Rightarrow> uint8 \<Rightarrow> bool" where
  "KeyExchanges_Contains c v = List.member c v"

interpretation keyexchange_names: name_table keyExchange2Name
  by unfold_locales (simp_all add: keyExchange2Name_def)

lemma KeyExchange_MarshalText_Inr: "KeyExchange_MarshalText c = Inr t \<longleftrightarrow> map_of keyExchange2Name c = Some t"
  by (auto simp: KeyExchange_MarshalText_def split: option.splits)

lemma KeyExchange_UnmarshalText_Inr: "KeyExchange_UnmarshalText t = Inr c \<longleftrightarrow> map_of name2KeyExchange t = Some c"
  by (auto simp: KeyExchange_UnmarshalText_def split: option.splits)

interpretation keyexchange_codec: text_codec KeyExchange_MarshalText KeyExchange_UnmarshalText
proof unfold_locales
  show "KeyExchange_UnmarshalText t = Inr c \<longleftrightarrow> KeyExchange_MarshalText c = Inr t" for t c
    unfolding KeyExchange_MarshalText_Inr KeyExchange_UnmarshalText_Inr name2KeyExchange_def
    by (rule keyexchange_names.inverse_tables)
  show "CHR '','' \<notin> set t" if "KeyExchange_MarshalText c = Inr t" for c t
  proof -
    have "t \<in> snd ` set keyExchange2Name"
      using that unfolding KeyExchange_MarshalText_Inr keyexchange_names.lookup_name_iff by force
    moreover have "\<forall>n \<in> snd ` set keyExchange2Name. CHR '','' \<notin> set n"
      by (simp add: keyExchange2Name_def)
    ultimately show ?thesis by blast
  qed
qed

section \<open>MessageAuthentication\<close>

abbreviation MessageAuthenticationHmacSha1 :: uint8 where "MessageAuthenticationHmacSha1 \<equiv> 0"
abbreviation MessageAuthenticationHmacSha1B96 :: uint8 where "MessageAuthenticationHmacSha1B96 \<equiv> 1"
abbreviation MessageAuthenticationHmacSha2B256 :: uint8 where "MessageAuthenticationHmacSha2B256 \<equiv> 2"
abbreviation MessageAuthenticationHmacSha2B512 :: uint8 where "MessageAuthenticationHmacSha2B512 \<equiv> 3"
abbreviation MessageAuthenticationHmacSha2B256Etm :: uint8 where "MessageAuthenticationHmacSha2B256Etm \<equiv> 4"
abbreviation MessageAuthenticationHmacSha2B512Etm :: uint8 where "MessageAuthenticationHmacSha2B512Etm \<equiv> 5"

definition messageAuthentication2Name :: "(uint8 \<times> string) list" where
  "messageAuthentication2Name =
   [(MessageAuthenticationHmacSha1, ''hmac-sha1''),
    (MessageAuthenticationHmacSha1B96, ''hmac-sha1-96''),
    (MessageAuthenticationHmacSha2B256, ''hmac-sha2-256''),
    (MessageAuthenticationHmacSha2B512, ''hmac-sha2-512''),
    (MessageAuthenticationHmacSha2B256Etm, ''hmac-sha2-256-etm@openssh.com''),
    (MessageAuthenticationHmacSha2B512Etm, ''hmac-sha2-512-etm@openssh.com'')]"

definition name2MessageAuthentication :: "(string \<times> uint8) list" where
  "name2MessageAuthentication = map (\<lambda>(k, v). (v, k)) messageAuthentication2Name"

definition DefaultMessageAuthentications :: "uint8 list" where
  "DefaultMessageAuthentications = [MessageAuthenticationHmacSha2B512Etm, MessageAuthenticationHmacSha2B256Etm]"

definition MessageAuthentication_MarshalText :: "uint8 \<Rightarrow> gerr + string" where
  "MessageAuthentication_MarshalText c =
     (case map_of messageAuthentication2Name c of
        Some v \<Rightarrow> Inr v
      | None \<Rightarrow> Inl (Errorf ''illegal ssh message authentication: %d'' [AInt (uint c)]))"

definition MessageAuthentication_Validate :: "uint8 \<Rightarrow> gerr option" where
  "MessageAuthentication_Validate c = (case MessageAuthentication_MarshalText c of Inl err \<Rightarrow> Some err | Inr _ \<Rightarrow> None)"

definition MessageAuthentication_String :: "uint8 \<Rightarrow> string" where
  "MessageAuthentication_String c =
     (case MessageAuthentication_MarshalText c of
        Inr v \<Rightarrow> v
      | Inl _ \<Rightarrow> ''illegal-ssh-message-authentication-'' @ int_text (uint c))"

text \<open>The result is the new value of the receiver, or the error and the receiver unchanged.\<close>

definition MessageAuthentication_UnmarshalText :: "string \<Rightarrow> gerr + uint8" where
  "MessageAuthentication_UnmarshalText text =
     (case map_of name2MessageAuthentication text of
        Some v \<Rightarrow> Inr v
      | None \<Rightarrow> Inl (Errorf ''illegal ssh message authentication: %q'' [AQuoted text]))"

definition MessageAuthentication_isEqualTo :: "uint8 \<Rightarrow> uint8 option \<Rightarrow> bool" where
  "MessageAuthentication_isEqualTo c other = (case other of None \<Rightarrow> False | Some v \<Rightarrow> c = v)"

definition MessageAuthentications_MarshalTexts :: "uint8 list \<Rightarrow> gerr + string list" where
  "MessageAuthentications_MarshalTexts c = marshal_texts MessageAuthentication_MarshalText 0 c"

definition MessageAuthentications_MarshalText :: "uint8 list \<Rightarrow> gerr + string" where
  "MessageAuthentications_MarshalText c =
     (case MessageAuthentications_MarshalTexts c of
        Inl err \<Rightarrow> Inl err
      | Inr texts \<Rightarrow> Inr (join_with (CHR '','') texts))"

definition MessageAuthentications_Validate :: "uint8 list \<Rightarrow> gerr option" where
  "MessageAuthentications_Validate c = (case MessageAuthentications_MarshalText c of Inl err \<Rightarrow> Some err | Inr _ \<Rightarrow> None)"

definition MessageAuthentications_UnmarshalText :: "uint8 list \<Rightarrow> string \<Rightarrow> gerr option \<times> uint8 list" where
  "MessageAuthentications_UnmarshalText c text =
     unmarshal_texts MessageAuthentication_UnmarshalText c (split_on (CHR '','') text)"

definition MessageAuthentications_isEqualTo :: "uint8 list \<Rightarrow> uint8 list option \<Rightarrow> bool" where
  "MessageAuthentications_isEqualTo c other =
     (case other of
        None \<Rightarrow> False
      | Some os \<Rightarrow>
          if length c \<noteq> length os then False else equal_elems MessageAuthentication_isEqualTo c os)"

definition MessageAuthentication_Set :: "string \<Rightarrow> gerr + uint8" where
  "MessageAuthentication_Set text = MessageAuthentication_UnmarshalText text"

definition MessageAuthentication_IsEqualTo :: "uint8 \<Rightarrow> uint8 any \<Rightarrow> bool" where
  "MessageAuthentication_IsEqualTo c other =
     (case other of
        AnyNil \<Rightarrow> False
      | AnyValue v \<Rightarrow> MessageAuthentication_isEqualTo c (Some v)
      | AnyPointer v \<Rightarrow> MessageAuthentication_isEqualTo c v
      | AnyOther \<Rightarrow> False)"

definition MessageAuthentications_IsEmpty :: "uint8 list \<Rightarrow> bool" where
  "MessageAuthentications_IsEmpty c = (length c = 0)"

definition MessageAuthentications_String :: "uint8 list \<Rightarrow> string" where
  "MessageAuthentications_String c =
     (case MessageAuthentications_MarshalText c of
        Inl err \<Rightarrow> ''illegal-ssh-message-authentications: '' @ codec_error_text err
      | Inr v \<Rightarrow> v)"

definition MessageAuthentications_Set :: "uint8 list \<Rightarrow> string \<Rightarrow> gerr option \<times> uint8 list" where
  "MessageAuthentications_Set c text = MessageAuthentications_UnmarshalText c text"

definition MessageAuthentications_IsEqualTo :: "uint8 list \<Rightarrow> uint8 list any \<Rightarrow> bool" where
  "MessageAuthentications_IsEqualTo c other =
     (case other of
        AnyNil \<Rightarrow> False
      | AnyValue v \<Rightarrow> MessageAuthentications_isEqualTo c (Some v)
      | AnyPointer v \<Rightarrow> MessageAuthentications_isEqualTo c v
      | AnyOther \<Rightarrow> False)"

definition MessageAuthentications_Contains :: "uint8 list \<Rightarrow> uint8 \<Rightarrow> bool" where
  "MessageAuthentications_Contains c v = List.member c v"

interpretation messageauthentication_names: name_table messageAuthentication2Name
  by unfold_locales (simp_all add: messageAuthentication2Name_def)

lemma MessageAuthentication_MarshalText_Inr: "MessageAuthentication_MarshalText c = Inr t \<longleftrightarrow> map_of messageAuthentication2Name c = Some t"
  by (auto simp: MessageAuthentication_MarshalText_def split: option.splits)

lemma MessageAuthentication_UnmarshalText_Inr: "MessageAuthentication_UnmarshalText t = Inr c \<longleftrightarrow> map_of name2MessageAuthentication t = Some c"
  by (auto simp: MessageAuthentication_UnmarshalText_def split: option.splits)

interpretation messageauthentication_codec: text_codec MessageAuthentication_MarshalText MessageAuthentication_UnmarshalText
proof unfold_locales
  show "MessageAuthentication_UnmarshalText t = Inr c \<longleftrightarrow> MessageAuthentication_MarshalText c = Inr t" for t c
    unfolding MessageAuthentication_MarshalText_Inr MessageAuthentication_UnmarshalText_Inr name2MessageAuthentication_def
    by (rule messageauthentication_names.inverse_tables)
  show "CHR '','' \<notin> set t" if "MessageAuthentication_MarshalText c = Inr t" for c t
  proof -
    have "t \<in> snd ` set messageAuthentication2Name"
      using that unfolding MessageAuthentication_MarshalText_Inr messageauthentication_names.lookup_name_iff by force
    moreover have "\<forall>n \<in> snd ` set messageAuthentication2Name. CHR '','' \<notin> set n"
      by (simp add: messageAuthentication2Name_def)
    ultimately show ?thesis by blast
  qed
qed

section \<open>Properties\<close>

lemmas marshal_defs =
  Ciphers_MarshalText_def Ciphers_MarshalTexts_def
  KeyExchanges_MarshalText_def KeyExchanges_MarshalTexts_def
  MessageAuthentications_MarshalText_def MessageAuthentications_MarshalTexts_def

lemmas unmarshal_defs =
  Ciphers_UnmarshalText_def KeyExchanges_UnmarshalText_def MessageAuthentications_UnmarshalText_def

lemma Ciphers_round_trip:
  "Ciphers_MarshalText cs = Inr t \<Longrightarrow> cs \<noteq> [] \<Longrightarrow> Ciphers_UnmarshalText old t = (None, old @ cs)"
  by (auto simp: marshal_defs unmarshal_defs cipher_codec.list_round_trip split: sum.splits)

lemma KeyExchanges_round_trip:
  "KeyExchanges_MarshalText cs = Inr t \<Longrightarrow> cs \<noteq> [] \<Longrightarrow>
   KeyExchanges_UnmarshalText old t = (None, old @ cs)"
  by (auto simp: marshal_defs unmarshal_defs keyexchange_codec.list_round_trip split: sum.splits)

lemma MessageAuthentications_round_trip:
  "MessageAuthentications_MarshalText cs = Inr t \<Longrightarrow> cs \<noteq> [] \<Longrightarrow>
   MessageAuthentications_UnmarshalText old t = (None, old @ cs)"
  by (auto simp: marshal_defs unmarshal_defs messageauthentication_codec.list_round_trip split: sum.splits)

lemma Ciphers_parse_print:
  "unmarshal_texts Cipher_UnmarshalText [] (split_on (CHR '','') t) = (None, cs) \<Longrightarrow>
   Ciphers_MarshalText cs = Inr t"
  using cipher_codec.list_parse_print [of t cs] by (auto simp: marshal_defs unmarshal_defs)

lemma KeyExchanges_parse_print:
  "unmarshal_texts KeyExchange_UnmarshalText [] (split_on (CHR '','') t) = (None, cs) \<Longrightarrow>
   KeyExchanges_MarshalText cs = Inr t"
  using keyexchange_codec.list_parse_print [of t cs] by (auto simp: marshal_defs unmarshal_defs)

lemma MessageAuthentications_parse_print:
  "unmarshal_texts MessageAuthentication_UnmarshalText [] (split_on (CHR '','') t) = (None, cs) \<Longrightarrow>
   MessageAuthentications_MarshalText cs = Inr t"
  using messageauthentication_codec.list_parse_print [of t cs] by (auto simp: marshal_defs unmarshal_defs)

lemma Ciphers_isEqualTo_iff: "Ciphers_isEqualTo c o' \<longleftrightarrow> o' = Some c"
  by (auto simp: Ciphers_isEqualTo_def Cipher_isEqualTo_def equal_elems_iff split: option.splits)

lemma KeyExchanges_isEqualTo_iff: "KeyExchanges_isEqualTo c o' \<longleftrightarrow> o' = Some c"
  by (auto simp: KeyExchanges_isEqualTo_def KeyExchange_isEqualTo_def equal_elems_iff split: option.splits)

lemma MessageAuthentications_isEqualTo_iff: "MessageAuthentications_isEqualTo c o' \<longleftrightarrow> o' = Some c"
  by (auto simp: MessageAuthentications_isEqualTo_def MessageAuthentication_isEqualTo_def
      equal_elems_iff split: option.splits)

text \<open>
  C40. Text round trip of the algorithm lists. A nonempty list of ciphers, key exchanges or
  message authentications that \<open>MarshalText\<close> accepts is read back by \<open>UnmarshalText\<close> exactly, appended
  to what the receiver held, without an error.
\<close>

theorem algorithm_lists_round_trip:
  assumes "cs \<noteq> []"
  shows "(Ciphers_MarshalText cs = Inr t \<longrightarrow> Ciphers_UnmarshalText old t = (None, old @ cs))
    \<and> (KeyExchanges_MarshalText cs = Inr t \<longrightarrow> KeyExchanges_UnmarshalText old t = (None, old @ cs))
    \<and> (MessageAuthentications_MarshalText cs = Inr t \<longrightarrow>
         MessageAuthentications_UnmarshalText old t = (None, old @ cs))"
  using assms by (simp add: Ciphers_round_trip KeyExchanges_round_trip MessageAuthentications_round_trip)

theorem algorithm_lists_round_trip_witness:
  "Ciphers_UnmarshalText [CipherArcfour] ''aes256-ctr,aes128-gcm@openssh.com''
     = (None, [CipherArcfour, CipherAes256Ctr, CipherAes128Gcm])"
  using algorithm_lists_round_trip
    [of "[CipherAes256Ctr, CipherAes128Gcm]" "''aes256-ctr,aes128-gcm@openssh.com''" "[CipherArcfour]"]
  by (simp add: marshal_defs Cipher_MarshalText_def cipher2Name_def)

text \<open>
  \<open>UnmarshalText\<close> accepts nothing but canonical text: when it reads a text into an empty list,
  \<open>MarshalText\<close> of the result is that very text, the list is not empty, and \<open>isEqualTo\<close> tells it
  from every other list. In particular the empty text, which \<open>MarshalText\<close> gives for an empty
  list, is refused.
\<close>

theorem algorithm_lists_canonical:
  "(Ciphers_UnmarshalText [] t = (None, cs) \<longrightarrow>
      Ciphers_MarshalText cs = Inr t \<and> cs \<noteq> [] \<and> (Ciphers_isEqualTo cs (Some ds) \<longleftrightarrow> cs = ds))
   \<and> (KeyExchanges_UnmarshalText [] t = (None, cs) \<longrightarrow>
      KeyExchanges_MarshalText cs = Inr t \<and> cs \<noteq> [] \<and> (KeyExchanges_isEqualTo cs (Some ds) \<longleftrightarrow> cs = ds))
   \<and> (MessageAuthentications_UnmarshalText [] t = (None, cs) \<longrightarrow>
      MessageAuthentications_MarshalText cs = Inr t \<and> cs \<noteq> []
      \<and> (MessageAuthentications_isEqualTo cs (Some ds) \<longleftrightarrow> cs = ds))
   \<and> Ciphers_MarshalText [] = Inr [] \<and> fst (Ciphers_UnmarshalText [] []) \<noteq> None"
proof (intro conjI)
  show "Ciphers_MarshalText [] = Inr []"
    by (simp add: marshal_defs)
  show "fst (Ciphers_UnmarshalText [] []) \<noteq> None"
    by (simp add: unmarshal_defs Cipher_UnmarshalText_def name2Cipher_def cipher2Name_def)
qed (use unmarshal_texts_nonempty in \<open>auto simp: Ciphers_parse_print KeyExchanges_parse_print
      MessageAuthentications_parse_print Ciphers_isEqualTo_iff KeyExchanges_isEqualTo_iff
      MessageAuthentications_isEqualTo_iff unmarshal_defs\<close>)

theorem algorithm_lists_canonical_witness:
  "Ciphers_UnmarshalText [] ''aes256-ctr'' = (None, [CipherAes256Ctr])
   \<and> Ciphers_MarshalText [CipherAes256Ctr] = Inr ''aes256-ctr''"
proof -
  have u: "Ciphers_UnmarshalText [] ''aes256-ctr'' = (None, [CipherAes256Ctr])"
    by (simp add: unmarshal_defs Cipher_UnmarshalText_def name2Cipher_def cipher2Name_def)
  with algorithm_lists_canonical [of "''aes256-ctr''" "[CipherAes256Ctr]"] show ?thesis by blast
qed

end
