(* ===== verification/Codec.thy ===== *)
theory Codec
  imports Prelude
begin

text \<open>
  \<open>codec-util.go\<close>: the parsers of the payloads of \<open>pty-req\<close> and \<open>window-change\<close> (RFC 4254,
  sections 6.2, 6.7 and 8), against the encoders the RFC prescribes. A parser with an \<open>ok\<close>
  result returns an option. The width of Go's \<open>int\<close>, 32 or 64 bits by platform, is the
  parameter \<open>intw\<close> of the functions that convert to it.
\<close>

unbundle bit_operations_syntax

record Window =
  Width :: int
  Height :: int
  WidthPixels :: int
  HeightPixels :: int

record Pty =
  Term :: string
  PtyWindow :: Window
  TerminalModes :: "uint8 \<rightharpoonup> uint32"

section \<open>The parsers\<close>

text \<open>\<open>binary.BigEndian.Uint32\<close> reads the first four bytes; the callers check the length.\<close>

fun be_uint32 :: "bytes \<Rightarrow> uint32" where
  "be_uint32 (b0 # b1 # b2 # b3 # _) =
     ucast b3 OR push_bit 8 (ucast b2) OR push_bit 16 (ucast b1) OR push_bit 24 (ucast b0)"
| "be_uint32 _ = 0"

definition parseUint32 :: "bytes \<Rightarrow> (uint32 \<times> bytes) option" where
  "parseUint32 inp = (if length inp < 4 then None else Some (be_uint32 inp, drop 4 inp))"

definition parseString :: "bytes \<Rightarrow> (string \<times> bytes) option" where
  "parseString inp =
     (if length inp < 4 then None
      else let len = be_uint32 inp; rest = drop 4 inp
           in if length rest < unat len then None
              else Some (string_of_bytes (take (unat len) rest), drop (unat len) rest))"

definition uint32ToInt :: "nat \<Rightarrow> uint32 \<Rightarrow> int \<times> bool" where
  "uint32ToInt intw value =
     (let result = signed_take_bit (intw - 1) (uint value)
      in (result, 0 \<le> result \<and> (word_of_int result :: uint32) = value))"

text \<open>The loop of \<open>parseWindow\<close> over the entries of \<open>values\<close>.\<close>

fun parse_values :: "nat \<Rightarrow> nat \<Rightarrow> bytes \<Rightarrow> (int list \<times> bytes) option" where
  "parse_values intw 0 s = Some ([], s)"
| "parse_values intw (Suc n) s =
     (case parseUint32 s of
        None \<Rightarrow> None
      | Some (value, s') \<Rightarrow>
          (case uint32ToInt intw value of
             (v, ok) \<Rightarrow>
               if \<not> ok then None
               else (case parse_values intw n s' of
                       None \<Rightarrow> None
                     | Some (vs, rest) \<Rightarrow> Some (v # vs, rest))))"

definition window_of :: "int list \<Rightarrow> Window" where
  "window_of vs = \<lparr>Width = vs ! 0, Height = vs ! 1, WidthPixels = vs ! 2, HeightPixels = vs ! 3\<rparr>"

definition parseWindow :: "nat \<Rightarrow> bytes \<Rightarrow> (Window \<times> bytes) option" where
  "parseWindow intw s =
     (case parse_values intw 4 s of
        None \<Rightarrow> None
      | Some (values, rest) \<Rightarrow> Some (window_of values, rest))"

definition parseWinchRequest :: "nat \<Rightarrow> bytes \<Rightarrow> Window option" where
  "parseWinchRequest intw s =
     (case parseWindow intw s of
        None \<Rightarrow> None
      | Some (win, rest) \<Rightarrow> if length rest = 0 then Some win else None)"

fun parse_modes_loop :: "(uint8 \<rightharpoonup> uint32) \<Rightarrow> bytes \<Rightarrow> (uint8 \<rightharpoonup> uint32) option" where
  "parse_modes_loop modes [] = None"
| "parse_modes_loop modes (opcode # inp) =
     (if opcode = 0 then (if length inp \<noteq> 0 then None else Some modes)
      else if 160 \<le> opcode then Some modes
      else if length inp < 4 then None
      else parse_modes_loop (modes(opcode \<mapsto> be_uint32 inp)) (drop 4 inp))"

definition parseTerminalModes :: "bytes \<Rightarrow> (uint8 \<rightharpoonup> uint32) option" where
  "parseTerminalModes inp = parse_modes_loop Map.empty inp"

definition parsePtyRequest :: "nat \<Rightarrow> bytes \<Rightarrow> Pty option" where
  "parsePtyRequest intw s =
     (case parseString s of
        None \<Rightarrow> None
      | Some (term, s1) \<Rightarrow>
          (case parseWindow intw s1 of
             None \<Rightarrow> None
           | Some (window, s2) \<Rightarrow>
               (case parseString s2 of
                  None \<Rightarrow> None
                | Some (encodedModes, rest) \<Rightarrow>
                    if length rest \<noteq> 0 then None
                    else (case parseTerminalModes (bytes_of_string encodedModes) of
                            None \<Rightarrow> None
                          | Some terminalModes \<Rightarrow>
                              Some \<lparr>Term = term, PtyWindow = window, TerminalModes = terminalModes\<rparr>))))"

section \<open>The encoders of RFC 4254\<close>

definition put_uint32 :: "uint32 \<Rightarrow> bytes" where
  "put_uint32 v = [ucast (drop_bit 24 v), ucast (drop_bit 16 v), ucast (drop_bit 8 v), ucast v]"

definition put_string :: "string \<Rightarrow> bytes" where
  "put_string s = put_uint32 (word_of_nat (length s)) @ bytes_of_string s"

definition put_window :: "Window \<Rightarrow> bytes" where
  "put_window w = put_uint32 (word_of_int (Width w)) @ put_uint32 (word_of_int (Height w))
     @ put_uint32 (word_of_int (WidthPixels w)) @ put_uint32 (word_of_int (HeightPixels w))"

fun put_modes :: "(uint8 \<times> uint32) list \<Rightarrow> bytes" where
  "put_modes [] = []"
| "put_modes ((opc, v) # ms) = opc # put_uint32 v @ put_modes ms"

text \<open>What a platform's \<open>int\<close> can hold of a \<open>uint32\<close>, and windows made of such values.\<close>

definition fits_int :: "nat \<Rightarrow> int \<Rightarrow> bool" where
  "fits_int intw i \<longleftrightarrow> 0 \<le> i \<and> i < 2 ^ min 32 (intw - 1)"

definition fits_window :: "nat \<Rightarrow> Window \<Rightarrow> bool" where
  "fits_window intw w \<longleftrightarrow> fits_int intw (Width w) \<and> fits_int intw (Height w)
     \<and> fits_int intw (WidthPixels w) \<and> fits_int intw (HeightPixels w)"

definition short_string :: "string \<Rightarrow> bool" where
  "short_string s \<longleftrightarrow> length s < 2 ^ 32"

section \<open>Numbers\<close>

lemma length_put_uint32 [simp]: "length (put_uint32 v) = 4"
  by (simp add: put_uint32_def)

lemma be_uint32_put [simp]: "be_uint32 (put_uint32 v @ rest) = v"
proof -
  have "bit (be_uint32 (put_uint32 v @ rest)) n = bit v n" if "n < 32" for n
  proof -
    consider "n < 8" | "8 \<le> n" "n < 16" | "16 \<le> n" "n < 24" | "24 \<le> n" by linarith
    then show ?thesis
      using that by cases (auto simp: put_uint32_def bit_simps)
  qed
  then show ?thesis by (intro bit_word_eqI) simp
qed

lemma put_be_uint32:
  assumes "4 \<le> length inp"
  shows "put_uint32 (be_uint32 inp) = take 4 inp"
proof -
  obtain b0 b1 b2 b3 rest where inp: "inp = b0 # b1 # b2 # b3 # rest"
    using assms by (auto simp: numeral_eq_Suc Suc_le_length_iff)
  show ?thesis
    by (simp add: inp put_uint32_def, intro conjI; rule bit_word_eqI)
      (auto simp: bit_simps dest: bit_imp_le_length)
qed

lemma uint32ToInt_ok:
  assumes "0 < intw"
  shows "uint32ToInt intw v = (i, True) \<longleftrightarrow> fits_int intw i \<and> v = word_of_int i"
proof -
  have sv: "signed_take_bit (intw - 1) (uint v) = uint v"
    if "uint v < 2 ^ (intw - 1)"
    using that by (intro signed_take_bit_int_eq_self) (auto intro: order_trans [of _ 0])
  have lt32: "uint v < 2 ^ 32"
    using uint_lt2p [of v] by simp
  show ?thesis
  proof
    assume a: "uint32ToInt intw v = (i, True)"
    then have i: "i = signed_take_bit (intw - 1) (uint v)" "0 \<le> i" "word_of_int i = v"
      by (auto simp: uint32ToInt_def Let_def)
    have up: "i < 2 ^ (intw - 1)"
      by (simp add: i(1) signed_take_bit_int_less_exp)
    have "i < 2 ^ 32"
    proof (cases "intw - 1 \<le> 32")
      case True
      then have "(2::int) ^ (intw - 1) \<le> 2 ^ 32" by (intro power_increasing) auto
      with up show ?thesis by linarith
    next
      case False
      then have "(2::int) ^ 32 \<le> 2 ^ (intw - 1)" by (intro power_increasing) auto
      with lt32 have "uint v < 2 ^ (intw - 1)" by linarith
      with sv i(1) lt32 show ?thesis by simp
    qed
    with up i show "fits_int intw i \<and> v = word_of_int i"
      by (auto simp: fits_int_def min_def)
  next
    assume a: "fits_int intw i \<and> v = word_of_int i"
    then have "0 \<le> i" "i < 2 ^ min 32 (intw - 1)" by (auto simp: fits_int_def)
    moreover have "(2::int) ^ min 32 (intw - 1) \<le> 2 ^ 32" "(2::int) ^ min 32 (intw - 1) \<le> 2 ^ (intw - 1)"
      by (intro power_increasing; simp)+
    ultimately have "0 \<le> i" "i < 2 ^ 32" "i < 2 ^ (intw - 1)" by linarith+
    moreover from this a have "uint v = i"
      by (simp add: uint_word_of_int_eq take_bit_int_eq_self)
    ultimately show "uint32ToInt intw v = (i, True)"
      using a sv by (simp add: uint32ToInt_def Let_def)
  qed
qed

section \<open>The parsers invert the encoders\<close>

lemma parseUint32_iff: "parseUint32 s = Some (v, r) \<longleftrightarrow> s = put_uint32 v @ r"
proof
  assume "parseUint32 s = Some (v, r)"
  then have "4 \<le> length s" "v = be_uint32 s" "r = drop 4 s"
    by (auto simp: parseUint32_def split: if_splits)
  then show "s = put_uint32 v @ r" by (simp add: put_be_uint32)
qed (simp add: parseUint32_def)

lemma parseString_iff: "parseString s = Some (t, r) \<longleftrightarrow> short_string t \<and> s = put_string t @ r"
proof
  assume a: "parseString s = Some (t, r)"
  define n where "n = unat (be_uint32 s)"
  have len: "4 \<le> length s" "n \<le> length (drop 4 s)"
    and t: "t = string_of_bytes (take n (drop 4 s))" and r: "r = drop n (drop 4 s)"
    using a by (auto simp: parseString_def Let_def n_def split: if_splits)
  have "length t = n" using len t by simp
  moreover have "n < 2 ^ 32" using unsigned_less [of "be_uint32 s"] by (simp add: n_def)
  moreover have "put_uint32 (word_of_nat n) = take 4 s"
    using len by (simp add: n_def put_be_uint32)
  moreover have "s = take 4 s @ take n (drop 4 s) @ r"
    unfolding r append_take_drop_id ..
  ultimately show "short_string t \<and> s = put_string t @ r"
    using t by (simp add: short_string_def put_string_def)
next
  assume a: "short_string t \<and> s = put_string t @ r"
  then have "unat (word_of_nat (length t) :: uint32) = length t"
    by (simp add: short_string_def unat_of_nat)
  with a show "parseString s = Some (t, r)"
    by (simp add: parseString_def put_string_def Let_def)
qed

lemma parse_values_iff:
  assumes "0 < intw"
  shows "parse_values intw n s = Some (vs, r) \<longleftrightarrow>
    length vs = n \<and> (\<forall>v \<in> set vs. fits_int intw v) \<and>
    s = concat (map (\<lambda>v. put_uint32 (word_of_int v)) vs) @ r"
proof (induction n arbitrary: s vs)
  case 0
  then show ?case by auto
next
  case (Suc n)
  show ?case
  proof
    assume a: "parse_values intw (Suc n) s = Some (vs, r)"
    then obtain w s' where w: "parseUint32 s = Some (w, s')"
      by (auto split: option.splits)
    obtain v ok where ok: "uint32ToInt intw w = (v, ok)" by fastforce
    from a w ok obtain vs' where ok': "ok" and vs': "parse_values intw n s' = Some (vs', r)" "vs = v # vs'"
      by (auto split: if_splits option.splits)
    from ok ok' have "fits_int intw v" "w = word_of_int v"
      using uint32ToInt_ok [OF assms, of w v] by auto
    with w vs' Suc.IH [of s' vs'] show "length vs = Suc n \<and> (\<forall>v \<in> set vs. fits_int intw v) \<and>
        s = concat (map (\<lambda>v. put_uint32 (word_of_int v)) vs) @ r"
      by (simp add: parseUint32_iff)
  next
    assume a: "length vs = Suc n \<and> (\<forall>v \<in> set vs. fits_int intw v) \<and>
        s = concat (map (\<lambda>v. put_uint32 (word_of_int v)) vs) @ r"
    then obtain v vs' where vs: "vs = v # vs'" by (cases vs) auto
    define s' where "s' = concat (map (\<lambda>v. put_uint32 (word_of_int v)) vs') @ r"
    have "parseUint32 s = Some (word_of_int v, s')"
      using a vs by (simp add: parseUint32_iff s'_def)
    moreover have "uint32ToInt intw (word_of_int v) = (v, True)"
      using a vs uint32ToInt_ok [OF assms] by auto
    moreover have "parse_values intw n s' = Some (vs', r)"
      using a vs by (simp add: Suc.IH s'_def)
    ultimately show "parse_values intw (Suc n) s = Some (vs, r)"
      by (simp add: vs)
  qed
qed

lemma parseWindow_iff:
  assumes "0 < intw"
  shows "parseWindow intw s = Some (w, r) \<longleftrightarrow> fits_window intw w \<and> s = put_window w @ r"
proof
  assume "parseWindow intw s = Some (w, r)"
  then obtain vs where vs: "parse_values intw 4 s = Some (vs, r)" and w: "w = window_of vs"
    by (auto simp: parseWindow_def split: option.splits)
  from vs have "length vs = 4" by (simp add: parse_values_iff [OF assms])
  then obtain a b c d where "vs = [a, b, c, d]"
    by (auto simp: numeral_eq_Suc length_Suc_conv)
  with vs w show "fits_window intw w \<and> s = put_window w @ r"
    by (simp add: parse_values_iff [OF assms] fits_window_def put_window_def window_of_def)
next
  assume "fits_window intw w \<and> s = put_window w @ r"
  then have "parse_values intw 4 s = Some ([Width w, Height w, WidthPixels w, HeightPixels w], r)"
    by (simp add: parse_values_iff [OF assms] fits_window_def put_window_def)
  then show "parseWindow intw s = Some (w, r)"
    by (simp add: parseWindow_def window_of_def)
qed

text \<open>Opcodes 1 to 159 carry a value; 0 ends the list; 160 and above stop the parser.\<close>

definition valid_modes :: "(uint8 \<times> uint32) list \<Rightarrow> bool" where
  "valid_modes ms \<longleftrightarrow> (\<forall>(opc, v) \<in> set ms. opc \<noteq> 0 \<and> opc < 160)"

definition modes_end :: "bytes \<Rightarrow> bool" where
  "modes_end tail \<longleftrightarrow> tail = [0] \<or> (\<exists>opc junk. tail = opc # junk \<and> 160 \<le> opc)"

lemma parse_modes_encoded:
  "valid_modes ms \<Longrightarrow> modes_end tail \<Longrightarrow>
   parse_modes_loop m (put_modes ms @ tail) = Some (m ++ map_of (rev ms))"
proof (induction ms arbitrary: m)
  case Nil
  then show ?case by (auto simp: modes_end_def)
next
  case (Cons p ms)
  obtain opc v where p: "p = (opc, v)" by fastforce
  from Cons.prems p have o: "opc \<noteq> 0" "\<not> 160 \<le> opc" and ms: "valid_modes ms"
    by (auto simp: valid_modes_def)
  have "parse_modes_loop m (put_modes (p # ms) @ tail)
      = parse_modes_loop (m(opc \<mapsto> v)) (put_modes ms @ tail)"
    using o by (simp add: p)
  also have "\<dots> = Some (m(opc \<mapsto> v) ++ map_of (rev ms))"
    using Cons.IH [OF ms] Cons.prems(2) by simp
  finally show ?case by (simp add: p)
qed

lemma parse_modes_sound:
  "parse_modes_loop m s = Some m' \<Longrightarrow>
   \<exists>ms tail. valid_modes ms \<and> modes_end tail \<and> s = put_modes ms @ tail \<and> m' = m ++ map_of (rev ms)"
proof (induction m s rule: parse_modes_loop.induct)
  case (1 modes)
  then show ?case by simp
next
  case (2 modes opcode inp)
  consider "opcode = 0" | "opcode \<noteq> 0" "160 \<le> opcode" | "opcode \<noteq> 0" "\<not> 160 \<le> opcode" by blast
  then show ?case
  proof cases
    case 1
    with "2.prems" show ?thesis
      by (intro exI [of _ "[]"] exI [of _ "[0]"]) (auto simp: valid_modes_def modes_end_def split: if_splits)
  next
    case 2
    with "2.prems" show ?thesis
      by (intro exI [of _ "[]"] exI [of _ "opcode # inp"]) (auto simp: valid_modes_def modes_end_def)
  next
    case 3
    with "2.prems" have len: "4 \<le> length inp"
      and rest: "parse_modes_loop (modes(opcode \<mapsto> be_uint32 inp)) (drop 4 inp) = Some m'"
      by (auto split: if_splits)
    from len have "\<not> length inp < 4" by simp
    from "2.IH" [OF 3 this rest] obtain ms tail
      where ih: "valid_modes ms" "modes_end tail" "drop 4 inp = put_modes ms @ tail"
        "m' = modes(opcode \<mapsto> be_uint32 inp) ++ map_of (rev ms)" by blast
    have "inp = put_uint32 (be_uint32 inp) @ put_modes ms @ tail"
      using len ih(3) by (metis append_take_drop_id put_be_uint32)
    with ih 3 show ?thesis
      by (intro exI [of _ "(opcode, be_uint32 inp) # ms"] exI [of _ tail])
        (auto simp: valid_modes_def)
  qed
qed

lemma parseTerminalModes_iff:
  "parseTerminalModes s = Some m \<longleftrightarrow>
   (\<exists>ms tail. valid_modes ms \<and> modes_end tail \<and> s = put_modes ms @ tail \<and> m = map_of (rev ms))"
  using parse_modes_sound [of Map.empty s m] parse_modes_encoded [where m = Map.empty]
  by (fastforce simp: parseTerminalModes_def)

lemma parsePtyRequest_iff:
  assumes "0 < intw"
  shows "parsePtyRequest intw s = Some p \<longleftrightarrow>
    (\<exists>modes. short_string (Term p) \<and> short_string modes \<and> fits_window intw (PtyWindow p)
      \<and> s = put_string (Term p) @ put_window (PtyWindow p) @ put_string modes
      \<and> parseTerminalModes (bytes_of_string modes) = Some (TerminalModes p))"
proof
  assume "parsePtyRequest intw s = Some p"
  then show "\<exists>modes. short_string (Term p) \<and> short_string modes \<and> fits_window intw (PtyWindow p)
      \<and> s = put_string (Term p) @ put_window (PtyWindow p) @ put_string modes
      \<and> parseTerminalModes (bytes_of_string modes) = Some (TerminalModes p)"
    by (auto simp: parsePtyRequest_def parseString_iff parseWindow_iff [OF assms]
        split: option.splits if_splits) blast
next
  assume "\<exists>modes. short_string (Term p) \<and> short_string modes \<and> fits_window intw (PtyWindow p)
      \<and> s = put_string (Term p) @ put_window (PtyWindow p) @ put_string modes
      \<and> parseTerminalModes (bytes_of_string modes) = Some (TerminalModes p)"
  then obtain modes where a: "short_string (Term p)" "short_string modes" "fits_window intw (PtyWindow p)"
      "s = put_string (Term p) @ put_window (PtyWindow p) @ put_string modes"
      "parseTerminalModes (bytes_of_string modes) = Some (TerminalModes p)" by blast
  then have "parseString s = Some (Term p, put_window (PtyWindow p) @ put_string modes)"
    "parseWindow intw (put_window (PtyWindow p) @ put_string modes) = Some (PtyWindow p, put_string modes)"
    "parseString (put_string modes) = Some (modes, [])"
    by (auto simp: parseString_iff parseWindow_iff [OF assms])
  with a show "parsePtyRequest intw s = Some p"
    by (simp add: parsePtyRequest_def)
qed

lemma parseWinchRequest_iff:
  assumes "0 < intw"
  shows "parseWinchRequest intw s = Some w \<longleftrightarrow> fits_window intw w \<and> s = put_window w"
  using parseWindow_iff [OF assms, of s w "[]"]
  by (auto simp: parseWinchRequest_def split: option.splits)

section \<open>Properties\<close>

text \<open>
  C38. The PTY request parser accepts exactly the encodings of RFC 4254. On a platform of any
  positive \<open>int\<close> width, \<open>parsePtyRequest\<close> returns a request if and only if the payload is the
  encoded terminal name, the four window sizes (each of which an \<open>int\<close> of the platform holds), and
  a string holding a list of (opcode, value) pairs with opcodes 1 to 159 closed by a final
  0 or stopped by an opcode from 160 up, with nothing after it. The request then has that
  name, that window, and for each opcode the last value given.
\<close>

theorem pty_request_exact:
  assumes "0 < intw"
  shows "parsePtyRequest intw s = Some p \<longleftrightarrow>
    (\<exists>ms tail modes. valid_modes ms \<and> modes_end tail
      \<and> bytes_of_string modes = put_modes ms @ tail
      \<and> short_string (Term p) \<and> short_string modes \<and> fits_window intw (PtyWindow p)
      \<and> s = put_string (Term p) @ put_window (PtyWindow p) @ put_string modes
      \<and> TerminalModes p = map_of (rev ms))"
  unfolding parsePtyRequest_iff [OF assms] parseTerminalModes_iff by blast

definition example_pty :: Pty where
  "example_pty = \<lparr>Term = ''xterm'', PtyWindow = \<lparr>Width = 80, Height = 24, WidthPixels = 0, HeightPixels = 0\<rparr>,
     TerminalModes = [1 \<mapsto> 3, 53 \<mapsto> 1]\<rparr>"

theorem pty_request_exact_witness:
  "parsePtyRequest 64 (put_string ''xterm'' @ put_window (PtyWindow example_pty)
     @ put_string (string_of_bytes (put_modes [(1, 3), (53, 1)] @ [0]))) = Some example_pty"
proof (subst pty_request_exact)
  show "0 < (64::nat)" by simp
  show "\<exists>ms tail modes. valid_modes ms \<and> modes_end tail
      \<and> bytes_of_string modes = put_modes ms @ tail
      \<and> short_string (Term example_pty) \<and> short_string modes \<and> fits_window 64 (PtyWindow example_pty)
      \<and> put_string ''xterm'' @ put_window (PtyWindow example_pty)
          @ put_string (string_of_bytes (put_modes [(1, 3), (53, 1)] @ [0]))
        = put_string (Term example_pty) @ put_window (PtyWindow example_pty) @ put_string modes
      \<and> TerminalModes example_pty = map_of (rev ms)"
    by (intro exI [of _ "[(1, 3), (53, 1)]"] exI [of _ "[0]"]
        exI [of _ "string_of_bytes (put_modes [(1, 3), (53, 1)] @ [0])"])
      (simp add: example_pty_def valid_modes_def modes_end_def short_string_def fits_window_def
        fits_int_def put_uint32_def fun_upd_twist)
qed

lemma winch_64_total: "(\<exists>w. parseWinchRequest 64 s = Some w) \<longleftrightarrow> length s = 16"
proof
  assume "\<exists>w. parseWinchRequest 64 s = Some w"
  then show "length s = 16" by (auto simp: parseWinchRequest_iff put_window_def)
next
  assume len: "length s = 16"
  define at where "at k = uint (be_uint32 (drop (4 * k) s))" for k
  define w where "w = \<lparr>Width = at 0, Height = at 1, WidthPixels = at 2, HeightPixels = at 3\<rparr>"
  have "fits_int 64 (at k)" for k
    using uint_lt2p [of "be_uint32 (drop (4 * k) s)"] by (simp add: fits_int_def at_def)
  moreover have "put_uint32 (word_of_int (at k)) = take 4 (drop (4 * k) s)" if "k < 4" for k
    using that len by (simp add: at_def put_be_uint32)
  ultimately have "fits_window 64 w \<and> s = put_window w"
    using len by (simp add: fits_window_def w_def put_window_def flip: append_assoc take_add)
  then show "\<exists>w. parseWinchRequest 64 s = Some w" by (auto simp: parseWinchRequest_iff)
qed

text \<open>
  The window-change parser accepts exactly four big-endian 32-bit numbers and nothing else,
  each of them within the platform's \<open>int\<close>; what it returns encodes back to the payload. On a
  32-bit platform the sizes from 2 to the 31 on are refused, on a 64-bit one none is: there
  every payload of 16 bytes, and no other, is a window.
\<close>

theorem winch_request_exact:
  assumes "intw = 32 \<or> intw = 64"
  shows "(parseWinchRequest intw s = Some w \<longleftrightarrow> fits_window intw w \<and> s = put_window w)
    \<and> ((\<exists>w. parseWinchRequest 64 s = Some w) \<longleftrightarrow> length s = 16)"
  using assms parseWinchRequest_iff [of intw s w] winch_64_total [of s] by auto

theorem winch_request_exact_witness:
  "parseWinchRequest 32 (put_window (PtyWindow example_pty)) = Some (PtyWindow example_pty)"
  using winch_request_exact [of 32 "put_window (PtyWindow example_pty)" "PtyWindow example_pty"]
  by (simp add: example_pty_def fits_window_def fits_int_def)

end
