(* ===== verification/Config.thy ===== *)
theory Config
  imports GoErrors
begin

text \<open>
  How the server reads its configuration (\<open>server.go\<close>): timeouts and limits with their defaults,
  the startup limits of OpenSSH's random early drop, the retry delay of an accept loop, and the
  deadlines of a connection (\<open>conn.go\<close>). A \<open>time.Duration\<close> is an \<open>int\<close> of nanoseconds; a
  \<open>time.Time\<close> is an \<open>int option\<close>, \<open>None\<close> being the zero time.
\<close>

type_synonym duration = int
type_synonym time = "int option"

abbreviation Millisecond :: duration where "Millisecond \<equiv> 1000000"
abbreviation Second :: duration where "Second \<equiv> 1000000000"
abbreviation Minute :: duration where "Minute \<equiv> 60 * Second"

section \<open>Defaults\<close>

definition DefaultHandshakeTimeout :: duration where "DefaultHandshakeTimeout = 2 * Minute"
definition DefaultIdleTimeout :: duration where "DefaultIdleTimeout = 0"
definition DefaultMaxTimeout :: duration where "DefaultMaxTimeout = 0"
definition DefaultSessionRequestTimeout :: duration where "DefaultSessionRequestTimeout = 30 * Second"
definition DefaultSubsystemReplyTimeout :: duration where "DefaultSubsystemReplyTimeout = 30 * Second"
definition DefaultMaxStartupsStart :: int where "DefaultMaxStartupsStart = 10"
definition DefaultMaxStartupsRate :: int where "DefaultMaxStartupsRate = 30"
definition DefaultMaxStartupsFull :: int where "DefaultMaxStartupsFull = 100"
definition DefaultMaxSessionsPerConnection :: int where "DefaultMaxSessionsPerConnection = 10"
definition DefaultMaxChannelsPerConnection :: int where "DefaultMaxChannelsPerConnection = 64"
definition DefaultMaxReverseForwardsPerConnection :: int where
  "DefaultMaxReverseForwardsPerConnection = 16"
definition DefaultMaxConnections :: int where "DefaultMaxConnections = 256"
definition DefaultMaxChannels :: int where "DefaultMaxChannels = 64"
definition DefaultMaxReverseForwards :: int where "DefaultMaxReverseForwards = 256"
definition defaultMaxConcurrentErrorHandlers :: nat where "defaultMaxConcurrentErrorHandlers = 64"

section \<open>Configured values\<close>

definition configuredDuration :: "duration option \<Rightarrow> duration \<Rightarrow> duration" where
  "configuredDuration value defaultValue =
     (case value of None \<Rightarrow> defaultValue | Some v \<Rightarrow> if v \<le> 0 then 0 else v)"

definition configuredLimit :: "int option \<Rightarrow> int \<Rightarrow> int" where
  "configuredLimit value defaultValue =
     (case value of None \<Rightarrow> defaultValue | Some v \<Rightarrow> if v \<le> 0 then 0 else v)"

text \<open>The loop of \<open>earliestDeadline\<close>, with its accumulator.\<close>

fun earliest_loop :: "time \<Rightarrow> time list \<Rightarrow> time" where
  "earliest_loop result [] = result"
| "earliest_loop result (deadline # deadlines) =
     earliest_loop
       (if deadline \<noteq> None \<and> (result = None \<or> the deadline < the result) then deadline else result)
       deadlines"

definition earliestDeadline :: "time list \<Rightarrow> time" where
  "earliestDeadline deadlines = earliest_loop None deadlines"

text \<open>The new value of \<open>*delay\<close>; \<open>waitForRetry\<close> then waits for it or for the end of the context.\<close>

definition retry_delay :: "duration \<Rightarrow> duration" where
  "retry_delay delay =
     (let d = (if delay = 0 then 5 * Millisecond else wrap64 (delay * 2))
      in if d > Second then Second else d)"

definition waitForRetry :: "bool \<Rightarrow> duration \<Rightarrow> bool \<times> duration" where
  "waitForRetry ctx_ends_first delay = (\<not> ctx_ends_first, retry_delay delay)"

section \<open>Startup limits\<close>

record MaxStartupsConfig =
  Start :: int
  Rate :: int
  Full :: int

definition effectiveMaxStartups :: "MaxStartupsConfig option \<Rightarrow> MaxStartupsConfig" where
  "effectiveMaxStartups maxStartups = (case maxStartups of
     None \<Rightarrow> \<lparr>Start = DefaultMaxStartupsStart, Rate = DefaultMaxStartupsRate, Full = DefaultMaxStartupsFull\<rparr>
   | Some result \<Rightarrow>
       if Full result \<le> 0 then \<lparr>Start = 0, Rate = 0, Full = 0\<rparr>
       else
         let r1 = (if Start result < 0 then result\<lparr>Start := 0\<rparr> else result);
             r2 = (if Start r1 > Full r1 then r1\<lparr>Start := Full r1\<rparr> else r1)
         in if Rate r2 < 0 then r2\<lparr>Rate := 0\<rparr>
            else if Rate r2 > 100 then r2\<lparr>Rate := 100\<rparr>
            else r2)"

definition maxStartupsDropRate :: "int \<Rightarrow> MaxStartupsConfig \<Rightarrow> int" where
  "maxStartupsDropRate current config =
     (if Full config \<le> 0 then 0
      else if current \<ge> Full config then 100
      else if current < Start config then 0
      else if Start config \<ge> Full config then 0
      else wrap64 (Rate config +
        go_div (wrap64 (wrap64 (100 - Rate config) * wrap64 (current - Start config)))
          (wrap64 (Full config - Start config))))"

section \<open>Connection deadlines (conn.go)\<close>

text \<open>
  The fields of \<open>serverConn\<close>; \<open>sc_deadline\<close> is the deadline last set on the wrapped connection and
  \<open>sc_canceled\<close> records a call of the canceler, if there is one.
\<close>

record serverConn =
  sc_idleTimeout :: duration
  sc_handshakeDeadline :: time
  sc_maxDeadline :: time
  sc_closeCanceler :: bool
  sc_deadline :: time
  sc_canceled :: bool
  sc_closed :: bool

definition updateDeadlineLocked :: "int \<Rightarrow> serverConn \<Rightarrow> serverConn" where
  "updateDeadlineLocked now c =
     (let deadline = sc_maxDeadline c;
          deadline = (if sc_handshakeDeadline c \<noteq> None \<and>
                         (deadline = None \<or> the (sc_handshakeDeadline c) < the deadline)
                      then sc_handshakeDeadline c else deadline);
          deadline = (if sc_idleTimeout c > 0 then
                        (let idleDeadline = now + sc_idleTimeout c
                         in if deadline = None \<or> idleDeadline < the deadline
                            then Some idleDeadline else deadline)
                      else deadline)
      in c\<lparr>sc_deadline := deadline\<rparr>)"

definition updateDeadline :: "int \<Rightarrow> serverConn \<Rightarrow> serverConn" where
  "updateDeadline now c = updateDeadlineLocked now c"

definition clearHandshakeDeadline :: "int \<Rightarrow> serverConn \<Rightarrow> serverConn" where
  "clearHandshakeDeadline now c = updateDeadlineLocked now (c\<lparr>sc_handshakeDeadline := None\<rparr>)"

text \<open>
  \<open>Read\<close> and \<open>Write\<close> have one body; \<open>err\<close> is what the wrapped connection returned. A network error
  anywhere in its tree calls the canceler.
\<close>

definition serverConn_io :: "int \<Rightarrow> gerr option \<Rightarrow> serverConn \<Rightarrow> serverConn" where
  "serverConn_io now err c =
     (let c1 = (if sc_idleTimeout c > 0 then updateDeadline now c else c)
      in if (case err of None \<Rightarrow> False | Some e \<Rightarrow> errors_As is_net_error e \<noteq> None) \<and> sc_closeCanceler c1
         then c1\<lparr>sc_canceled := True\<rparr> else c1)"

definition serverConn_Write :: "int \<Rightarrow> gerr option \<Rightarrow> serverConn \<Rightarrow> serverConn" where
  "serverConn_Write now err c = serverConn_io now err c"

definition serverConn_Read :: "int \<Rightarrow> gerr option \<Rightarrow> serverConn \<Rightarrow> serverConn" where
  "serverConn_Read now err c = serverConn_io now err c"

definition serverConn_Close :: "serverConn \<Rightarrow> serverConn" where
  "serverConn_Close c =
     (let c1 = c\<lparr>sc_closed := True\<rparr>
      in if sc_closeCanceler c1 then c1\<lparr>sc_canceled := True\<rparr> else c1)"

datatype conn_op = OpUpdate int | OpClearHandshake int | OpRead int "gerr option" | OpWrite int "gerr option" | OpClose

fun conn_step :: "conn_op \<Rightarrow> serverConn \<Rightarrow> serverConn" where
  "conn_step (OpUpdate now) c = updateDeadline now c"
| "conn_step (OpClearHandshake now) c = clearHandshakeDeadline now c"
| "conn_step (OpRead now err) c = serverConn_Read now err c"
| "conn_step (OpWrite now err) c = serverConn_Write now err c"
| "conn_step OpClose c = serverConn_Close c"

lemmas conn_defs = updateDeadlineLocked_def updateDeadline_def clearHandshakeDeadline_def
  serverConn_io_def serverConn_Write_def serverConn_Read_def serverConn_Close_def

section \<open>Facts\<close>

lemma configuredLimit_nonneg: "0 \<le> d \<Longrightarrow> 0 \<le> configuredLimit v d"
  by (auto simp: configuredLimit_def split: option.splits)

lemma configuredDuration_nonneg: "0 \<le> d \<Longrightarrow> 0 \<le> configuredDuration v d"
  by (auto simp: configuredDuration_def split: option.splits)

text \<open>The least of the deadlines that are set.\<close>

definition set_times :: "time list \<Rightarrow> int set" where
  "set_times ts = {t. Some t \<in> set ts}"

lemma earliest_loop_spec:
  "case earliest_loop r ts of
     None \<Rightarrow> r = None \<and> set_times ts = {}
   | Some t \<Rightarrow> (t \<in> set_times ts \<or> r = Some t) \<and> (\<forall>u \<in> set_times ts. t \<le> u) \<and> (\<forall>u. r = Some u \<longrightarrow> t \<le> u)"
proof (induction ts arbitrary: r)
  case Nil
  then show ?case by (auto simp: set_times_def split: option.splits)
next
  case (Cons d ts)
  define r' where "r' = (if d \<noteq> None \<and> (r = None \<or> the d < the r) then d else r)"
  have step: "earliest_loop r (d # ts) = earliest_loop r' ts" by (simp add: r'_def)
  have st: "set_times (d # ts) = set_times ts \<union> set_option d"
    by (auto simp: set_times_def)
  show ?case
    using Cons.IH [of r'] unfolding step st
    by (cases d; cases r) (auto simp: r'_def split: option.splits if_splits)
qed

lemma earliestDeadline_spec:
  "case earliestDeadline ts of
     None \<Rightarrow> set_times ts = {}
   | Some t \<Rightarrow> t \<in> set_times ts \<and> (\<forall>u \<in> set_times ts. t \<le> u)"
  using earliest_loop_spec [of None ts] by (auto simp: earliestDeadline_def split: option.splits)

lemma updateDeadlineLocked_earliest:
  "updateDeadlineLocked now c = c\<lparr>sc_deadline := earliestDeadline
     [sc_maxDeadline c, sc_handshakeDeadline c,
      if sc_idleTimeout c > 0 then Some (now + sc_idleTimeout c) else None]\<rparr>"
  by (cases "sc_maxDeadline c"; cases "sc_handshakeDeadline c")
    (auto simp: updateDeadlineLocked_def earliestDeadline_def Let_def)

lemma retry_delay_first: "retry_delay 0 = 5 * Millisecond"
  by (simp add: retry_delay_def)

lemma retry_delay_next:
  assumes "0 < d" "d \<le> Second"
  shows "retry_delay d = min Second (2 * d)"
  using assms by (simp add: retry_delay_def int64_def min_def mult.commute)

lemma effectiveMaxStartups_wf:
  fixes m
  defines "c \<equiv> effectiveMaxStartups m"
  shows "0 \<le> Start c \<and> Start c \<le> Full c \<and> 0 \<le> Rate c \<and> Rate c \<le> 100 \<and> 0 \<le> Full c"
  by (auto simp: c_def effectiveMaxStartups_def Let_def DefaultMaxStartupsStart_def
      DefaultMaxStartupsRate_def DefaultMaxStartupsFull_def split: option.splits)

text \<open>Below the bound the percentage is the exact quotient, without wrap-around.\<close>

lemma maxStartupsDropRate_between:
  assumes wf: "0 \<le> Start c" "Start c \<le> current" "current < Full c" "0 \<le> Rate c" "Rate c \<le> 100"
    and small: "Full c \<le> 2 ^ 56"
  shows "maxStartupsDropRate current c
    = Rate c + (100 - Rate c) * (current - Start c) div (Full c - Start c)"
    and "Rate c \<le> maxStartupsDropRate current c" and "maxStartupsDropRate current c \<le> 100"
proof -
  define x y where "x = current - Start c" and "y = Full c - Start c"
  have xy: "0 \<le> x" "x < y" "y \<le> 2 ^ 56" using wf small by (auto simp: x_def y_def)
  have r: "0 \<le> 100 - Rate c" "100 - Rate c \<le> 100" using wf by auto
  have prod: "0 \<le> (100 - Rate c) * x" "(100 - Rate c) * x \<le> (100 - Rate c) * y"
    using xy r by (auto intro: mult_left_mono)
  have "(100 - Rate c) * y \<le> 100 * 2 ^ 56"
    using xy r by (intro mult_mono) auto
  then have "int64 ((100 - Rate c) * x)" using prod by (simp add: int64_def)
  moreover have q0: "0 \<le> (100 - Rate c) * x div y"
    using prod xy by (simp add: pos_imp_zdiv_nonneg_iff)
  moreover have q1: "(100 - Rate c) * x div y \<le> 100 - Rate c"
  proof -
    have "(100 - Rate c) * x div y \<le> (100 - Rate c) * y div y"
      using prod xy by (intro zdiv_mono1) auto
    then show ?thesis using xy by simp
  qed
  moreover have "int64 (100 - Rate c)" "int64 x" "int64 y"
    using xy r by (auto simp: int64_def)
  moreover have "int64 (Rate c + (100 - Rate c) * x div y)"
    using q0 q1 wf by (simp add: int64_def)
  ultimately show eq: "maxStartupsDropRate current c
      = Rate c + (100 - Rate c) * (current - Start c) div (Full c - Start c)"
    using wf xy prod
    by (simp add: maxStartupsDropRate_def x_def [symmetric] y_def [symmetric] go_div_nonneg)
  show "Rate c \<le> maxStartupsDropRate current c" "maxStartupsDropRate current c \<le> 100"
    using q0 q1 unfolding eq x_def y_def by auto
qed

lemma maxStartupsDropRate_mono:
  assumes "0 \<le> Start c" "Start c \<le> Full c" "0 \<le> Rate c" "Rate c \<le> 100" "Full c \<le> 2 ^ 56"
    and "current \<le> current'"
  shows "maxStartupsDropRate current c \<le> maxStartupsDropRate current' c"
proof -
  consider "Full c \<le> 0" | "0 < Full c" "current < Start c" | "0 < Full c" "Full c \<le> current'"
    | "Start c \<le> current" "current' < Full c" by linarith
  then show ?thesis
  proof cases
    case 1
    then show ?thesis by (simp add: maxStartupsDropRate_def)
  next
    case 2
    then have "maxStartupsDropRate current c = 0"
      using assms by (simp add: maxStartupsDropRate_def)
    moreover have "0 \<le> maxStartupsDropRate current' c"
      using maxStartupsDropRate_between(2) [of c current'] assms 2
      by (cases "current' < Start c \<or> Full c \<le> current'") (auto simp: maxStartupsDropRate_def)
    ultimately show ?thesis by simp
  next
    case 3
    then have "maxStartupsDropRate current' c = 100" by (simp add: maxStartupsDropRate_def)
    moreover have "maxStartupsDropRate current c \<le> 100"
      using maxStartupsDropRate_between(3) [of c current] assms 3
      by (cases "current < Start c \<or> Full c \<le> current") (auto simp: maxStartupsDropRate_def)
    ultimately show ?thesis by simp
  next
    case 4
    then have "(100 - Rate c) * (current - Start c) div (Full c - Start c)
        \<le> (100 - Rate c) * (current' - Start c) div (Full c - Start c)"
      using assms by (intro zdiv_mono1 mult_left_mono) auto
    then show ?thesis
      using maxStartupsDropRate_between(1) [of c current] maxStartupsDropRate_between(1) [of c current'] assms 4
      by simp
  qed
qed

section \<open>Properties\<close>

text \<open>
  Random early drop. For every configuration of the startup limits, the effective drop rate
  is a percentage, it never falls as the number of unauthenticated connections grows, it is 0
  below \<open>Start\<close>, at least \<open>Rate\<close> from there on, and 100 from \<open>Full\<close> on, so \<open>Full\<close> is a hard limit. The
  64-bit product does not wrap while \<open>Full\<close> is at most 2 to the 56.
\<close>

theorem startup_drop_rate_sound:
  assumes "c = effectiveMaxStartups m" and "Full c \<le> 2 ^ 56" and "current \<le> current'"
  shows "0 \<le> maxStartupsDropRate current c \<and> maxStartupsDropRate current c \<le> 100
    \<and> maxStartupsDropRate current c \<le> maxStartupsDropRate current' c
    \<and> (0 < Full c \<and> Full c \<le> current \<longrightarrow> maxStartupsDropRate current c = 100)
    \<and> (current < Start c \<longrightarrow> maxStartupsDropRate current c = 0)
    \<and> (Start c \<le> current \<and> current < Full c \<longrightarrow> Rate c \<le> maxStartupsDropRate current c)"
proof -
  have wf: "0 \<le> Start c \<and> Start c \<le> Full c \<and> 0 \<le> Rate c \<and> Rate c \<le> 100 \<and> 0 \<le> Full c"
    unfolding assms(1) by (rule effectiveMaxStartups_wf)
  have low: "current < Start c \<Longrightarrow> maxStartupsDropRate current c = 0"
    using wf by (simp add: maxStartupsDropRate_def)
  have high: "0 < Full c \<Longrightarrow> Full c \<le> current \<Longrightarrow> maxStartupsDropRate current c = 100"
    by (simp add: maxStartupsDropRate_def)
  have off: "Full c \<le> 0 \<Longrightarrow> maxStartupsDropRate current c = 0"
    by (simp add: maxStartupsDropRate_def)
  note mid = maxStartupsDropRate_between(2,3) [of c current]
  have "0 \<le> maxStartupsDropRate current c \<and> maxStartupsDropRate current c \<le> 100"
    using low high off mid wf assms(2)
    by (cases "current < Start c"; cases "Full c \<le> current"; cases "Full c \<le> 0") auto
  moreover have "maxStartupsDropRate current c \<le> maxStartupsDropRate current' c"
    using maxStartupsDropRate_mono wf assms by blast
  ultimately show ?thesis using low high mid wf assms(2) by auto
qed

theorem startup_drop_rate_sound_witness:
  "maxStartupsDropRate 55 (effectiveMaxStartups None) = 65
   \<and> maxStartupsDropRate 55 (effectiveMaxStartups None) \<le> maxStartupsDropRate 100 (effectiveMaxStartups None)"
proof -
  have c: "effectiveMaxStartups None = \<lparr>Start = 10, Rate = 30, Full = 100\<rparr>"
    by (simp add: effectiveMaxStartups_def DefaultMaxStartupsStart_def DefaultMaxStartupsRate_def
        DefaultMaxStartupsFull_def)
  have "maxStartupsDropRate 55 (effectiveMaxStartups None) = 65"
    by (subst maxStartupsDropRate_between(1)) (simp_all add: c)
  moreover have "maxStartupsDropRate 55 (effectiveMaxStartups None)
      \<le> maxStartupsDropRate 100 (effectiveMaxStartups None)"
    using startup_drop_rate_sound [of "effectiveMaxStartups None" None 55 100] by (simp add: c)
  ultimately show ?thesis by simp
qed

text \<open>
  Retry backoff. The delays an accept loop waits after consecutive failures are 5 ms, 10 ms,
  20 ms and so on, doubling up to one second and staying there; the multiplication never wraps.
\<close>

theorem retry_backoff: "(retry_delay ^^ Suc n) 0 = min Second (5 * Millisecond * 2 ^ n)"
proof (induction n)
  case 0
  then show ?case by (simp add: retry_delay_first)
next
  case (Suc n)
  let ?d = "min Second (5 * Millisecond * 2 ^ n)"
  have "(retry_delay ^^ Suc (Suc n)) 0 = retry_delay ?d" using Suc by simp
  also have "\<dots> = min Second (2 * ?d)"
    by (rule retry_delay_next) auto
  finally show ?case by (auto simp: min_def)
qed

lemma conn_step_fields:
  "sc_maxDeadline (conn_step opr c) = sc_maxDeadline c
   \<and> sc_idleTimeout (conn_step opr c) = sc_idleTimeout c
   \<and> (sc_handshakeDeadline (conn_step opr c) = sc_handshakeDeadline c
      \<or> sc_handshakeDeadline (conn_step opr c) = None)"
  by (cases opr) (auto simp: conn_defs Let_def)

definition deadline_bounded :: "serverConn \<Rightarrow> bool" where
  "deadline_bounded c \<longleftrightarrow>
     (\<forall>b. sc_maxDeadline c = Some b \<or> sc_handshakeDeadline c = Some b \<longrightarrow>
        (\<exists>t. sc_deadline c = Some t \<and> t \<le> b))"

lemma update_bounded: "deadline_bounded (updateDeadlineLocked now c)"
  by (auto simp: deadline_bounded_def updateDeadlineLocked_def Let_def)

lemma conn_step_bounded: "deadline_bounded c \<Longrightarrow> deadline_bounded (conn_step opr c)"
proof (cases opr)
  case (OpRead now err)
  assume "deadline_bounded c"
  then show ?thesis
    using OpRead update_bounded [of now c]
    by (auto simp: serverConn_Read_def serverConn_io_def updateDeadline_def Let_def deadline_bounded_def)
next
  case (OpWrite now err)
  assume "deadline_bounded c"
  then show ?thesis
    using OpWrite update_bounded [of now c]
    by (auto simp: serverConn_Write_def serverConn_io_def updateDeadline_def Let_def deadline_bounded_def)
next
  case OpClose
  assume "deadline_bounded c"
  then show ?thesis using OpClose by (auto simp: serverConn_Close_def Let_def deadline_bounded_def)
qed (simp_all add: update_bounded updateDeadline_def clearHandshakeDeadline_def)

lemma conn_steps_bounded:
  "deadline_bounded c \<Longrightarrow> deadline_bounded (fold conn_step ops c)
     \<and> sc_maxDeadline (fold conn_step ops c) = sc_maxDeadline c"
  by (induction ops arbitrary: c) (auto simp: conn_step_bounded conn_step_fields)

text \<open>
  Connection deadlines. Each update sets the earliest of the absolute, handshake and idle
  deadlines that apply; and whatever reads, writes, updates and closes follow the first update,
  the deadline in force is never later than the absolute deadline of the connection, nor than
  the handshake deadline until the handshake is over.
\<close>

theorem connection_deadline_enforced:
  assumes "c' = fold conn_step ops (updateDeadline now c)"
  shows "(\<forall>m. sc_maxDeadline c = Some m \<longrightarrow> (\<exists>t. sc_deadline c' = Some t \<and> t \<le> m))
    \<and> (\<forall>h. sc_handshakeDeadline c' = Some h \<longrightarrow> (\<exists>t. sc_deadline c' = Some t \<and> t \<le> h))
    \<and> sc_deadline (updateDeadline now c') = earliestDeadline
        [sc_maxDeadline c', sc_handshakeDeadline c',
         if sc_idleTimeout c' > 0 then Some (now + sc_idleTimeout c') else None]"
proof -
  have "deadline_bounded (updateDeadline now c)"
    by (simp add: updateDeadline_def update_bounded)
  then have b: "deadline_bounded c'" and m: "sc_maxDeadline c' = sc_maxDeadline c"
    using conn_steps_bounded [of "updateDeadline now c" ops]
    by (simp_all add: assms updateDeadline_def updateDeadlineLocked_def Let_def)
  have "sc_deadline (updateDeadline now c') = earliestDeadline
        [sc_maxDeadline c', sc_handshakeDeadline c',
         if sc_idleTimeout c' > 0 then Some (now + sc_idleTimeout c') else None]"
    by (simp add: updateDeadline_def updateDeadlineLocked_earliest)
  with b m show ?thesis by (auto simp: deadline_bounded_def)
qed

definition example_conn :: serverConn where
  "example_conn = \<lparr>sc_idleTimeout = 30, sc_handshakeDeadline = Some 120, sc_maxDeadline = Some 100,
     sc_closeCanceler = True, sc_deadline = None, sc_canceled = False, sc_closed = False\<rparr>"

theorem connection_deadline_enforced_witness:
  "\<exists>t. sc_deadline (fold conn_step [OpRead 90 None, OpClearHandshake 95]
     (updateDeadline 10 example_conn)) = Some t \<and> t \<le> 100"
  using connection_deadline_enforced
    [of _ "[OpRead 90 None, OpClearHandshake 95]" 10 example_conn, OF refl]
  by (simp add: example_conn_def)

end
