(* ===== verification/Limits.thy ===== *)
theory Limits
  imports Prelude "HOL-Library.Multiset"
begin

text \<open>
  The resource limiters of \<open>server.go\<close>: \<open>resourceLimiter\<close>, a limit over a shared atomic counter
  with an optional parent limiter, and \<open>connectionChannelLimiter\<close>. First the two methods as the
  code runs them alone; then their single atomic additions as the steps of goroutines that
  interleave in any order.
  A limiter is the list of its levels, itself first and its parents after it; a nil limiter is
  the empty list. A level is the limit and the address of the counter (\<open>None\<close> for a nil
  pointer); the counters are a store from addresses to values. A counter stays far below the
  64-bit bound, because each goroutine adds at most one to it per level, so it is an \<open>int\<close>.
\<close>

section \<open>The methods, run alone\<close>

type_synonym counters = "nat \<Rightarrow> int"

record resourceLimiter =
  rl_limit :: int
  rl_active :: "nat option"

type_synonym limiter = "resourceLimiter list"

text \<open>The guard \<open>l.limit > 0 && l.active != nil\<close>, and the counter it names.\<close>

definition rl_counter :: "resourceLimiter \<Rightarrow> nat option" where
  "rl_counter l = (if 0 < rl_limit l then rl_active l else None)"

fun resourceLimiter_reserve :: "limiter \<Rightarrow> counters \<Rightarrow> bool \<times> counters" where
  "resourceLimiter_reserve [] s = (True, s)"
| "resourceLimiter_reserve (l # parent) s =
     (case rl_counter l of
        Some a \<Rightarrow>
          (let s1 = s(a := s a + 1)
           in if s1 a > rl_limit l then (False, s1(a := s1 a - 1))
              else (case resourceLimiter_reserve parent s1 of
                      (True, s2) \<Rightarrow> (True, s2)
                    | (False, s2) \<Rightarrow> (False, s2(a := s2 a - 1))))
      | None \<Rightarrow> resourceLimiter_reserve parent s)"

fun resourceLimiter_release :: "limiter \<Rightarrow> counters \<Rightarrow> counters" where
  "resourceLimiter_release [] s = s"
| "resourceLimiter_release (l # parent) s =
     resourceLimiter_release parent
       (case rl_counter l of Some a \<Rightarrow> s(a := s a - 1) | None \<Rightarrow> s)"

text \<open>
  \<open>connectionChannelLimiter\<close> owns its counter, so the address is not optional; \<open>None\<close> is the nil
  receiver. \<open>cl_global\<close> is the levels of its global limiter.
\<close>

record connectionChannelLimiter =
  cl_limit :: int
  cl_active :: nat
  cl_global :: limiter

definition channelLimiter_reserve ::
  "connectionChannelLimiter option \<Rightarrow> counters \<Rightarrow> bool \<times> counters" where
  "channelLimiter_reserve ol s = (case ol of
     None \<Rightarrow> (True, s)
   | Some l \<Rightarrow>
       let a = cl_active l;
           s1 = (if 0 < cl_limit l then s(a := s a + 1) else s)
       in if 0 < cl_limit l \<and> s1 a > cl_limit l then (False, s1(a := s1 a - 1))
          else (case resourceLimiter_reserve (cl_global l) s1 of
                  (True, s2) \<Rightarrow> (True, s2)
                | (False, s2) \<Rightarrow> (False, if 0 < cl_limit l then s2(a := s2 a - 1) else s2)))"

definition channelLimiter_release :: "connectionChannelLimiter option \<Rightarrow> counters \<Rightarrow> counters" where
  "channelLimiter_release ol s = (case ol of
     None \<Rightarrow> s
   | Some l \<Rightarrow>
       resourceLimiter_release (cl_global l)
         (if 0 < cl_limit l then s(cl_active l := s (cl_active l) - 1) else s))"

text \<open>Both are one shape: the channel limiter is a limiter with one more level.\<close>

definition channel_levels :: "connectionChannelLimiter option \<Rightarrow> limiter" where
  "channel_levels ol = (case ol of
     None \<Rightarrow> []
   | Some l \<Rightarrow> \<lparr>rl_limit = cl_limit l, rl_active = Some (cl_active l)\<rparr> # cl_global l)"

lemma channelLimiter_reserve_levels:
  "channelLimiter_reserve ol s = resourceLimiter_reserve (channel_levels ol) s"
  by (auto simp: channelLimiter_reserve_def channel_levels_def rl_counter_def Let_def
      split: option.splits prod.splits bool.splits)

lemma channelLimiter_release_levels:
  "channelLimiter_release ol s = resourceLimiter_release (channel_levels ol) s"
  by (auto simp: channelLimiter_release_def channel_levels_def rl_counter_def split: option.splits)

text \<open>How often a list of levels counts on address \<open>a\<close>.\<close>

definition levels_at :: "limiter \<Rightarrow> nat \<Rightarrow> nat" where
  "levels_at ls a = length (filter (\<lambda>l. rl_counter l = Some a) ls)"

lemma levels_at_simps [simp]:
  "levels_at [] a = 0"
  "levels_at (l # ls) a = (if rl_counter l = Some a then 1 else 0) + levels_at ls a"
  "levels_at (xs @ ys) a = levels_at xs a + levels_at ys a"
  by (simp_all add: levels_at_def)

lemma resourceLimiter_reserve_refused:
  "resourceLimiter_reserve ls s = (False, s') \<Longrightarrow> s' = s"
proof (induction ls arbitrary: s s')
  case (Cons l ls)
  show ?case
  proof (cases "rl_counter l")
    case None
    with Cons show ?thesis by simp
  next
    case (Some a)
    show ?thesis
    proof (cases "s a + 1 > rl_limit l")
      case True
      with Cons.prems Some show ?thesis by (simp add: fun_eq_iff)
    next
      case False
      with Cons.prems Some obtain s2 where
        r: "resourceLimiter_reserve ls (s(a := s a + 1)) = (False, s2)" and s': "s' = s2(a := s2 a - 1)"
        by (auto simp: Let_def split: prod.splits bool.splits)
      from Cons.IH [OF r] s' show ?thesis by (auto simp: fun_eq_iff)
    qed
  qed
qed simp

lemma resourceLimiter_reserve_granted:
  "resourceLimiter_reserve ls s = (True, s') \<Longrightarrow> s' a = s a + int (levels_at ls a)"
proof (induction ls arbitrary: s s')
  case (Cons l ls)
  show ?case
  proof (cases "rl_counter l")
    case None
    with Cons show ?thesis by simp
  next
    case (Some b)
    with Cons.prems have "resourceLimiter_reserve ls (s(b := s b + 1)) = (True, s')"
      by (auto simp: Let_def split: if_splits prod.splits bool.splits)
    from Cons.IH [OF this] Some show ?thesis by auto
  qed
qed simp

lemma resourceLimiter_release_eq:
  "resourceLimiter_release ls s a = s a - int (levels_at ls a)"
  by (induction ls arbitrary: s) (auto split: option.splits)

text \<open>
  The interface of a limiter as its clients use it: a granted reservation adds its weight to the
  counters, a refused one changes nothing, and a release takes the weight off again. So the
  counters say exactly how many reservations are held.
\<close>

locale slot_limiter =
  fixes reserve :: "counters \<Rightarrow> bool \<times> counters"
    and release :: "counters \<Rightarrow> counters"
    and weight :: "nat \<Rightarrow> int"
  assumes granted: "reserve s = (True, s') \<Longrightarrow> s' a = s a + weight a"
    and refused: "reserve s = (False, s') \<Longrightarrow> s' = s"
    and released: "release s a = s a - weight a"
begin

definition held :: "counters \<Rightarrow> nat \<Rightarrow> counters \<Rightarrow> bool" where
  "held base n s \<longleftrightarrow> (\<forall>a. s a = base a + int n * weight a)"

lemma held_none: "held base 0 base"
  by (simp add: held_def)

lemma held_reserve: "held base n s \<Longrightarrow> reserve s = (ok, s') \<Longrightarrow> held base (if ok then Suc n else n) s'"
  using granted [of s s'] refused [of s s'] by (cases ok) (auto simp: held_def algebra_simps)

lemma held_release: "held base (Suc n) s \<Longrightarrow> held base n (release s)"
  by (auto simp: held_def released algebra_simps)

lemma release_undoes_reserve: "reserve s = (True, s') \<Longrightarrow> release s' = s"
  using granted [of s s'] by (auto simp: fun_eq_iff released)

end

interpretation res_slots: slot_limiter "resourceLimiter_reserve ls" "resourceLimiter_release ls" "\<lambda>a. int (levels_at ls a)" for ls
  by unfold_locales
    (rule resourceLimiter_reserve_granted, assumption, rule resourceLimiter_reserve_refused, assumption,
      rule resourceLimiter_release_eq)

interpretation chan_slots: slot_limiter "channelLimiter_reserve l" "channelLimiter_release l"
  "\<lambda>a. int (levels_at (channel_levels l) a)" for l
  unfolding channelLimiter_reserve_levels channelLimiter_release_levels by (rule res_slots.slot_limiter_axioms)

section \<open>Goroutines that interleave\<close>

text \<open>
  The program counter of a goroutine that uses a limiter: about to try level \<open>i\<close>; has added one
  at level \<open>i\<close> and found it over the limit; level \<open>i\<close> has refused and the levels below take
  their addition back; holds the reservation; is releasing, with level \<open>i\<close> next; has been
  refused; has released.
\<close>

datatype limiter_pc = Try nat | Over nat | Undo nat | Held | Releasing nat | Refused | Released

text \<open>One atomic step of \<open>reserve\<close> or \<open>release\<close>: at most one addition to one counter.\<close>

fun limiter_step :: "limiter \<Rightarrow> counters \<Rightarrow> limiter_pc \<Rightarrow> (counters \<times> limiter_pc) option" where
  "limiter_step ls s (Try i) =
     (if i < length ls then
        (case rl_counter (ls ! i) of
           Some a \<Rightarrow>
             (let s1 = s(a := s a + 1)
              in Some (s1, if s1 a > rl_limit (ls ! i) then Over i else Try (Suc i)))
         | None \<Rightarrow> Some (s, Try (Suc i)))
      else Some (s, Held))"
| "limiter_step ls s (Over i) =
     Some (case rl_counter (ls ! i) of Some a \<Rightarrow> s(a := s a - 1) | None \<Rightarrow> s, Undo i)"
| "limiter_step ls s (Undo 0) = Some (s, Refused)"
| "limiter_step ls s (Undo (Suc i)) =
     Some (case rl_counter (ls ! i) of Some a \<Rightarrow> s(a := s a - 1) | None \<Rightarrow> s, Undo i)"
| "limiter_step ls s Held = Some (s, Releasing 0)"
| "limiter_step ls s (Releasing i) =
     (if i < length ls then
        Some (case rl_counter (ls ! i) of Some a \<Rightarrow> s(a := s a - 1) | None \<Rightarrow> s, Releasing (Suc i))
      else Some (s, Released))"
| "limiter_step ls s Refused = None"
| "limiter_step ls s Released = None"

text \<open>
  The system: the counters, and the goroutines with the limiter each of them uses. Any number
  may start at any time, on any limiter whose levels agree with \<open>lim\<close>, the limit that belongs
  to a counter; each step is one goroutine's atomic step.
\<close>

type_synonym goroutines = "(limiter \<times> limiter_pc) multiset"

definition agrees :: "(nat \<Rightarrow> int) \<Rightarrow> limiter \<Rightarrow> bool" where
  "agrees lim ls \<longleftrightarrow> (\<forall>l \<in> set ls. \<forall>a. rl_counter l = Some a \<longrightarrow> rl_limit l = lim a)"

inductive limiter_run :: "(nat \<Rightarrow> int) \<Rightarrow> counters \<times> goroutines \<Rightarrow> bool" for lim where
  lr_init: "limiter_run lim (\<lambda>_. 0, {#})"
| lr_start: "limiter_run lim (s, T) \<Longrightarrow> agrees lim ls \<Longrightarrow> limiter_run lim (s, add_mset (ls, Try 0) T)"
| lr_step: "limiter_run lim (s, add_mset (ls, pc) T) \<Longrightarrow> limiter_step ls s pc = Some (s', pc') \<Longrightarrow>
     limiter_run lim (s', add_mset (ls, pc') T)"

text \<open>What a goroutine has added to counter \<open>a\<close> and not taken back, and what of it was granted.\<close>

fun contribution :: "nat \<Rightarrow> limiter \<times> limiter_pc \<Rightarrow> nat" where
  "contribution a (ls, Try i) = levels_at (take i ls) a"
| "contribution a (ls, Over i) = levels_at (take (Suc i) ls) a"
| "contribution a (ls, Undo i) = levels_at (take i ls) a"
| "contribution a (ls, Held) = levels_at ls a"
| "contribution a (ls, Releasing i) = levels_at (drop i ls) a"
| "contribution a (ls, Refused) = 0"
| "contribution a (ls, Released) = 0"

fun granted :: "nat \<Rightarrow> limiter \<times> limiter_pc \<Rightarrow> nat" where
  "granted a (ls, Over i) = levels_at (take i ls) a"
| "granted a p = contribution a p"

fun pc_ok :: "limiter \<times> limiter_pc \<Rightarrow> bool" where
  "pc_ok (ls, Try i) = (i \<le> length ls)"
| "pc_ok (ls, Over i) = (i < length ls \<and> rl_counter (ls ! i) \<noteq> None)"
| "pc_ok (ls, Undo i) = (i \<le> length ls)"
| "pc_ok (ls, Releasing i) = (i \<le> length ls)"
| "pc_ok _ = True"

definition limiter_inv :: "(nat \<Rightarrow> int) \<Rightarrow> counters \<times> goroutines \<Rightarrow> bool" where
  "limiter_inv lim sT \<longleftrightarrow>
     (\<forall>a. fst sT a = int (\<Sum>t \<in># snd sT. contribution a t)) \<and>
     (\<forall>a. 0 < lim a \<longrightarrow> int (\<Sum>t \<in># snd sT. granted a t) \<le> lim a) \<and>
     (\<forall>t \<in># snd sT. pc_ok t \<and> agrees lim (fst t))"

lemma granted_le_contribution: "granted a t \<le> contribution a t"
proof -
  obtain ls pc where t: "t = (ls, pc)" by fastforce
  have "levels_at (take i ls) a \<le> levels_at (take (Suc i) ls) a" for i
    by (cases "i < length ls") (simp_all add: take_Suc_conv_app_nth)
  then show ?thesis by (cases pc) (simp_all add: t)
qed

lemma sum_granted_le: "(\<Sum>t \<in># T. granted a t) \<le> (\<Sum>t \<in># T. contribution a t)"
  by (rule sum_mset_mono) (rule granted_le_contribution)

lemma levels_at_take_Suc [simp]:
  "i < length ls \<Longrightarrow> levels_at (take (Suc i) ls) a
     = levels_at (take i ls) a + (if rl_counter (ls ! i) = Some a then 1 else 0)"
  by (simp add: take_Suc_conv_app_nth)

lemma levels_at_drop [simp]:
  "i < length ls \<Longrightarrow> levels_at (drop i ls) a
     = (if rl_counter (ls ! i) = Some a then 1 else 0) + levels_at (drop (Suc i) ls) a"
  by (simp flip: Cons_nth_drop_Suc)

text \<open>One step moves the counters by exactly what it moves the goroutine's contribution by.\<close>

lemma limiter_step_counts:
  assumes "limiter_step ls s pc = Some (s', pc')" and "pc_ok (ls, pc)"
  shows "s' a + int (contribution a (ls, pc)) = s a + int (contribution a (ls, pc'))
    \<and> pc_ok (ls, pc')"
  using assms
  by (induction ls s pc rule: limiter_step.induct)
    (auto simp: Let_def split: if_splits option.splits)

text \<open>A step grants at counter \<open>a\<close> only when the counter is then within its level's limit.\<close>

lemma limiter_step_grants:
  assumes "limiter_step ls s pc = Some (s', pc')" and "pc_ok (ls, pc)"
  shows "granted a (ls, pc') \<le> granted a (ls, pc) \<or>
    (\<exists>l \<in> set ls. rl_counter l = Some a \<and> s' a \<le> rl_limit l)"
  using assms
  by (induction ls s pc rule: limiter_step.induct)
    (auto simp: Let_def split: if_splits option.splits)

lemma limiter_run_inv: "limiter_run lim sT \<Longrightarrow> limiter_inv lim sT"
proof (induction rule: limiter_run.induct)
  case lr_init
  then show ?case by (simp add: limiter_inv_def)
next
  case (lr_start s T ls)
  then show ?case by (auto simp: limiter_inv_def levels_at_def)
next
  case (lr_step s ls pc T s' pc')
  from lr_step.IH have ok: "pc_ok (ls, pc)" and ag: "agrees lim ls"
    and cnt: "\<And>a. s a = int (contribution a (ls, pc)) + int (\<Sum>t \<in># T. contribution a t)"
    and lims: "\<And>a. 0 < lim a \<Longrightarrow> int (granted a (ls, pc)) + int (\<Sum>t \<in># T. granted a t) \<le> lim a"
    and rest: "\<forall>t \<in># T. pc_ok t \<and> agrees lim (fst t)"
    by (auto simp: limiter_inv_def)
  note cs = limiter_step_counts [OF lr_step.hyps(2) ok]
  have cnt': "s' a = int (contribution a (ls, pc')) + int (\<Sum>t \<in># T. contribution a t)" for a
    using cs [of a] cnt [of a] by linarith
  have "int (granted a (ls, pc')) + int (\<Sum>t \<in># T. granted a t) \<le> lim a" if pos: "0 < lim a" for a
    using limiter_step_grants [OF lr_step.hyps(2) ok, of a]
  proof
    assume "granted a (ls, pc') \<le> granted a (ls, pc)"
    with lims [OF pos] show ?thesis by linarith
  next
    assume "\<exists>l \<in> set ls. rl_counter l = Some a \<and> s' a \<le> rl_limit l"
    with ag have "s' a \<le> lim a" by (auto simp: agrees_def)
    moreover have "int (granted a (ls, pc')) + int (\<Sum>t \<in># T. granted a t) \<le> s' a"
      using cnt' [of a] granted_le_contribution [of a "(ls, pc')"] sum_granted_le [of a T] by linarith
    ultimately show ?thesis by linarith
  qed
  with cnt' cs ag rest show ?case by (auto simp: limiter_inv_def)
qed

text \<open>Run alone, the atomic steps compute what the methods compute.\<close>

definition alone :: "limiter \<Rightarrow> counters \<times> limiter_pc \<Rightarrow> counters \<times> limiter_pc \<Rightarrow> bool" where
  "alone ls = (\<lambda>(s, pc) (s', pc'). limiter_step ls s pc = Some (s', pc'))\<^sup>*\<^sup>*"

lemma alone_refl [simp]: "alone ls x x"
  by (simp add: alone_def)

lemma alone_step: "limiter_step ls s pc = Some (s1, pc1) \<Longrightarrow> alone ls (s1, pc1) y \<Longrightarrow> alone ls (s, pc) y"
  unfolding alone_def by (erule converse_rtranclp_into_rtranclp [rotated]) simp

lemma alone_trans: "alone ls x y \<Longrightarrow> alone ls y z \<Longrightarrow> alone ls x z"
  unfolding alone_def by (rule rtranclp_trans)

lemma alone_last: "alone ls x (s, pc) \<Longrightarrow> limiter_step ls s pc = Some y \<Longrightarrow> alone ls x y"
  unfolding alone_def by (erule rtranclp.rtrancl_into_rtrancl) auto

lemma alone_one: "limiter_step ls s pc = Some y \<Longrightarrow> alone ls (s, pc) y"
  by (rule alone_last [OF alone_refl])

lemma alone_try_end: "alone ls (s, Try (length ls)) (s, Held)"
  by (rule alone_step [of ls s _ s Held]) auto

lemma alone_releasing_end: "alone ls (s, Releasing (length ls)) (s, Released)"
  by (rule alone_step [of ls s _ s Released]) auto

lemma reserve_alone_from:
  "i \<le> length ls \<Longrightarrow> resourceLimiter_reserve (drop i ls) s = (ok, s') \<Longrightarrow>
   alone ls (s, Try i) (s', if ok then Held else Undo i)"
proof (induction "length ls - i" arbitrary: i s ok s')
  case 0
  then have "i = length ls" by simp
  with 0 show ?case by (auto intro: alone_try_end)
next
  case (Suc n)
  then have i: "i < length ls" by simp
  have dr: "drop i ls = ls ! i # drop (Suc i) ls" using i by (simp add: Cons_nth_drop_Suc)
  note IH = Suc.hyps(1) [of "Suc i"]
  show ?case
  proof (cases "rl_counter (ls ! i)")
    case None
    with Suc.prems dr have r: "resourceLimiter_reserve (drop (Suc i) ls) s = (ok, s')" by simp
    have bk: "alone ls (s', Undo (Suc i)) (s', Undo i)"
      using None by (simp add: alone_one)
    have fwd: "alone ls (s, Try (Suc i)) (s', if ok then Held else Undo (Suc i))"
      using IH r i Suc.hyps(2) by simp
    have "alone ls (s, Try (Suc i)) (s', if ok then Held else Undo i)"
      using fwd bk by (cases ok) (auto intro: alone_trans)
    moreover have "limiter_step ls s (Try i) = Some (s, Try (Suc i))" using None i by simp
    ultimately show ?thesis by (blast intro: alone_step)
  next
    case (Some a)
    define s1 where "s1 = s(a := s a + 1)"
    show ?thesis
    proof (cases "s1 a > rl_limit (ls ! i)")
      case True
      with Suc.prems dr Some have "\<not> ok" "s' = s1(a := s1 a - 1)"
        by (auto simp: s1_def Let_def)
      moreover have "limiter_step ls s (Try i) = Some (s1, Over i)"
        using True Some i by (simp add: s1_def Let_def)
      moreover have "alone ls (s1, Over i) (s1(a := s1 a - 1), Undo i)"
        using Some by (simp add: alone_one)
      ultimately show ?thesis by (simp del: limiter_step.simps add: alone_step)
    next
      case False
      then have st: "limiter_step ls s (Try i) = Some (s1, Try (Suc i))"
        using Some i by (simp add: s1_def Let_def)
      obtain ok2 s2 where r: "resourceLimiter_reserve (drop (Suc i) ls) s1 = (ok2, s2)" by fastforce
      with Suc.prems dr Some False have res: "ok = ok2" "s' = (if ok2 then s2 else s2(a := s2 a - 1))"
        by (auto simp: s1_def Let_def split: bool.splits)
      have fwd: "alone ls (s1, Try (Suc i)) (s2, if ok2 then Held else Undo (Suc i))"
        using IH r i Suc.hyps(2) by simp
      have "alone ls (s2, Undo (Suc i)) (s2(a := s2 a - 1), Undo i)"
        using Some by (simp add: alone_one)
      with fwd res have "alone ls (s1, Try (Suc i)) (s', if ok then Held else Undo i)"
        by (cases ok2) (auto intro: alone_trans)
      with st show ?thesis by (rule alone_step)
    qed
  qed
qed

lemma release_alone_from:
  "i \<le> length ls \<Longrightarrow> alone ls (s, Releasing i) (resourceLimiter_release (drop i ls) s, Released)"
proof (induction "length ls - i" arbitrary: i s)
  case 0
  then have "i = length ls" by simp
  then show ?case by (simp add: alone_releasing_end)
next
  case (Suc n)
  then have i: "i < length ls" by simp
  define s1 where "s1 = (case rl_counter (ls ! i) of Some a \<Rightarrow> s(a := s a - 1) | None \<Rightarrow> s)"
  have "limiter_step ls s (Releasing i) = Some (s1, Releasing (Suc i))"
    using i by (simp add: s1_def)
  moreover have "alone ls (s1, Releasing (Suc i)) (resourceLimiter_release (drop (Suc i) ls) s1, Released)"
    using Suc.hyps(1) [of "Suc i" s1] Suc.hyps(2) i by simp
  moreover have "resourceLimiter_release (drop i ls) s = resourceLimiter_release (drop (Suc i) ls) s1"
    using i by (simp add: s1_def flip: Cons_nth_drop_Suc)
  ultimately show ?case by (auto intro: alone_step)
qed

text \<open>
  C28. The limit is never exceeded. Whatever the interleaving of the atomic additions of any
  number of goroutines on any limiters of the server (local, per-connection and global levels),
  the reservations granted at a counter never exceed its limit, the counter is the sum of what
  the goroutines have added and not taken back, and once no goroutine is in flight or holding,
  every counter is back at zero: no reservation leaks and none is released twice.
\<close>

theorem limiter_never_exceeded:
  assumes "limiter_run lim (s, T)"
  shows "(\<forall>a. 0 < lim a \<longrightarrow> int (\<Sum>t \<in># T. granted a t) \<le> lim a)
    \<and> (\<forall>a. s a = int (\<Sum>t \<in># T. contribution a t))
    \<and> ((\<forall>t \<in># T. snd t = Refused \<or> snd t = Released) \<longrightarrow> s = (\<lambda>_. 0))"
proof -
  from limiter_run_inv [OF assms] have inv: "limiter_inv lim (s, T)" .
  have "s a = 0" if "\<forall>t \<in># T. snd t = Refused \<or> snd t = Released" for a
  proof -
    have "contribution a t = 0" if "t \<in># T" for t
      using that \<open>\<forall>t \<in># T. snd t = Refused \<or> snd t = Released\<close> by (cases t) fastforce
    then have "(\<Sum>t \<in># T. contribution a t) = 0" by simp
    moreover have "s a = int (\<Sum>t \<in># T. contribution a t)"
      using inv unfolding limiter_inv_def by auto
    ultimately show ?thesis by (simp only: of_nat_0)
  qed
  with inv show ?thesis by (auto simp: limiter_inv_def)
qed

definition example_level :: limiter where
  "example_level = [\<lparr>rl_limit = 1, rl_active = Some 0\<rparr>]"

text \<open>Two goroutines at a limit of one: the first holds, the second has added one and must retreat.\<close>

lemma example_limiter_run:
  "limiter_run (\<lambda>_. 1) ((\<lambda>_. 0)(0 := 2), {#(example_level, Over 0), (example_level, Held)#})"
proof -
  let ?lim = "\<lambda>_::nat. 1::int"
  have ag: "agrees ?lim example_level"
    by (auto simp: agrees_def example_level_def rl_counter_def)
  have 1: "limiter_run ?lim (\<lambda>_. 0, {#(example_level, Try 0)#})"
    using lr_start [OF lr_init ag] .
  have 2: "limiter_run ?lim ((\<lambda>_. 0)(0 := 1), {#(example_level, Try 1)#})"
    using lr_step [OF 1, of "(\<lambda>_. 0)(0 := 1)" "Try 1"]
    by (simp add: example_level_def rl_counter_def)
  have 3: "limiter_run ?lim ((\<lambda>_. 0)(0 := 1), {#(example_level, Held)#})"
    using lr_step [OF 2, of "(\<lambda>_. 0)(0 := 1)" Held] by (simp add: example_level_def)
  have 4: "limiter_run ?lim ((\<lambda>_. 0)(0 := 1), {#(example_level, Try 0), (example_level, Held)#})"
    using lr_start [OF 3 ag] .
  show ?thesis
    using lr_step [OF 4, of "(\<lambda>_. 0)(0 := 2)" "Over 0"]
    by (simp add: example_level_def rl_counter_def)
qed

theorem limiter_never_exceeded_witness:
  "(\<Sum>t \<in># {#(example_level, Over 0), (example_level, Held)#}. granted 0 t) \<le> 1
   \<and> (\<Sum>t \<in># {#(example_level, Over 0), (example_level, Held)#}. contribution 0 t) = 2"
  using limiter_never_exceeded [OF example_limiter_run]
  by (simp add: example_level_def rl_counter_def)

text \<open>
  Refinement. Run without interference, the atomic steps of a goroutine are the method
  \<open>reserve\<close> of a limiter with its parents: it ends holding exactly when \<open>reserve\<close> returns true,
  with the counters \<open>reserve\<close> leaves; a refusal leaves every counter as it was; and a release
  takes back what was reserved.
\<close>

lemma reserve_refined_by_steps:
  "alone ls (s, Try 0) (snd (resourceLimiter_reserve ls s),
     if fst (resourceLimiter_reserve ls s) then Held else Refused)
   \<and> alone ls (snd (resourceLimiter_reserve ls s), Held)
       (resourceLimiter_release ls (snd (resourceLimiter_reserve ls s)), Released)
   \<and> (if fst (resourceLimiter_reserve ls s)
      then resourceLimiter_release ls (snd (resourceLimiter_reserve ls s)) = s
      else snd (resourceLimiter_reserve ls s) = s)"
proof -
  obtain ok s' where r: "resourceLimiter_reserve ls s = (ok, s')" by fastforce
  have "alone ls (s, Try 0) (s', if ok then Held else Undo 0)"
    using reserve_alone_from [of 0 ls s ok s'] r by simp
  then have "alone ls (s, Try 0) (s', if ok then Held else Refused)"
    by (cases ok) (auto intro: alone_last)
  moreover have "alone ls (s', Held) (resourceLimiter_release ls s', Released)"
    using release_alone_from [of 0 ls s'] by (auto intro: alone_step)
  moreover have "ok \<Longrightarrow> resourceLimiter_release ls s' = s"
    using resourceLimiter_reserve_granted [of ls s s'] r
    by (auto simp: resourceLimiter_release_eq fun_eq_iff)
  ultimately show ?thesis
    using r resourceLimiter_reserve_refused [of ls s s'] by auto
qed

end
