(* ===== verification/Lifecycle.thy ===== *)
theory Lifecycle
  imports Config
begin

text \<open>
  \<open>lifecycle.go\<close>: the scope of one \<open>Serve\<close> or \<open>HandleConn\<close> call. It tracks the connections it
  accepted, counts those that are not authenticated yet, and stops gracefully or by force.
  Each method that holds the mutex for its whole body is one function, that is one atomic step;
  \<open>force\<close> and \<open>shutdown\<close> are the sequences of atomic sections the code makes of them.
  An \<open>activeConn\<close> is a pointer: the heap maps its address to its fields, also after the scope has
  dropped it. \<open>scope_connections\<close> holds the keys of the map \<open>connections\<close>. What the scope does to
  the outside (closing a transport, canceling a connection, releasing its resources) is
  recorded in order in \<open>scope_trace\<close>.
\<close>

section \<open>State\<close>

record activeConn =
  ac_conn :: nat
  ac_transports :: "nat list"
  ac_cancel :: bool
  ac_acceptedAt :: int
  ac_handshaking :: bool
  ac_startupReserved :: bool
  ac_closed :: bool
  ac_closeCause :: "gerr option"

datatype scope_effect =
    CloseTransport nat
  | CancelConn nat gerr
  | CloseResources nat
  | CloseListener

record serveContext =
  scope_maxStartups :: MaxStartupsConfig
  scope_listener :: "gerr option option"
  scope_connections :: "nat list"
  scope_heap :: "nat \<Rightarrow> activeConn"
  scope_next :: nat
  scope_startups :: int
  scope_stopping :: bool
  scope_forced :: bool
  scope_drained :: bool
  scope_listenerClosed :: "gerr option option"
  scope_trace :: "scope_effect list"

text \<open>
  \<open>scope_listener\<close> is \<open>None\<close> for a nil listener and else what its \<open>Close\<close> returns;
  \<open>scope_listenerClosed\<close> is the \<open>sync.Once\<close> around the close with its stored result.
\<close>

definition no_conn :: activeConn where
  "no_conn = \<lparr>ac_conn = 0, ac_transports = [], ac_cancel = False, ac_acceptedAt = 0,
     ac_handshaking = False, ac_startupReserved = False, ac_closed = False, ac_closeCause = None\<rparr>"

definition newServeContext :: "MaxStartupsConfig option \<Rightarrow> gerr option option \<Rightarrow> serveContext" where
  "newServeContext maxStartups listener =
     \<lparr>scope_maxStartups = effectiveMaxStartups maxStartups, scope_listener = listener,
      scope_connections = [], scope_heap = (\<lambda>_. no_conn), scope_next = 0, scope_startups = 0,
      scope_stopping = False, scope_forced = False, scope_drained = False,
      scope_listenerClosed = None, scope_trace = []\<rparr>"

section \<open>Methods\<close>

definition closeListener :: "gerr option option \<Rightarrow> gerr option" where
  "closeListener listener = (case listener of
     None \<Rightarrow> None
   | Some err \<Rightarrow> if err \<noteq> None \<and> \<not> isClosedError err then err else None)"

definition scope_closeListener :: "serveContext \<Rightarrow> gerr option \<times> serveContext" where
  "scope_closeListener s = (case scope_listenerClosed s of
     Some stored \<Rightarrow> (stored, s)
   | None \<Rightarrow>
       (let err = closeListener (scope_listener s)
        in (err, s\<lparr>scope_listenerClosed := Some err,
                  scope_trace := scope_trace s
                    @ (if scope_listener s = None then [] else [CloseListener])\<rparr>)))"

definition maybeCloseDrainedLocked :: "serveContext \<Rightarrow> serveContext" where
  "maybeCloseDrainedLocked s =
     (if \<not> scope_stopping s \<or> length (scope_connections s) \<noteq> 0 then s
      else s\<lparr>scope_drained := True\<rparr>)"

definition stopAccepting :: "serveContext \<Rightarrow> gerr option \<times> serveContext" where
  "stopAccepting s = scope_closeListener (maybeCloseDrainedLocked (s\<lparr>scope_stopping := True\<rparr>))"

text \<open>
  \<open>rnd\<close> is the value of \<open>rand.UintN(100)\<close>, \<open>now\<close> of \<open>time.Now()\<close>. The result is the address of
  the new \<open>activeConn\<close>, or \<open>None\<close> for nil.
\<close>

definition trackConnection :: "nat \<Rightarrow> int \<Rightarrow> int \<Rightarrow> serveContext \<Rightarrow> nat option \<times> serveContext" where
  "trackConnection conn now rnd s =
     (if scope_stopping s then (None, s\<lparr>scope_trace := scope_trace s @ [CloseTransport conn]\<rparr>)
      else
        let maxStartups = scope_maxStartups s;
            dropRate = maxStartupsDropRate (scope_startups s) maxStartups
        in if dropRate \<ge> 100 \<or> dropRate > 0 \<and> rnd < dropRate
           then (None, s\<lparr>scope_trace := scope_trace s @ [CloseTransport conn]\<rparr>)
           else
             let a = scope_next s;
                 active = \<lparr>ac_conn = conn, ac_transports = [conn], ac_cancel = False,
                   ac_acceptedAt = now, ac_handshaking = True,
                   ac_startupReserved = (Full maxStartups > 0), ac_closed = False, ac_closeCause = None\<rparr>
             in (Some a, s\<lparr>scope_startups := scope_startups s + (if ac_startupReserved active then 1 else 0),
                           scope_connections := a # scope_connections s,
                           scope_heap := (scope_heap s)(a := active),
                           scope_next := Suc a\<rparr>))"

definition scope_live :: "nat \<Rightarrow> serveContext \<Rightarrow> bool" where
  "scope_live active s \<longleftrightarrow> active \<in> set (scope_connections s) \<and> \<not> ac_closed (scope_heap s active)"

definition updateConnection :: "nat \<Rightarrow> nat \<Rightarrow> serveContext \<Rightarrow> bool \<times> serveContext" where
  "updateConnection active conn s =
     (if \<not> scope_live active s then (False, s)
      else (True, s\<lparr>scope_heap := (scope_heap s)(active :=
              (scope_heap s active)\<lparr>ac_conn := conn, ac_transports := [conn]\<rparr>)\<rparr>))"

definition updateCancel :: "nat \<Rightarrow> serveContext \<Rightarrow> bool \<times> serveContext" where
  "updateCancel active s =
     (if \<not> scope_live active s then (False, s)
      else (True, s\<lparr>scope_heap := (scope_heap s)(active := (scope_heap s active)\<lparr>ac_cancel := True\<rparr>)\<rparr>))"

definition isHandshaking :: "nat \<Rightarrow> serveContext \<Rightarrow> bool" where
  "isHandshaking active s = ac_handshaking (scope_heap s active)"

definition releaseStartup :: "nat \<Rightarrow> serveContext \<Rightarrow> serveContext" where
  "releaseStartup active s =
     (let release = ac_startupReserved (scope_heap s active);
          s1 = s\<lparr>scope_heap := (scope_heap s)(active :=
                 (scope_heap s active)\<lparr>ac_handshaking := False, ac_startupReserved := False\<rparr>)\<rparr>
      in if release then s1\<lparr>scope_startups := scope_startups s1 - 1\<rparr> else s1)"

definition untrackDelete :: "nat \<Rightarrow> serveContext \<Rightarrow> serveContext" where
  "untrackDelete active s =
     maybeCloseDrainedLocked (s\<lparr>scope_connections := removeAll active (scope_connections s)\<rparr>)"

definition untrackConnection :: "nat \<Rightarrow> serveContext \<Rightarrow> serveContext" where
  "untrackConnection active s = untrackDelete active (releaseStartup active s)"

definition connectionCause :: "nat \<Rightarrow> serveContext \<Rightarrow> gerr option" where
  "connectionCause active s = ac_closeCause (scope_heap s active)"

section \<open>Forced and graceful shutdown\<close>

text \<open>
  The section of \<open>force\<close> under the mutex. The loop visits the connections in any order the map
  gives; \<open>force_mark\<close> is its body for one connection, which also takes over its clean-up.
\<close>

record connectionCleanup =
  cu_active :: nat
  cu_cancel :: bool
  cu_transports :: "nat list"

definition force_mark :: "gerr \<Rightarrow> nat \<Rightarrow> serveContext \<times> int \<times> connectionCleanup list
    \<Rightarrow> serveContext \<times> int \<times> connectionCleanup list" where
  "force_mark cause active st = (case st of (s, startupReleases, cleanups) \<Rightarrow>
     (let ac = (scope_heap s active)\<lparr>ac_closed := True, ac_closeCause := Some cause\<rparr>;
          startupReleases' = startupReleases + (if ac_startupReserved ac then 1 else 0);
          ac' = ac\<lparr>ac_startupReserved := False\<rparr>
      in (s\<lparr>scope_heap := (scope_heap s)(active := ac'),
            scope_connections := removeAll active (scope_connections s)\<rparr>,
          startupReleases',
          cleanups @ [\<lparr>cu_active = active, cu_cancel = ac_cancel ac', cu_transports = ac_transports ac'\<rparr>])))"

definition force_locked ::
  "gerr \<Rightarrow> nat list \<Rightarrow> serveContext \<Rightarrow> connectionCleanup list option \<times> serveContext" where
  "force_locked cause order s =
     (if scope_forced s then (None, s)
      else
        case fold (force_mark cause) order (s\<lparr>scope_forced := True\<rparr>, 0, []) of
          (s1, startupReleases, cleanups) \<Rightarrow>
            (Some cleanups,
             maybeCloseDrainedLocked (s1\<lparr>scope_startups := scope_startups s1 - startupReleases\<rparr>)))"

text \<open>
  The clean-up after the mutex is released: cancel, close the transports last to first, release
  the resources. \<open>closeErr\<close> is what closing a transport returns.
\<close>

fun close_transports :: "(nat \<Rightarrow> gerr option) \<Rightarrow> nat list \<Rightarrow> gerr option \<Rightarrow> gerr option" where
  "close_transports closeErr [] result = result"
| "close_transports closeErr (t # ts) result =
     close_transports closeErr ts
       (if closeErr t \<noteq> None \<and> \<not> isClosedError (closeErr t)
        then errors_Join [result, closeErr t] else result)"

definition cleanup_effects :: "gerr \<Rightarrow> connectionCleanup \<Rightarrow> scope_effect list" where
  "cleanup_effects cause cu =
     (if cu_cancel cu then [CancelConn (cu_active cu) cause] else [])
     @ map CloseTransport (rev (cu_transports cu)) @ [CloseResources (cu_active cu)]"

fun force_cleanup ::
  "(nat \<Rightarrow> gerr option) \<Rightarrow> gerr \<Rightarrow> connectionCleanup list \<Rightarrow> gerr option \<times> serveContext
    \<Rightarrow> gerr option \<times> serveContext" where
  "force_cleanup closeErr cause [] (result, s) = (result, s)"
| "force_cleanup closeErr cause (cu # cus) (result, s) =
     force_cleanup closeErr cause cus
       (close_transports closeErr (rev (cu_transports cu)) result,
        s\<lparr>scope_trace := scope_trace s @ cleanup_effects cause cu\<rparr>)"

definition force :: "(nat \<Rightarrow> gerr option) \<Rightarrow> gerr \<Rightarrow> (serveContext \<Rightarrow> nat list) \<Rightarrow> serveContext
    \<Rightarrow> gerr option \<times> serveContext" where
  "force closeErr cause order s =
     (case stopAccepting s of
        (listenerErr, s1) \<Rightarrow>
          (case force_locked cause (order s1) s1 of
             (None, s2) \<Rightarrow> (listenerErr, s2)
           | (Some cleanups, s2) \<Rightarrow>
               (case force_cleanup closeErr cause cleanups (None, s2) of
                  (result, s3) \<Rightarrow> (errors_Join [listenerErr, result], s3))))"

text \<open>
  \<open>shutdown\<close>: the cause is \<open>context.Cause(ctx)\<close>, nil becoming \<open>context.Canceled\<close>; \<open>graceful\<close> is the
  configured handler's answer, \<open>None\<close> without a handler; \<open>wait\<close> is what happens to the scope while
  the method waits for the drain or the timer, and whether the drained channel won the select.
\<close>

definition shutdown ::
  "(nat \<Rightarrow> gerr option) \<Rightarrow> (serveContext \<Rightarrow> nat list) \<Rightarrow> gerr option
    \<Rightarrow> (duration \<times> gerr option) option \<Rightarrow> (serveContext \<Rightarrow> bool \<times> serveContext)
    \<Rightarrow> serveContext \<Rightarrow> gerr option \<times> serveContext" where
  "shutdown closeErr order ctxCause graceful wait s =
     (let cause = (case ctxCause of Some c \<Rightarrow> c | None \<Rightarrow> Var ContextCanceled)
      in case stopAccepting s of (listenerErr, s1) \<Rightarrow>
        (let (period, herr) = (case graceful of None \<Rightarrow> (0, None) | Some r \<Rightarrow> r)
         in case herr of
              Some e \<Rightarrow>
                (let forcedCause = JoinErr [cause, e]
                 in case force closeErr forcedCause order s1 of (ferr, s2) \<Rightarrow>
                      (errors_Join [Some forcedCause, listenerErr, ferr], s2))
            | None \<Rightarrow>
                if period \<le> 0 then
                  (case force closeErr cause order s1 of (ferr, s2) \<Rightarrow> (errors_Join [Some cause, ferr], s2))
                else
                  (case wait s1 of (drained, s2) \<Rightarrow>
                     if drained then (errors_Join [Some cause, listenerErr], s2)
                     else if length (scope_connections s2) = 0
                       then (errors_Join [Some cause, listenerErr], s2)
                     else
                       (let forcedCause = JoinErr [cause, Var ErrGracefulShutdownTimeout]
                        in case force closeErr forcedCause order s2 of (ferr, s3) \<Rightarrow>
                             (errors_Join [Some forcedCause, ferr], s3)))))"

section \<open>All interleavings of the atomic sections\<close>

inductive scope_step :: "serveContext \<Rightarrow> serveContext \<Rightarrow> bool" where
  step_track: "scope_step s (snd (trackConnection conn now rnd s))"
| step_updateConnection: "scope_step s (snd (updateConnection active conn s))"
| step_updateCancel: "scope_step s (snd (updateCancel active s))"
| step_releaseStartup: "scope_step s (releaseStartup active s)"
| step_untrackDelete: "\<not> ac_startupReserved (scope_heap s active) \<Longrightarrow> scope_step s (untrackDelete active s)"
| step_stopAccepting: "scope_step s (snd (stopAccepting s))"
| step_force: "scope_stopping s \<Longrightarrow> distinct order \<Longrightarrow> set order = set (scope_connections s) \<Longrightarrow>
     scope_step s (snd (force_locked cause order s))"

inductive scope_reach :: "serveContext \<Rightarrow> bool" where
  reach_new: "scope_reach (newServeContext maxStartups listener)"
| reach_step: "scope_reach s \<Longrightarrow> scope_step s s' \<Longrightarrow> scope_reach s'"

text \<open>The tracked connections that hold a startup slot.\<close>

definition reserved_in :: "(nat \<Rightarrow> activeConn) \<Rightarrow> nat list \<Rightarrow> nat list" where
  "reserved_in h xs = filter (\<lambda>a. ac_startupReserved (h a)) xs"

definition scope_inv :: "serveContext \<Rightarrow> bool" where
  "scope_inv s \<longleftrightarrow>
     distinct (scope_connections s) \<and>
     (\<forall>a \<in> set (scope_connections s). a < scope_next s \<and> \<not> ac_closed (scope_heap s a)) \<and>
     (\<forall>a. ac_startupReserved (scope_heap s a) \<longrightarrow> a \<in> set (scope_connections s)) \<and>
     scope_startups s = int (length (reserved_in (scope_heap s) (scope_connections s))) \<and>
     (0 < Full (scope_maxStartups s) \<longrightarrow> scope_startups s \<le> Full (scope_maxStartups s)) \<and>
     (scope_drained s \<longleftrightarrow> scope_stopping s \<and> scope_connections s = []) \<and>
     (scope_forced s \<longrightarrow> scope_stopping s \<and> scope_connections s = []) \<and>
     (\<forall>a. scope_next s \<le> a \<longrightarrow> scope_heap s a = no_conn)"

lemmas scope_defs = trackConnection_def updateConnection_def updateCancel_def releaseStartup_def
  untrackDelete_def stopAccepting_def scope_closeListener_def maybeCloseDrainedLocked_def scope_live_def

section \<open>The invariant is kept\<close>

lemma drop_rate_full: "0 < Full c \<Longrightarrow> Full c \<le> n \<Longrightarrow> 100 \<le> maxStartupsDropRate n c"
  by (simp add: maxStartupsDropRate_def)

lemma scope_invD:
  assumes "scope_inv s"
  shows "distinct (scope_connections s)"
    and "a \<in> set (scope_connections s) \<Longrightarrow> a < scope_next s"
    and "a \<in> set (scope_connections s) \<Longrightarrow> \<not> ac_closed (scope_heap s a)"
    and "ac_startupReserved (scope_heap s a) \<Longrightarrow> a \<in> set (scope_connections s)"
    and "scope_startups s = int (length (reserved_in (scope_heap s) (scope_connections s)))"
    and "0 < Full (scope_maxStartups s) \<Longrightarrow> scope_startups s \<le> Full (scope_maxStartups s)"
    and "scope_drained s \<longleftrightarrow> scope_stopping s \<and> scope_connections s = []"
    and "scope_forced s \<Longrightarrow> scope_stopping s \<and> scope_connections s = []"
    and "scope_next s \<le> a \<Longrightarrow> scope_heap s a = no_conn"
  using assms unfolding scope_inv_def by blast+

lemma reserved_in_Nil [simp]: "reserved_in h [] = []"
  by (simp add: reserved_in_def)

lemma reserved_in_Cons [simp]:
  "reserved_in h (a # xs) = (if ac_startupReserved (h a) then a # reserved_in h xs else reserved_in h xs)"
  by (simp add: reserved_in_def)

lemma reserved_in_cong:
  "(\<And>x. x \<in> set xs \<Longrightarrow> ac_startupReserved (h' x) = ac_startupReserved (h x)) \<Longrightarrow>
   reserved_in h' xs = reserved_in h xs"
  unfolding reserved_in_def by (rule filter_cong) auto

lemma reserved_in_same:
  "ac_startupReserved ac = ac_startupReserved (h a) \<Longrightarrow> reserved_in (h(a := ac)) xs = reserved_in h xs"
  by (rule reserved_in_cong) simp

lemma reserved_in_other: "a \<notin> set xs \<Longrightarrow> reserved_in (h(a := ac)) xs = reserved_in h xs"
  by (rule reserved_in_cong) auto

lemma reserved_in_clear:
  "distinct xs \<Longrightarrow> a \<in> set xs \<Longrightarrow> ac_startupReserved (h a) \<Longrightarrow> \<not> ac_startupReserved ac \<Longrightarrow>
   length (reserved_in h xs) = Suc (length (reserved_in (h(a := ac)) xs))"
  by (induction xs) (auto simp: reserved_in_other)

lemma reserved_in_removeAll:
  "\<not> ac_startupReserved (h a) \<Longrightarrow> reserved_in h (removeAll a xs) = reserved_in h xs"
  by (induction xs) auto

lemma inv_new: "scope_inv (newServeContext m l)"
  by (simp add: scope_inv_def newServeContext_def no_conn_def)

lemma inv_track:
  assumes "scope_inv s"
  shows "scope_inv (snd (trackConnection conn now rnd s))"
proof -
  let ?c = "scope_maxStartups s" and ?a = "scope_next s"
  let ?rate = "maxStartupsDropRate (scope_startups s) ?c"
  show ?thesis
  proof (cases "scope_stopping s \<or> ?rate \<ge> 100 \<or> ?rate > 0 \<and> rnd < ?rate")
    case True
    then show ?thesis using assms
      by (auto simp: trackConnection_def scope_inv_def Let_def)
  next
    case False
    have fresh: "?a \<notin> set (scope_connections s)" using assms by (auto simp: scope_inv_def)
    have lim: "0 < Full ?c \<Longrightarrow> scope_startups s < Full ?c"
      using False drop_rate_full [of ?c "scope_startups s"] by linarith
    show ?thesis using False assms fresh lim
      by (auto simp: trackConnection_def scope_inv_def Let_def reserved_in_other less_Suc_eq)
  qed
qed

lemma inv_heap:
  assumes "scope_inv s" and "scope_live a s"
    and "ac_startupReserved ac = ac_startupReserved (scope_heap s a)" "\<not> ac_closed ac"
  shows "scope_inv (s\<lparr>scope_heap := (scope_heap s)(a := ac)\<rparr>)"
  using assms by (auto simp: scope_inv_def scope_live_def reserved_in_same)

lemma inv_clear:
  assumes inv: "scope_inv s"
    and ac: "\<not> ac_startupReserved ac" "ac_closed ac = ac_closed (scope_heap s a)"
      "scope_heap s a = no_conn \<Longrightarrow> ac = no_conn"
  shows "scope_inv (s\<lparr>scope_heap := (scope_heap s)(a := ac),
    scope_startups := scope_startups s - (if ac_startupReserved (scope_heap s a) then 1 else 0)\<rparr>)"
    (is "scope_inv ?s")
proof -
  note D = scope_invD [OF inv]
  have n: "scope_startups ?s = int (length (reserved_in (scope_heap ?s) (scope_connections ?s)))"
  proof (cases "ac_startupReserved (scope_heap s a)")
    case True
    from reserved_in_clear [of "scope_connections s" a "scope_heap s" ac] True D(1,4,5) ac(1)
    show ?thesis by simp
  next
    case False
    then show ?thesis using reserved_in_same [of ac "scope_heap s" a] D(5) ac(1) by simp
  qed
  have "x \<in> set (scope_connections s)" if "ac_startupReserved (((scope_heap s)(a := ac)) x)" for x
    using that ac(1) D(4) by (simp split: if_splits)
  moreover have "\<not> ac_closed (((scope_heap s)(a := ac)) x)" if "x \<in> set (scope_connections s)" for x
    using that ac(2) D(3) [of x] by (cases "x = a") simp_all
  moreover have "((scope_heap s)(a := ac)) x = no_conn" if "scope_next s \<le> x" for x
    using that ac(3) D(9) by simp
  moreover have "scope_startups ?s \<le> scope_startups s" by simp
  ultimately show ?thesis using n D(1,2,6,7,8) unfolding scope_inv_def
    by (simp only: serveContext.simps) force
qed

lemma inv_updateConnection: "scope_inv s \<Longrightarrow> scope_inv (snd (updateConnection a conn s))"
  by (auto simp: updateConnection_def intro!: inv_heap) (auto simp: scope_live_def)

lemma inv_updateCancel: "scope_inv s \<Longrightarrow> scope_inv (snd (updateCancel a s))"
  by (auto simp: updateCancel_def intro!: inv_heap) (auto simp: scope_live_def)

lemma inv_releaseStartup:
  assumes "scope_inv s"
  shows "scope_inv (releaseStartup a s)"
proof -
  let ?ac = "(scope_heap s a)\<lparr>ac_handshaking := False, ac_startupReserved := False\<rparr>"
  have "releaseStartup a s = s\<lparr>scope_heap := (scope_heap s)(a := ?ac),
    scope_startups := scope_startups s - (if ac_startupReserved (scope_heap s a) then 1 else 0)\<rparr>"
    by (simp add: releaseStartup_def)
  moreover have "scope_heap s a = no_conn \<Longrightarrow> ?ac = no_conn" by (simp add: no_conn_def)
  ultimately show ?thesis using inv_clear [OF assms, of ?ac a] by simp
qed

lemma inv_untrackDelete:
  assumes inv: "scope_inv s" and free: "\<not> ac_startupReserved (scope_heap s a)"
  shows "scope_inv (untrackDelete a s)"
proof -
  let ?r = "removeAll a (scope_connections s)"
  note D = scope_invD [OF inv]
  have m: "x \<in> set ?r" if "ac_startupReserved (scope_heap s x)" for x
    using that free D(4) [of x] by auto
  have "scope_inv (s\<lparr>scope_connections := ?r, scope_drained := scope_stopping s \<and> ?r = []\<rparr>)"
    using D reserved_in_removeAll [of "scope_heap s" a "scope_connections s", OF free] m
    unfolding scope_inv_def by (simp add: distinct_removeAll)
  moreover have "untrackDelete a s = s\<lparr>scope_connections := ?r, scope_drained := scope_stopping s \<and> ?r = []\<rparr>"
    using D(7) by (cases "scope_drained s")
      (auto simp: untrackDelete_def maybeCloseDrainedLocked_def intro!: serveContext.equality)
  ultimately show ?thesis by simp
qed

lemma stopAccepting_state:
  "scope_connections (snd (stopAccepting s)) = scope_connections s"
  "scope_heap (snd (stopAccepting s)) = scope_heap s"
  "scope_stopping (snd (stopAccepting s))"
  "scope_forced (snd (stopAccepting s)) = scope_forced s"
  by (auto simp: stopAccepting_def scope_closeListener_def maybeCloseDrainedLocked_def Let_def
      split: option.splits)

lemma inv_stopAccepting: "scope_inv s \<Longrightarrow> scope_inv (snd (stopAccepting s))"
  by (auto simp: stopAccepting_def scope_closeListener_def maybeCloseDrainedLocked_def Let_def
      scope_inv_def split: option.splits)

text \<open>The loop of \<open>force\<close>: what it leaves, whatever the order of its visits.\<close>

definition marked :: "gerr \<Rightarrow> activeConn \<Rightarrow> activeConn" where
  "marked cause ac = ac\<lparr>ac_closed := True, ac_closeCause := Some cause, ac_startupReserved := False\<rparr>"

definition cleanup_of :: "serveContext \<Rightarrow> nat \<Rightarrow> connectionCleanup" where
  "cleanup_of s a = \<lparr>cu_active = a, cu_cancel = ac_cancel (scope_heap s a),
     cu_transports = ac_transports (scope_heap s a)\<rparr>"

lemma force_mark_loop:
  assumes "distinct order"
  shows "fold (force_mark cause) order (s, n, cus) =
    (s\<lparr>scope_heap := (\<lambda>a. if a \<in> set order then marked cause (scope_heap s a) else scope_heap s a),
       scope_connections := filter (\<lambda>a. a \<notin> set order) (scope_connections s)\<rparr>,
     n + int (length (reserved_in (scope_heap s) order)), cus @ map (cleanup_of s) order)"
  using assms
proof (induction order arbitrary: s n cus)
  case Nil
  then show ?case by simp
next
  case (Cons a order)
  then have a: "a \<notin> set order" and d: "distinct order" by auto
  obtain s1 n1 c1 where m: "force_mark cause a (s, n, cus) = (s1, n1, c1)"
    by (metis prod_cases3)
  then have s1: "s1 = s\<lparr>scope_heap := (scope_heap s)(a := marked cause (scope_heap s a)),
      scope_connections := removeAll a (scope_connections s)\<rparr>"
    and n1: "n1 = n + (if ac_startupReserved (scope_heap s a) then 1 else 0)"
    and c1: "c1 = cus @ [cleanup_of s a]"
    by (auto simp: force_mark_def Let_def marked_def cleanup_of_def)
  have "map (cleanup_of s1) order = map (cleanup_of s) order"
    using a by (auto simp: s1 cleanup_of_def)
  moreover have "reserved_in (scope_heap s1) order = reserved_in (scope_heap s) order"
    using a by (simp add: s1 reserved_in_other)
  moreover have "s1\<lparr>scope_heap := \<lambda>x. if x \<in> set order then marked cause (scope_heap s1 x) else scope_heap s1 x,
       scope_connections := filter (\<lambda>x. x \<notin> set order) (scope_connections s1)\<rparr>
    = s\<lparr>scope_heap := \<lambda>x. if x \<in> set (a # order) then marked cause (scope_heap s x) else scope_heap s x,
       scope_connections := filter (\<lambda>x. x \<notin> set (a # order)) (scope_connections s)\<rparr>"
    using a by (auto simp: s1 fun_eq_iff removeAll_filter_not_eq conj_commute
        intro!: filter_cong serveContext.equality)
  ultimately show ?case
    using Cons.IH [OF d, of s1 n1 c1] m n1 c1 by simp
qed

lemma force_locked_state:
  assumes "distinct order" "set order = set (scope_connections s)" "\<not> scope_forced s" "scope_stopping s"
  shows "force_locked cause order s = (Some (map (cleanup_of s) order),
    s\<lparr>scope_forced := True, scope_connections := [], scope_drained := True,
      scope_heap := (\<lambda>a. if a \<in> set order then marked cause (scope_heap s a) else scope_heap s a),
      scope_startups := scope_startups s - int (length (reserved_in (scope_heap s) order))\<rparr>)"
proof -
  have "filter (\<lambda>a. a \<notin> set order) (scope_connections s) = []"
    using assms(2) by (simp add: filter_empty_conv)
  moreover have "cleanup_of (s\<lparr>scope_forced := True\<rparr>) = cleanup_of s"
    by (simp add: cleanup_of_def fun_eq_iff)
  ultimately show ?thesis
    using assms by (simp add: force_locked_def force_mark_loop maybeCloseDrainedLocked_def cong: if_cong)
qed

lemma reserved_in_length:
  assumes "distinct xs" "distinct ys" "set xs = set ys"
  shows "length (reserved_in h xs) = length (reserved_in h ys)"
proof -
  have "card (set (reserved_in h xs)) = length (reserved_in h xs)"
    by (rule distinct_card) (simp add: reserved_in_def assms)
  moreover have "card (set (reserved_in h ys)) = length (reserved_in h ys)"
    by (rule distinct_card) (simp add: reserved_in_def assms)
  moreover have "set (reserved_in h xs) = set (reserved_in h ys)"
    using assms by (simp add: reserved_in_def)
  ultimately show ?thesis by metis
qed

lemma inv_force_locked:
  assumes "scope_inv s" "scope_stopping s" "distinct order" "set order = set (scope_connections s)"
  shows "scope_inv (snd (force_locked cause order s))"
proof (cases "scope_forced s")
  case True
  then show ?thesis using assms(1) by (simp add: force_locked_def)
next
  case False
  have "length (reserved_in (scope_heap s) order) = length (reserved_in (scope_heap s) (scope_connections s))"
    using assms by (intro reserved_in_length) (auto simp: scope_inv_def)
  moreover note D = scope_invD [OF assms(1)]
  ultimately have n: "scope_startups s = int (length (reserved_in (scope_heap s) order))" by simp
  have "\<not> ac_startupReserved (if x \<in> set order then marked cause (scope_heap s x) else scope_heap s x)" for x
    using D(4) [of x] assms(4) by (auto simp: marked_def)
  moreover have "(if x \<in> set order then marked cause (scope_heap s x) else scope_heap s x) = no_conn"
    if "scope_next s \<le> x" for x
    using that D(2) [of x] D(9) [of x] assms(4) by auto
  ultimately show ?thesis
    using assms(2) n
    unfolding force_locked_state [OF assms(3,4) False assms(2)] snd_conv scope_inv_def
    by simp
qed

lemma inv_step:
  assumes "scope_step s s'" "scope_inv s"
  shows "scope_inv s'"
  using assms
proof cases
  case (step_track conn now rnd)
  show ?thesis unfolding step_track by (rule inv_track) (rule assms(2))
next
  case (step_updateConnection active conn)
  show ?thesis unfolding step_updateConnection by (rule inv_updateConnection) (rule assms(2))
next
  case (step_updateCancel active)
  show ?thesis unfolding step_updateCancel by (rule inv_updateCancel) (rule assms(2))
next
  case (step_releaseStartup active)
  show ?thesis unfolding step_releaseStartup by (rule inv_releaseStartup) (rule assms(2))
next
  case (step_untrackDelete active)
  show ?thesis unfolding step_untrackDelete(1) by (rule inv_untrackDelete) (rule assms(2), rule step_untrackDelete(2))
next
  case step_stopAccepting
  show ?thesis unfolding step_stopAccepting by (rule inv_stopAccepting) (rule assms(2))
next
  case (step_force order cause)
  show ?thesis unfolding step_force(1) by (rule inv_force_locked [OF assms(2) step_force(2,3,4)])
qed

lemma inv_reach: "scope_reach s \<Longrightarrow> scope_inv s"
  by (induction rule: scope_reach.induct) (rule inv_new, rule inv_step)


section \<open>What a forced shutdown does\<close>

lemma force_cleanup_eq:
  "force_cleanup closeErr cause cus (r, s) =
    (fst (force_cleanup closeErr cause cus (r, s)),
     s\<lparr>scope_trace := scope_trace s @ concat (map (cleanup_effects cause) cus)\<rparr>)"
proof (induction cus arbitrary: r s)
  case Nil
  then show ?case by simp
next
  case (Cons cu cus)
  show ?case
    by (subst Cons.IH [of "close_transports closeErr (rev (cu_transports cu)) r"
        "s\<lparr>scope_trace := scope_trace s @ cleanup_effects cause cu\<rparr>", simplified force_cleanup.simps [symmetric]])
      (simp)
qed

definition any_order :: "(serveContext \<Rightarrow> nat list) \<Rightarrow> bool" where
  "any_order order \<longleftrightarrow> (\<forall>s. distinct (scope_connections s) \<longrightarrow>
     distinct (order s) \<and> set (order s) = set (scope_connections s))"

lemma scope_inv_trace [simp]: "scope_inv (s\<lparr>scope_trace := tr\<rparr>) = scope_inv s"
  by (simp add: scope_inv_def)

lemma any_order_stopAccepting:
  "any_order order \<Longrightarrow> distinct (scope_connections s) \<Longrightarrow>
   distinct (order (snd (stopAccepting s))) \<and>
   set (order (snd (stopAccepting s))) = set (scope_connections (snd (stopAccepting s)))"
  by (simp add: any_order_def stopAccepting_state(1))

lemma force_via_locked:
  assumes "any_order order" "distinct (scope_connections s)" "\<not> scope_forced s"
  defines "s1 \<equiv> snd (stopAccepting s)"
  shows "snd (force closeErr cause order s) = (snd (force_locked cause (order s1) s1))
    \<lparr>scope_trace := scope_trace s1 @ concat (map (cleanup_effects cause \<circ> cleanup_of s) (order s1))\<rparr>"
proof -
  obtain le s' where st: "stopAccepting s = (le, s')" by fastforce
  then have s': "s' = s1" by (simp add: s1_def)
  note S = stopAccepting_state [of s, folded s1_def]
  have o: "distinct (order s1)" "set (order s1) = set (scope_connections s1)"
    using any_order_stopAccepting [OF assms(1,2)] by (simp_all add: s1_def)
  have c: "cleanup_of s1 = cleanup_of s" by (simp add: cleanup_of_def S(2) fun_eq_iff)
  let ?s2 = "snd (force_locked cause (order s1) s1)"
  note L = force_locked_state [OF o, of cause]
  have l: "force_locked cause (order s1) s1 = (Some (map (cleanup_of s) (order s1)), ?s2)"
    using L assms(3) S c by simp
  have tr: "scope_trace ?s2 = scope_trace s1" using L assms(3) S by simp
  obtain r s3 where f: "force_cleanup closeErr cause (map (cleanup_of s) (order s1)) (None, ?s2) = (r, s3)"
    by fastforce
  then have "s3 = ?s2\<lparr>scope_trace := scope_trace s1 @ concat (map (cleanup_effects cause) (map (cleanup_of s) (order s1)))\<rparr>"
    using force_cleanup_eq [of closeErr cause "map (cleanup_of s) (order s1)" None ?s2] tr by simp
  moreover have "snd (force closeErr cause order s) = s3"
    unfolding force_def st s' prod.case by (subst l) (simp add: f)
  ultimately show ?thesis by simp
qed

lemma force_first:
  assumes "any_order order" "distinct (scope_connections s)" "\<not> scope_forced s"
  defines "s1 \<equiv> snd (stopAccepting s)"
  shows "snd (force closeErr cause order s) = s1\<lparr>scope_forced := True, scope_connections := [], scope_drained := True,
      scope_heap := (\<lambda>a. if a \<in> set (scope_connections s) then marked cause (scope_heap s a) else scope_heap s a),
      scope_startups := scope_startups s1 - int (length (reserved_in (scope_heap s) (order s1))),
      scope_trace := scope_trace s1 @ concat (map (cleanup_effects cause \<circ> cleanup_of s) (order s1))\<rparr>"
proof -
  note S = stopAccepting_state [of s, folded s1_def]
  have o: "distinct (order s1)" "set (order s1) = set (scope_connections s1)"
    using any_order_stopAccepting [OF assms(1,2)] by (simp_all add: s1_def)
  show ?thesis
    using force_locked_state [OF o, of cause] assms(3) S o(2)
      force_via_locked [OF assms(1-3), of closeErr cause, folded s1_def]
    by (simp cong: if_cong)
qed

lemma stopAccepting_again: "scope_stopping s \<Longrightarrow> scope_drained s = (scope_connections s = []) \<Longrightarrow>
   scope_listenerClosed s \<noteq> None \<Longrightarrow> snd (stopAccepting s) = s"
  by (auto simp: stopAccepting_def maybeCloseDrainedLocked_def scope_closeListener_def intro!: serveContext.equality)

lemma stopAccepting_closed: "scope_listenerClosed (snd (stopAccepting s)) \<noteq> None"
  by (auto simp: stopAccepting_def scope_closeListener_def Let_def split: option.splits)

lemma stopAccepting_more:
  "scope_startups (snd (stopAccepting s)) = scope_startups s"
  "scope_next (snd (stopAccepting s)) = scope_next s"
  "scope_maxStartups (snd (stopAccepting s)) = scope_maxStartups s"
  "\<exists>l. scope_trace (snd (stopAccepting s)) = scope_trace s @ l \<and> set l \<subseteq> {CloseListener}"
  by (auto simp: stopAccepting_def scope_closeListener_def maybeCloseDrainedLocked_def Let_def
      split: option.splits)

lemma force_forced:
  assumes "scope_forced s"
  shows "force closeErr cause order s = stopAccepting s"
  using assms stopAccepting_state(4) [of s]
  by (auto simp: force_def force_locked_def split: prod.splits)

lemma inv_force:
  assumes "scope_inv s" "any_order order"
  shows "scope_inv (snd (force closeErr cause order s)) \<and> scope_connections (snd (force closeErr cause order s)) = []
    \<and> scope_forced (snd (force closeErr cause order s)) \<and> scope_stopping (snd (force closeErr cause order s))"
proof (cases "scope_forced s")
  case True
  then show ?thesis
    using inv_stopAccepting [OF assms(1)] stopAccepting_state [of s] scope_invD(8) [OF assms(1)]
    by (simp add: force_forced)
next
  case False
  let ?s1 = "snd (stopAccepting s)"
  have d: "distinct (scope_connections s)" using scope_invD(1) [OF assms(1)] .
  note S = stopAccepting_state [of s]
  have o: "distinct (order ?s1)" "set (order ?s1) = set (scope_connections ?s1)"
    using assms(2) d S(1) by (auto simp: any_order_def)
  have "scope_inv (snd (force_locked cause (order ?s1) ?s1))"
    by (rule inv_force_locked [OF inv_stopAccepting [OF assms(1)] S(3) o])
  then have "scope_inv (snd (force closeErr cause order s))"
    by (simp add: force_via_locked [OF assms(2) d False])
  then show ?thesis
    using S(3) by (simp add: force_first [OF assms(2) d False])
qed


section \<open>Properties\<close>

text \<open>
  C25. In every state the scope can reach, under any interleaving of its methods' atomic sections:
  the counter of unauthenticated connections is exactly the number of tracked connections that
  hold a startup slot and never exceeds \<open>MaxStartups.Full\<close> (when that is positive); no closed
  connection is tracked, and no dropped one holds a slot; the drained channel is closed exactly
  when accepting has stopped and no connection is left; after a forced stop none is tracked.
\<close>

theorem scope_accounting:
  assumes "scope_reach s"
  shows "scope_startups s = int (card {a. ac_startupReserved (scope_heap s a)})
     \<and> {a. ac_startupReserved (scope_heap s a)} \<subseteq> set (scope_connections s)
     \<and> (if 0 < Full (scope_maxStartups s) then scope_startups s \<le> Full (scope_maxStartups s) else True)
     \<and> {a. ac_closed (scope_heap s a)} \<inter> set (scope_connections s) = {}
     \<and> scope_drained s = (scope_stopping s \<and> scope_connections s = [])
     \<and> (if scope_forced s then scope_stopping s \<and> scope_connections s = [] else True)"
proof -
  note D = scope_invD [OF inv_reach [OF assms]]
  have "set (reserved_in (scope_heap s) (scope_connections s)) = {a. ac_startupReserved (scope_heap s a)}"
    using D(4) by (auto simp: reserved_in_def)
  moreover have "distinct (reserved_in (scope_heap s) (scope_connections s))"
    using D(1) by (simp add: reserved_in_def)
  ultimately have "scope_startups s = int (card {a. ac_startupReserved (scope_heap s a)})"
    using D(5) by (metis distinct_card)
  then show ?thesis using D by auto
qed

definition scope_example :: serveContext where
  "scope_example = snd (trackConnection 7 0 50 (snd (trackConnection 5 0 50
     (newServeContext (Some \<lparr>Start = 1, Rate = 30, Full = 2\<rparr>) None))))"

lemma scope_example_reach: "scope_reach scope_example"
  unfolding scope_example_def by (intro reach_step [OF _ step_track] reach_new)

lemma scope_example_conns: "scope_connections scope_example = [1, 0]" "\<not> scope_forced scope_example"
  "scope_maxStartups scope_example = \<lparr>Start = 1, Rate = 30, Full = 2\<rparr>"
  by (simp_all add: scope_example_def newServeContext_def trackConnection_def effectiveMaxStartups_def
      maxStartupsDropRate_def go_div_def int64_def Let_def)

lemma scope_accounting_witness:
  "scope_startups scope_example = int (card {a. ac_startupReserved (scope_heap scope_example a)})
   \<and> 0 < Full (scope_maxStartups scope_example) \<and> scope_connections scope_example = [1, 0]"
  using scope_accounting [OF scope_example_reach] scope_example_conns by simp

text \<open>
  C26. The first forced stop of a reachable scope, whatever order the map of connections is visited
  in: every tracked connection gets the cause, is canceled with it when it has a cancel
  function, has its transports closed last to first and its resources released exactly once,
  and can neither change its transport nor its cancel function any more; the scope is drained,
  holds no startup slot, and forcing it again changes nothing.
\<close>

theorem force_stops_every_connection:
  fixes cause cause2 :: gerr and closeErr :: "nat \<Rightarrow> gerr option"
  assumes "scope_reach s" "\<not> scope_forced s" "any_order order" "a \<in> set (scope_connections s)"
  defines "s' \<equiv> snd (force closeErr cause order s)"
  shows "connectionCause a s' = Some cause
     \<and> (\<exists>before after. scope_trace s' = scope_trace s @ before @
          (if ac_cancel (scope_heap s a) then [CancelConn a cause] else [])
          @ map CloseTransport (rev (ac_transports (scope_heap s a))) @ [CloseResources a] @ after
          \<and> CloseResources a \<notin> set before \<and> CloseResources a \<notin> set after)
     \<and> updateConnection a conn s' = (False, s') \<and> updateCancel a s' = (False, s')
     \<and> scope_drained s' \<and> scope_connections s' = [] \<and> scope_startups s' = 0
     \<and> snd (force closeErr cause2 order s') = s'"
proof -
  note inv = inv_reach [OF assms(1)]
  note D = scope_invD [OF inv]
  let ?s1 = "snd (stopAccepting s)"
  note F = force_first [OF assms(3) D(1) assms(2), of closeErr cause, folded s'_def]
  have o: "distinct (order ?s1)" "set (order ?s1) = set (scope_connections s)"
    using any_order_stopAccepting [OF assms(3) D(1)] by (simp_all add: stopAccepting_state)
  note I = inv_force [OF inv assms(3), of closeErr cause, folded s'_def]
  obtain xs ys where sp: "order ?s1 = xs @ a # ys" using assms(4) o(2) by (metis split_list)
  then have no: "a \<notin> set xs" "a \<notin> set ys" using o(1) by auto
  obtain l where l: "scope_trace ?s1 = scope_trace s @ l" "set l \<subseteq> {CloseListener}"
    using stopAccepting_more(4) by blast
  let ?eff = "\<lambda>zs. concat (map (cleanup_effects cause \<circ> cleanup_of s) zs)"
  have res: "CloseResources a \<notin> set (?eff zs)" if "a \<notin> set zs" for zs
    using that by (auto simp: cleanup_effects_def cleanup_of_def split: if_splits)
  have ex: "\<exists>before after. scope_trace s' = scope_trace s @ before @
      (if ac_cancel (scope_heap s a) then [CancelConn a cause] else [])
      @ map CloseTransport (rev (ac_transports (scope_heap s a))) @ [CloseResources a] @ after
      \<and> CloseResources a \<notin> set before \<and> CloseResources a \<notin> set after"
  proof (intro exI conjI)
    show "scope_trace s' = scope_trace s @ (l @ ?eff xs) @
      (if ac_cancel (scope_heap s a) then [CancelConn a cause] else [])
      @ map CloseTransport (rev (ac_transports (scope_heap s a))) @ [CloseResources a] @ ?eff ys"
      using F l(1) sp by (simp add: cleanup_effects_def cleanup_of_def)
    show "CloseResources a \<notin> set (l @ ?eff xs)" using res [OF no(1)] l(2) by auto
    show "CloseResources a \<notin> set (?eff ys)" by (rule res [OF no(2)])
  qed
  have "connectionCause a s' = Some cause"
    using F assms(4) by (simp add: connectionCause_def marked_def)
  moreover have "scope_startups s' = 0" "scope_drained s'"
    using scope_invD(5,7) [of s'] I by simp_all
  moreover have "snd (force closeErr cause2 order s') = s'"
  proof -
    have "scope_listenerClosed s' \<noteq> None" using F stopAccepting_closed [of s] by simp
    then show ?thesis using I scope_invD(7) [of s']
      by (simp add: force_forced stopAccepting_again)
  qed
  ultimately show ?thesis
    using I ex by (simp add: updateConnection_def updateCancel_def scope_live_def)
qed

lemma any_order_self: "any_order scope_connections"
  by (simp add: any_order_def)

lemma force_stops_every_connection_witness:
  "connectionCause 1 (snd (force (\<lambda>_. None) (Var ContextCanceled) scope_connections scope_example))
     = Some (Var ContextCanceled)"
proof -
  have "1 \<in> set (scope_connections scope_example)" by (simp add: scope_example_conns)
  from force_stops_every_connection [OF scope_example_reach scope_example_conns(2) any_order_self this]
  show ?thesis by blast
qed

text \<open>What the wait of \<open>shutdown\<close> can be: any steps of the scope; the drained channel wins only when closed.\<close>

definition fair_wait :: "(serveContext \<Rightarrow> bool \<times> serveContext) \<Rightarrow> bool" where
  "fair_wait wait \<longleftrightarrow> (\<forall>s. scope_step\<^sup>*\<^sup>* s (snd (wait s)) \<and> (fst (wait s) \<longrightarrow> scope_drained (snd (wait s))))"

interpretation scope: step_invariant scope_step scope_inv
  by unfold_locales (rule inv_step)

lemmas inv_steps = scope.steps_keep

lemma force_locked_stopping:
  "distinct order \<Longrightarrow> set order = set (scope_connections s) \<Longrightarrow> scope_stopping s \<Longrightarrow>
   scope_stopping (snd (force_locked cause order s))"
  by (cases "scope_forced s") (simp_all add: force_locked_state, simp add: force_locked_def)

lemma stopping_step: "scope_step s s' \<Longrightarrow> scope_stopping s \<Longrightarrow> scope_stopping s'"
  by (induction rule: scope_step.induct)
    (auto simp: trackConnection_def updateConnection_def updateCancel_def releaseStartup_def Let_def
      untrackDelete_def maybeCloseDrainedLocked_def stopAccepting_state force_locked_stopping)

interpretation stopping: step_invariant scope_step scope_stopping
  by unfold_locales (rule stopping_step)

lemmas stopping_steps = stopping.steps_keep

lemma inv_empty: "scope_inv s \<Longrightarrow> scope_connections s = [] \<Longrightarrow> scope_startups s = 0"
  using scope_invD(5) [of s] by simp

text \<open>The state a forced stop leaves, and the three ways \<open>shutdown\<close> ends.\<close>

definition stopped :: "serveContext \<Rightarrow> bool" where
  "stopped s \<longleftrightarrow> scope_connections s = [] \<and> scope_stopping s \<and> scope_startups s = 0"

lemma force_result:
  assumes "scope_inv s" "any_order order"
  obtains fe s' where "force closeErr c order s = (fe, s')" "stopped s'" "scope_forced s'"
  using inv_force [OF assms, of closeErr c] inv_empty
  by (cases "force closeErr c order s") (auto simp: stopped_def)

lemma Join_first: "\<exists>j. errors_Join (Some c # es) = Some j \<and> (\<forall>t. errors_Is c t \<longrightarrow> errors_Is j t)"
  by (simp add: errors_Join_def List.map_filter_def)

lemma shutdown_now:
  assumes "stopAccepting s = (le, s1)" "period \<le> 0"
    and "force closeErr c order s1 = (fe, s3)" "c = (case ctxCause of Some c \<Rightarrow> c | None \<Rightarrow> Var ContextCanceled)"
    and "graceful = None \<or> graceful = Some (period, None)"
  shows "shutdown closeErr order ctxCause graceful wait s = (errors_Join [Some c, fe], s3)"
  using assms by (auto simp: shutdown_def Let_def)

lemma shutdown_handler_error:
  assumes "stopAccepting s = (le, s1)"
    and "force closeErr (JoinErr [c, h]) order s1 = (fe, s3)" "c = (case ctxCause of Some c \<Rightarrow> c | None \<Rightarrow> Var ContextCanceled)"
  shows "shutdown closeErr order ctxCause (Some (period, Some h)) wait s = (errors_Join [Some (JoinErr [c, h]), le, fe], s3)"
  using assms by (simp add: shutdown_def Let_def)

lemma shutdown_drained:
  assumes "stopAccepting s = (le, s1)" "0 < period" "wait s1 = (d, s2)" "scope_connections s2 = []"
    and "c = (case ctxCause of Some c \<Rightarrow> c | None \<Rightarrow> Var ContextCanceled)"
  shows "shutdown closeErr order ctxCause (Some (period, None)) wait s = (errors_Join [Some c, le], s2)"
  using assms by (simp add: shutdown_def Let_def)

lemma shutdown_timeout:
  assumes "stopAccepting s = (le, s1)" "0 < period" "wait s1 = (False, s2)" "scope_connections s2 \<noteq> []"
    and "c = (case ctxCause of Some c \<Rightarrow> c | None \<Rightarrow> Var ContextCanceled)"
    and "force closeErr (JoinErr [c, Var ErrGracefulShutdownTimeout]) order s2 = (fe, s3)"
  shows "shutdown closeErr order ctxCause (Some (period, None)) wait s
    = (errors_Join [Some (JoinErr [c, Var ErrGracefulShutdownTimeout]), fe], s3)"
  using assms by (simp add: shutdown_def Let_def)

text \<open>Both phases of a shutdown, up to the choice between its ends.\<close>

lemma stop_and_wait:
  assumes "scope_reach s" "fair_wait wait"
  obtains le s1 d s2 where "stopAccepting s = (le, s1)" "wait s1 = (d, s2)" "scope_inv s1" "scope_inv s2" "scope_stopping s2"
    "d \<longrightarrow> scope_connections s2 = []"
proof -
  obtain le s1 d s2 where st: "stopAccepting s = (le, s1)" and w: "wait s1 = (d, s2)" by fastforce
  then have s1: "s1 = snd (stopAccepting s)" by simp
  have i1: "scope_inv s1" unfolding s1 by (rule inv_stopAccepting [OF inv_reach [OF assms(1)]])
  have p1: "scope_stopping s1" unfolding s1 by (rule stopAccepting_state)
  have stp: "scope_step\<^sup>*\<^sup>* s1 s2" "d \<Longrightarrow> scope_drained s2"
    using assms(2) w by (auto simp: fair_wait_def dest: spec [of _ s1])
  have i2: "scope_inv s2" by (rule inv_steps [OF stp(1) i1])
  with that [OF st w i1 i2 stopping_steps [OF stp(1) p1]] stp(2) scope_invD(7) [OF i2] show thesis by simp
qed

text \<open>
  C27. \<open>shutdown\<close> returns with accepting stopped, no connection tracked and no startup slot held,
  whatever the connections do while it waits, and its error wraps the cause. Without a graceful
  handler, or with a period that is not positive, or when the handler fails (its error is
  returned too), the scope is forced. With a positive period the scope is forced, with
  \<open>ErrGracefulShutdownTimeout\<close> in the result, exactly when connections are left after the wait;
  otherwise shutdown leaves the scope as the wait left it.
\<close>

theorem shutdown_outcome:
  fixes closeErr :: "nat \<Rightarrow> gerr option"
  assumes "scope_reach s" "any_order order" "fair_wait wait"
  shows "case shutdown closeErr order ctxCause graceful wait s of (res, s') \<Rightarrow>
    scope_connections s' = [] \<and> scope_stopping s' \<and> scope_startups s' = 0
    \<and> (\<exists>e. res = Some e \<and> errors_Is e (case ctxCause of Some c \<Rightarrow> c | None \<Rightarrow> Var ContextCanceled)
      \<and> (case graceful of
           None \<Rightarrow> scope_forced s'
         | Some (period, Some h) \<Rightarrow> scope_forced s' \<and> errors_Is e h
         | Some (period, None) \<Rightarrow>
             if period \<le> 0 then scope_forced s'
             else let s2 = snd (wait (snd (stopAccepting s)))
                  in if scope_connections s2 = [] then s' = s2
                     else scope_forced s' \<and> errors_Is e (Var ErrGracefulShutdownTimeout)))"
proof -
  obtain le s1 d s2 where st: "stopAccepting s = (le, s1)" and w: "wait s1 = (d, s2)"
    and i1: "scope_inv s1" and i2: "scope_inv s2" and p2: "scope_stopping s2" and d2: "d \<longrightarrow> scope_connections s2 = []"
    by (rule stop_and_wait [OF assms(1,3)])
  have s1: "s1 = snd (stopAccepting s)" by (simp add: st)
  define c where c: "c = (case ctxCause of Some c \<Rightarrow> c | None \<Rightarrow> Var ContextCanceled)"
  obtain period herr where g: "graceful = None \<and> period = 0 \<and> herr = None \<or> graceful = Some (period, herr)"
    by (metis option.exhaust surj_pair)
  consider (now) "period \<le> 0" "herr = None" | (handler) h where "herr = Some h"
    | (drained) "0 < period" "herr = None" "scope_connections s2 = []"
    | (timeout) "0 < period" "herr = None" "scope_connections s2 \<noteq> []" "\<not> d"
    using d2 by fastforce
  then show ?thesis
  proof cases
    case now
    obtain fe s3 where f: "force closeErr c order s1 = (fe, s3)" "stopped s3" "scope_forced s3"
      by (rule force_result [OF i1 assms(2)])
    have g': "graceful = None \<or> graceful = Some (period, None)" using g now by auto
    show ?thesis using shutdown_now [OF st now(1) f(1) c g'] Join_first [of c "[fe]"] g' f(2,3) now
      by (auto simp: stopped_def c [symmetric])
  next
    case handler
    obtain fe s3 where f: "force closeErr (JoinErr [c, h]) order s1 = (fe, s3)" "stopped s3" "scope_forced s3"
      by (rule force_result [OF i1 assms(2)])
    have g': "graceful = Some (period, Some h)" using g handler by auto
    show ?thesis using shutdown_handler_error [OF st f(1) c] Join_first [of "JoinErr [c, h]" "[le, fe]"] g' f(2,3)
      by (auto simp: stopped_def c [symmetric])
  next
    case drained
    have g': "graceful = Some (period, None)" using g drained by auto
    show ?thesis using shutdown_drained [where wait = wait, OF st drained(1) w drained(3) c] Join_first [of c "[le]"] g' drained p2
        inv_empty [OF i2] w s1
      by (auto simp: c [symmetric])
  next
    case timeout
    let ?f = "JoinErr [c, Var ErrGracefulShutdownTimeout]"
    obtain fe s3 where f: "force closeErr ?f order s2 = (fe, s3)" "stopped s3" "scope_forced s3"
      by (rule force_result [OF i2 assms(2)])
    have g': "graceful = Some (period, None)" and w': "wait s1 = (False, s2)" using g timeout w by auto
    show ?thesis using shutdown_timeout [where wait = wait, OF st timeout(1) w' timeout(3) c f(1)] Join_first [of ?f "[fe]"] g' f(2,3)
        timeout w s1
      by (auto simp: stopped_def c [symmetric])
  qed
qed

lemma shutdown_outcome_witness:
  "scope_connections (snd (shutdown (\<lambda>_. None) scope_connections None (Some (5, None)) (\<lambda>s. (False, s)) scope_example)) = []"
proof -
  have "fair_wait (\<lambda>s. (False, s))" by (simp add: fair_wait_def)
  from shutdown_outcome [OF scope_example_reach any_order_self this, of None "Some (5, None)" "\<lambda>_. None"]
  show ?thesis by (simp split: prod.splits)
qed

end
