(* ===== verification/World.thy ===== *)
theory World
  imports GoErrors "HOL-Library.State_Monad"
begin

text \<open>
  The outside world of the components that talk to it: the SSH connection and its channels, the
  log, the peers of forwarded connections. Every call that leaves the code is an \<open>effect\<close>; it is
  recorded in the trace together with the error it returned. What it returns is the choice of
  the environment \<open>w_env\<close>, an arbitrary function of the trace so far, so a theorem about all
  worlds is a theorem about every behaviour of the peer. Code that has effects is a
  \<open>State_Monad\<close> program over a record that extends \<open>world\<close> with the component's own state.
\<close>

section \<open>Effects\<close>

text \<open>
  Requests, channels and transports are numbered by their creator. \<open>Reply\<close> is \<open>Request.Reply\<close>
  (the request, whether it is accepted, the payload). \<open>CtxCause\<close> asks for \<open>context.Cause\<close> of the
  connection's context, nil when it is not canceled.
\<close>

datatype effect =
    LogFailed uint8 uint8 gerr
  | LogEscalate gerr "gerr option" uint8 uint8
  | RunCloser
  | CloseConn
  | CtxCause
  | Reply nat bool bytes
  | ChannelWrite nat bytes
  | StderrWrite nat bytes
  | ChannelCloseWrite nat
  | ChannelClose nat
  | SendExitStatus nat uint32
  | AcceptChannel nat
  | RejectChannel nat uint32 string
  | DiscardRequests nat
  | OpenChannel nat string bytes
  | Dial string string
  | ListenerClose nat
  | SocketRead nat
  | SocketWrite nat bytes
  | SocketCloseWrite nat
  | SocketClose nat
  | SetTimeout
  | StopTimeout
  | UserCall nat

type_synonym event = "effect \<times> gerr option"

record world =
  w_trace :: "event list"
  w_env :: "event list \<Rightarrow> effect \<Rightarrow> gerr option"

definition perform :: "effect \<Rightarrow> ('a world_scheme, gerr option) state" where
  "perform e = State (\<lambda>w. let r = w_env w (w_trace w) e in (r, w\<lparr>w_trace := w_trace w @ [(e, r)]\<rparr>))"

text \<open>An effect whose result the code ignores, and one that has none.\<close>

definition emit :: "effect \<Rightarrow> ('a world_scheme, unit) state" where
  "emit e = do { _ \<leftarrow> perform e; State_Monad.return () }"

definition only_if :: "bool \<Rightarrow> ('s, unit) state \<Rightarrow> ('s, unit) state" where
  "only_if b m = (if b then m else State_Monad.return ())"

definition gets :: "('s \<Rightarrow> 'a) \<Rightarrow> ('s, 'a) state" where
  "gets f = State (\<lambda>s. (f s, s))"

definition modify :: "('s \<Rightarrow> 's) \<Rightarrow> ('s, unit) state" where
  "modify f = State (\<lambda>s. ((), f s))"

text \<open>A program on the second component of a state.\<close>

definition on_world :: "('w, 'a) state \<Rightarrow> ('r \<times> 'w, 'a) state" where
  "on_world m = State (\<lambda>(r, w). case run_state m w of (x, w') \<Rightarrow> (x, (r, w')))"

section \<open>Running them\<close>

lemma run_perform [simp]:
  "run_state (perform e) w = (w_env w (w_trace w) e, w\<lparr>w_trace := w_trace w @ [(e, w_env w (w_trace w) e)]\<rparr>)"
  by (simp add: perform_def Let_def)

lemma run_emit [simp]:
  "run_state (emit e) w = ((), w\<lparr>w_trace := w_trace w @ [(e, w_env w (w_trace w) e)]\<rparr>)"
  by (simp add: emit_def)

lemma run_only_if [simp]: "run_state (only_if b m) s = (if b then run_state m s else ((), s))"
  by (simp add: only_if_def)

lemma run_gets [simp]: "run_state (gets f) s = (f s, s)"
  by (simp add: gets_def)

lemma run_modify [simp]: "run_state (modify f) s = ((), f s)"
  by (simp add: modify_def)

lemma run_on_world [simp]:
  "run_state (on_world m) (r, w) = (case run_state m w of (x, w') \<Rightarrow> (x, (r, w')))"
  by (simp add: on_world_def)

text \<open>The effects of a trace, and how often one of a kind occurs.\<close>

abbreviation effects :: "'a world_scheme \<Rightarrow> effect list" where
  "effects w \<equiv> map fst (w_trace w)"

definition effects_of :: "(effect \<Rightarrow> bool) \<Rightarrow> event list \<Rightarrow> effect list" where
  "effects_of P tr = filter P (map fst tr)"

lemma effects_of_append [simp]: "effects_of P (tr @ tr') = effects_of P tr @ effects_of P tr'"
  by (simp add: effects_of_def)

lemma effects_of_Nil [simp]: "effects_of P [] = []"
  by (simp add: effects_of_def)

lemma effects_of_Cons [simp]:
  "effects_of P ((e, r) # tr) = (if P e then e # effects_of P tr else effects_of P tr)"
  by (simp add: effects_of_def)

section \<open>Preconditions and postconditions\<close>

text \<open>
  \<open>valid P m Q\<close>: from a state with \<open>P\<close> the program \<open>m\<close> ends with a result and a state that satisfy
  \<open>Q\<close>. \<open>keeps I m\<close>: it keeps the invariant \<open>I\<close>. The rules take a program apart along its
  structure; every program here ends, so no separate termination claim is needed.
\<close>

definition valid :: "('s \<Rightarrow> bool) \<Rightarrow> ('s, 'a) state \<Rightarrow> ('a \<Rightarrow> 's \<Rightarrow> bool) \<Rightarrow> bool" where
  "valid P m Q \<longleftrightarrow> (\<forall>s. P s \<longrightarrow> (case run_state m s of (x, s') \<Rightarrow> Q x s'))"

definition keeps :: "('s \<Rightarrow> bool) \<Rightarrow> ('s, 'a) state \<Rightarrow> bool" where
  "keeps I m \<longleftrightarrow> (\<forall>s. I s \<longrightarrow> I (snd (run_state m s)))"

named_theorems keeps_intros
named_theorems valid_intros

lemma keepsD: "keeps I m \<Longrightarrow> I s \<Longrightarrow> run_state m s = (x, s') \<Longrightarrow> I s'"
  unfolding keeps_def by (metis snd_conv)

lemma keepsI: "(\<And>s x s'. I s \<Longrightarrow> run_state m s = (x, s') \<Longrightarrow> I s') \<Longrightarrow> keeps I m"
  unfolding keeps_def by (metis prod.collapse)

lemma validD: "valid P m Q \<Longrightarrow> P s \<Longrightarrow> run_state m s = (x, s') \<Longrightarrow> Q x s'"
  unfolding valid_def by fastforce

lemma validI: "(\<And>s x s'. P s \<Longrightarrow> run_state m s = (x, s') \<Longrightarrow> Q x s') \<Longrightarrow> valid P m Q"
  unfolding valid_def by auto

lemma keeps_valid: "keeps I m \<Longrightarrow> valid I m (\<lambda>_. I)"
  by (rule validI) (rule keepsD)

lemma valid_keeps: "valid I m (\<lambda>_. I) \<Longrightarrow> keeps I m"
  by (rule keepsI) (rule validD)

lemma keeps_return [keeps_intros]: "keeps I (State_Monad.return x)"
  by (simp add: keeps_def)

lemma keeps_bind [keeps_intros]:
  "keeps I m \<Longrightarrow> (\<And>x. keeps I (f x)) \<Longrightarrow> keeps I (State_Monad.bind m f)"
  by (rule keepsI) (auto split: prod.splits dest: keepsD)

lemma keeps_if [keeps_intros]: "(b \<Longrightarrow> keeps I m) \<Longrightarrow> (\<not> b \<Longrightarrow> keeps I n) \<Longrightarrow> keeps I (if b then m else n)"
  by simp

lemma keeps_only_if [keeps_intros]: "(b \<Longrightarrow> keeps I m) \<Longrightarrow> keeps I (only_if b m)"
  by (simp add: keeps_def)

lemma keeps_gets [keeps_intros]: "keeps I (gets f)"
  by (simp add: keeps_def)

lemma keeps_Let [keeps_intros]: "(\<And>x. keeps I (f x)) \<Longrightarrow> keeps I (Let y f)"
  by (simp add: Let_def)

lemma keeps_option [keeps_intros]:
  "(x = None \<Longrightarrow> keeps I m) \<Longrightarrow> (\<And>y. x = Some y \<Longrightarrow> keeps I (f y)) \<Longrightarrow>
   keeps I (case x of None \<Rightarrow> m | Some y \<Rightarrow> f y)"
  by (cases x) auto

lemma keeps_prod [keeps_intros]: "(\<And>a b. x = (a, b) \<Longrightarrow> keeps I (f a b)) \<Longrightarrow> keeps I (case x of (a, b) \<Rightarrow> f a b)"
  by (cases x) auto

text \<open>For nested patterns.\<close>

lemma keeps_prod2 [keeps_intros]:
  "(\<And>a b. x = (a, b) \<Longrightarrow> keeps I (f a b y)) \<Longrightarrow> keeps I ((case x of (a, b) \<Rightarrow> f a b) y)"
  by (cases x) auto

lemma keeps_sum [keeps_intros]:
  "(\<And>y. x = Inl y \<Longrightarrow> keeps I (f y)) \<Longrightarrow> (\<And>y. x = Inr y \<Longrightarrow> keeps I (g y)) \<Longrightarrow>
   keeps I (case x of Inl y \<Rightarrow> f y | Inr y \<Rightarrow> g y)"
  by (cases x) auto

lemma keeps_emit: "keeps I (perform e) \<Longrightarrow> keeps I (emit e)"
  by (simp add: keeps_def)

lemma valid_return [valid_intros]: "valid (Q x) (State_Monad.return x) Q"
  by (simp add: valid_def)

lemma valid_bind: "valid P m R \<Longrightarrow> (\<And>x. valid (R x) (f x) Q) \<Longrightarrow> valid P (State_Monad.bind m f) Q"
  by (rule validI) (auto split: prod.splits dest: validD)

lemma valid_pre: "valid P' m Q \<Longrightarrow> (\<And>s. P s \<Longrightarrow> P' s) \<Longrightarrow> valid P m Q"
  unfolding valid_def by simp

lemma valid_post: "valid P m Q' \<Longrightarrow> (\<And>x s. Q' x s \<Longrightarrow> Q x s) \<Longrightarrow> valid P m Q"
  by (rule validI) (auto dest: validD)

lemma valid_if: "(b \<Longrightarrow> valid P m Q) \<Longrightarrow> (\<not> b \<Longrightarrow> valid P n Q) \<Longrightarrow> valid P (if b then m else n) Q"
  by simp

lemma valid_option:
  "(x = None \<Longrightarrow> valid P m Q) \<Longrightarrow> (\<And>y. x = Some y \<Longrightarrow> valid P (f y) Q) \<Longrightarrow>
   valid P (case x of None \<Rightarrow> m | Some y \<Rightarrow> f y) Q"
  by (cases x) auto

lemma valid_prod: "(\<And>a b. x = (a, b) \<Longrightarrow> valid P (f a b) Q) \<Longrightarrow> valid P (case x of (a, b) \<Rightarrow> f a b) Q"
  by (cases x) auto

lemma valid_prod2: "(\<And>a b. x = (a, b) \<Longrightarrow> valid P (f a b y) Q) \<Longrightarrow> valid P ((case x of (a, b) \<Rightarrow> f a b) y) Q"
  by (cases x) auto

lemma valid_Let: "valid P (f y) Q \<Longrightarrow> valid P (Let y f) Q"
  by simp

lemma valid_gets: "valid (\<lambda>s. Q (f s) s) (gets f) Q"
  by (simp add: valid_def)

lemma valid_conj: "valid P m Q \<Longrightarrow> valid P' m Q' \<Longrightarrow> valid (\<lambda>s. P s \<and> P' s) m (\<lambda>x s. Q x s \<and> Q' x s)"
  by (rule validI) (auto dest: validD)

end
