(* ===== verification/ErrorHandling.thy ===== *)
theory ErrorHandling
  imports World TextCodec
begin

text \<open>
  \<open>error-handling.go\<close> and the slot limit of \<open>lifecycle.go\<close>: the scopes and operations of errors
  and their text, the location an error carries, the one-shot responder and next handler, and
  the dispatch of an error to the user's handler. The user's \<open>ErrorHandler\<close> is a program of
  interactions with the responder and the next handler it is given (\<open>hprog\<close>).
\<close>

section \<open>ErrorScope and ErrorOperation\<close>

abbreviation ErrorScopeServer :: uint8 where "ErrorScopeServer \<equiv> 0"
abbreviation ErrorScopeConnection :: uint8 where "ErrorScopeConnection \<equiv> 1"
abbreviation ErrorScopeRequest :: uint8 where "ErrorScopeRequest \<equiv> 2"
abbreviation ErrorScopeChannel :: uint8 where "ErrorScopeChannel \<equiv> 3"
abbreviation ErrorScopeSession :: uint8 where "ErrorScopeSession \<equiv> 4"
abbreviation ErrorScopeForwarding :: uint8 where "ErrorScopeForwarding \<equiv> 5"

abbreviation ErrorOperationAccept :: uint8 where "ErrorOperationAccept \<equiv> 0"
abbreviation ErrorOperationParse :: uint8 where "ErrorOperationParse \<equiv> 1"
abbreviation ErrorOperationHandle :: uint8 where "ErrorOperationHandle \<equiv> 2"
abbreviation ErrorOperationReply :: uint8 where "ErrorOperationReply \<equiv> 3"
abbreviation ErrorOperationHandshake :: uint8 where "ErrorOperationHandshake \<equiv> 4"
abbreviation ErrorOperationDial :: uint8 where "ErrorOperationDial \<equiv> 5"
abbreviation ErrorOperationListen :: uint8 where "ErrorOperationListen \<equiv> 6"
abbreviation ErrorOperationOpenChannel :: uint8 where "ErrorOperationOpenChannel \<equiv> 7"
abbreviation ErrorOperationForward :: uint8 where "ErrorOperationForward \<equiv> 8"

definition errorScopeNames :: "(uint8 \<times> string) list" where
  "errorScopeNames =
   [(ErrorScopeServer, ''server''), (ErrorScopeConnection, ''connection''),
    (ErrorScopeRequest, ''request''), (ErrorScopeChannel, ''channel''),
    (ErrorScopeSession, ''session''), (ErrorScopeForwarding, ''forwarding'')]"

definition errorOperationNames :: "(uint8 \<times> string) list" where
  "errorOperationNames =
   [(ErrorOperationAccept, ''accept''), (ErrorOperationParse, ''parse''),
    (ErrorOperationHandle, ''handle''), (ErrorOperationReply, ''reply''),
    (ErrorOperationHandshake, ''handshake''), (ErrorOperationDial, ''dial''),
    (ErrorOperationListen, ''listen''), (ErrorOperationOpenChannel, ''open-channel''),
    (ErrorOperationForward, ''forward'')]"

definition ErrorScope_MarshalText :: "uint8 \<Rightarrow> gerr + string" where
  "ErrorScope_MarshalText v = (case map_of errorScopeNames v of
     Some name \<Rightarrow> Inr name
   | None \<Rightarrow> Inl (Errorf ''illegal ssh error scope: %d'' [AInt (uint v)]))"

definition ErrorScope_Validate :: "uint8 \<Rightarrow> gerr option" where
  "ErrorScope_Validate v = (case ErrorScope_MarshalText v of Inl err \<Rightarrow> Some err | Inr _ \<Rightarrow> None)"

definition ErrorScope_String :: "uint8 \<Rightarrow> string" where
  "ErrorScope_String v = (case ErrorScope_MarshalText v of
     Inr text \<Rightarrow> text | Inl _ \<Rightarrow> ''illegal-ssh-error-scope-'' @ int_text (uint v))"

text \<open>\<open>order\<close> is the order in which the range over the map of names visits it.\<close>

definition ErrorScope_UnmarshalText :: "(uint8 \<times> string) list \<Rightarrow> string \<Rightarrow> gerr + uint8" where
  "ErrorScope_UnmarshalText order text =
     (case find (\<lambda>(candidate, name). name = text) order of
        Some (candidate, _) \<Rightarrow> Inr candidate
      | None \<Rightarrow> Inl (Errorf ''illegal ssh error scope: %q'' [AQuoted text]))"

definition ErrorScope_Set :: "(uint8 \<times> string) list \<Rightarrow> string \<Rightarrow> gerr + uint8" where
  "ErrorScope_Set order text = ErrorScope_UnmarshalText order text"

definition ErrorOperation_MarshalText :: "uint8 \<Rightarrow> gerr + string" where
  "ErrorOperation_MarshalText v = (case map_of errorOperationNames v of
     Some name \<Rightarrow> Inr name
   | None \<Rightarrow> Inl (Errorf ''illegal ssh error operation: %d'' [AInt (uint v)]))"

definition ErrorOperation_Validate :: "uint8 \<Rightarrow> gerr option" where
  "ErrorOperation_Validate v = (case ErrorOperation_MarshalText v of Inl err \<Rightarrow> Some err | Inr _ \<Rightarrow> None)"

definition ErrorOperation_String :: "uint8 \<Rightarrow> string" where
  "ErrorOperation_String v = (case ErrorOperation_MarshalText v of
     Inr text \<Rightarrow> text | Inl _ \<Rightarrow> ''illegal-ssh-error-operation-'' @ int_text (uint v))"

definition ErrorOperation_UnmarshalText :: "(uint8 \<times> string) list \<Rightarrow> string \<Rightarrow> gerr + uint8" where
  "ErrorOperation_UnmarshalText order text =
     (case find (\<lambda>(candidate, name). name = text) order of
        Some (candidate, _) \<Rightarrow> Inr candidate
      | None \<Rightarrow> Inl (Errorf ''illegal ssh error operation: %q'' [AQuoted text]))"

definition ErrorOperation_Set :: "(uint8 \<times> string) list \<Rightarrow> string \<Rightarrow> gerr + uint8" where
  "ErrorOperation_Set order text = ErrorOperation_UnmarshalText order text"

interpretation scope_names: name_table errorScopeNames
  by unfold_locales (simp_all add: errorScopeNames_def)

interpretation operation_names: name_table errorOperationNames
  by unfold_locales (simp_all add: errorOperationNames_def)

section \<open>The location of an error\<close>

definition locateError :: "uint8 \<Rightarrow> uint8 \<Rightarrow> gerr \<Rightarrow> gerr" where
  "locateError scope operation err = Located scope operation err"

definition resolveErrorLocation :: "uint8 \<Rightarrow> uint8 \<Rightarrow> gerr \<Rightarrow> uint8 \<times> uint8" where
  "resolveErrorLocation scope operation err =
     (case errors_As is_located err of Some l \<Rightarrow> l | None \<Rightarrow> (scope, operation))"

text \<open>For non-nil arguments; the code is false when one is nil.\<close>

fun isOnlyError :: "gerr \<Rightarrow> gerr \<Rightarrow> bool" where
  "isOnlyError (JoinErr children) target =
     (if children = [] then False else list_all (\<lambda>child. isOnlyError child target) children)"
| "isOnlyError (OpError op t (Some wrapped)) target = isOnlyError wrapped target"
| "isOnlyError (SyscallError (Some wrapped)) target = isOnlyError wrapped target"
| "isOnlyError (WrapErr f xs wrapped) target = isOnlyError wrapped target"
| "isOnlyError (Located s p wrapped) target = isOnlyError wrapped target"
| "isOnlyError err target = errors_Is err target"


section \<open>The contexts the code asks\<close>

text \<open>
  What the code looks up in a context: the function under \<open>contextKeyCloseConnection\<close>, the
  \<open>*gossh.ServerConn\<close> under \<open>ContextKeyConn\<close>, and whether \<open>Done\<close> returns a channel.
\<close>

record goctx =
  ctx_closer :: bool
  ctx_conn :: bool
  ctx_hasDone :: bool

definition closeSSHConnection :: "goctx option \<Rightarrow> ('a world_scheme, unit) state" where
  "closeSSHConnection ctx = (case ctx of
     None \<Rightarrow> State_Monad.return ()
   | Some c \<Rightarrow>
       if ctx_closer c then emit RunCloser
       else if ctx_conn c then emit CloseConn
       else State_Monad.return ())"

text \<open>The last thing that happened is the closing of the connection, if the context knows one.\<close>

definition closed :: "goctx \<Rightarrow> 'a world_scheme \<Rightarrow> bool" where
  "closed ctx w \<longleftrightarrow>
     (if ctx_closer ctx then \<exists>tr r. w_trace w = tr @ [(RunCloser, r)]
      else if ctx_conn ctx then \<exists>tr r. w_trace w = tr @ [(CloseConn, r)] else True)"

lemma close_closed: "closed ctx (snd (run_state (closeSSHConnection (Some ctx)) w))"
  by (simp add: closed_def closeSSHConnection_def)

section \<open>The one-shot responder\<close>

type_synonym 'w responder = "bytes \<Rightarrow> bool \<Rightarrow> ('w, gerr option) state"

record 'w errorResponse =
  er_respond :: "'w responder option"
  er_active :: bool
  er_attempted :: bool
  er_complete :: bool
  er_err :: "gerr option"
  er_close :: bool

definition newErrorResponse :: "'w responder option \<Rightarrow> 'w errorResponse" where
  "newErrorResponse respond = \<lparr>er_respond = respond, er_active = True, er_attempted = False,
     er_complete = False, er_err = None, er_close = False\<rparr>"

text \<open>
  \<open>send\<close> has two sections under the mutex with the call of \<open>respond\<close> between them. The first
  either returns an error or hands out the function to call.
\<close>

definition send_begin :: "bool \<Rightarrow> 'w errorResponse \<Rightarrow> (gerr + 'w responder) \<times> 'w errorResponse" where
  "send_begin closeAfterResponse r =
     (if \<not> er_active r then (Inl (Var ErrErrorResponseExpired), r)
      else if er_attempted r then (Inl (Var ErrErrorResponseAlreadySent), r)
      else case er_respond r of
        None \<Rightarrow> (Inl (Var ErrErrorResponseUnsupported),
                 r\<lparr>er_attempted := True, er_complete := True, er_err := Some (Var ErrErrorResponseUnsupported)\<rparr>)
      | Some respond \<Rightarrow> (Inr respond, r\<lparr>er_attempted := True, er_close := closeAfterResponse\<rparr>))"

definition send_finish :: "gerr option \<Rightarrow> 'w errorResponse \<Rightarrow> 'w errorResponse" where
  "send_finish err r = r\<lparr>er_complete := True, er_err := err\<rparr>"

definition response_send :: "bytes \<Rightarrow> bool \<Rightarrow> 'w errorResponse \<Rightarrow> 'w \<Rightarrow> gerr option \<times> 'w errorResponse \<times> 'w" where
  "response_send message closeAfterResponse r w =
     (case send_begin closeAfterResponse r of
        (Inl err, r') \<Rightarrow> (Some err, r', w)
      | (Inr respond, r') \<Rightarrow>
          (case run_state (respond message closeAfterResponse) w of
             (err, w') \<Rightarrow> (err, send_finish err r', w')))"

definition response_result :: "'w errorResponse \<Rightarrow> bool \<times> gerr option" where
  "response_result r =
     (if er_attempted r \<and> \<not> er_complete r then (True, Some (Var ErrErrorResponseIncomplete))
      else (er_attempted r, er_err r))"

definition response_closeRequested :: "'w errorResponse \<Rightarrow> bool" where
  "response_closeRequested r = er_close r"

definition response_expire :: "'w errorResponse \<Rightarrow> 'w errorResponse" where
  "response_expire r = r\<lparr>er_active := False, er_respond := None\<rparr>"

section \<open>The one-shot next handler\<close>

text \<open>
  A default action may look at the responder of its dispatch and send through it, so it runs on
  the responder and the world.
\<close>

type_synonym 'w action =
  "goctx \<Rightarrow> uint8 \<Rightarrow> uint8 \<Rightarrow> gerr option \<Rightarrow> ('w errorResponse \<times> 'w, bool \<times> gerr option) state"

record 'w nextErrorHandler =
  nx_active :: bool
  nx_called :: bool
  nx_complete :: bool
  nx_canContinue :: bool
  nx_err :: "gerr option"
  nx_ctx :: goctx
  nx_scope :: uint8
  nx_operation :: uint8
  nx_defaultAction :: "'w action option"

definition newNextErrorHandler :: "goctx \<Rightarrow> uint8 \<Rightarrow> uint8 \<Rightarrow> 'w action \<Rightarrow> 'w nextErrorHandler" where
  "newNextErrorHandler ctx scope operation defaultAction =
     \<lparr>nx_active = True, nx_called = False, nx_complete = False, nx_canContinue = False, nx_err = None,
      nx_ctx = ctx, nx_scope = scope, nx_operation = operation, nx_defaultAction = Some defaultAction\<rparr>"

text \<open>
  \<open>call\<close>, in the same two sections. An active next handler has its default action;
  \<open>expire\<close> drops it.
\<close>

definition call_begin :: "'w nextErrorHandler \<Rightarrow> (gerr + 'w action) \<times> 'w nextErrorHandler" where
  "call_begin n =
     (if \<not> nx_active n then (Inl (Var ErrNextErrorHandlerExpired), n)
      else if nx_called n then (Inl (Var ErrNextErrorHandlerAlreadyCalled), n)
      else case nx_defaultAction n of
        None \<Rightarrow> (Inl (Var ErrNextErrorHandlerExpired), n)
      | Some defaultAction \<Rightarrow> (Inr defaultAction, n\<lparr>nx_called := True\<rparr>))"

definition call_finish :: "bool \<times> gerr option \<Rightarrow> 'w nextErrorHandler \<Rightarrow> 'w nextErrorHandler" where
  "call_finish res n = n\<lparr>nx_complete := True, nx_canContinue := fst res, nx_err := snd res\<rparr>"

definition next_call ::
  "gerr option \<Rightarrow> 'w nextErrorHandler \<Rightarrow> 'w errorResponse \<Rightarrow> 'w
    \<Rightarrow> (bool \<times> gerr option) \<times> 'w nextErrorHandler \<times> 'w errorResponse \<times> 'w" where
  "next_call err n r w =
     (case call_begin n of
        (Inl e, n') \<Rightarrow> ((False, Some e), n', r, w)
      | (Inr defaultAction, n') \<Rightarrow>
          (case run_state (defaultAction (nx_ctx n) (nx_scope n) (nx_operation n) err) (r, w) of
             (res, (r', w')) \<Rightarrow> (res, call_finish res n', r', w')))"

definition next_result :: "'w nextErrorHandler \<Rightarrow> bool \<times> bool \<times> bool \<times> gerr option" where
  "next_result n = (nx_called n, nx_complete n, nx_canContinue n, nx_err n)"

definition next_expire :: "'w nextErrorHandler \<Rightarrow> 'w nextErrorHandler" where
  "next_expire n = n\<lparr>nx_active := False, nx_defaultAction := None\<rparr>"

section \<open>The user's handler\<close>

text \<open>
  What a handler does with what it is given: return, call \<open>respond\<close> or \<open>next\<close> and go on with
  the result, or start such a call on another goroutine that has not finished when the handler
  returns (\<open>SpawnRespond\<close>, \<open>SpawnNext\<close>). What else it does is its own business. The other
  arguments it passes to \<open>next\<close> are ignored by the code. A handler may keep state of its own: it
  depends on everything that happened before.
\<close>

datatype hprog =
    Return bool "gerr option"
  | Respond bytes bool "gerr option \<Rightarrow> hprog"
  | Next "gerr option" "bool \<times> gerr option \<Rightarrow> hprog"
  | SpawnRespond bytes bool hprog
  | SpawnNext "gerr option" hprog

type_synonym errorHandler = "event list \<Rightarrow> uint8 \<Rightarrow> uint8 \<Rightarrow> gerr \<Rightarrow> hprog"

type_synonym 'w hstate = "'w errorResponse \<times> 'w nextErrorHandler \<times> 'w"

text \<open>
  Running a handler for at most \<open>k\<close> interactions (\<open>None\<close>: until it returns). A run that is cutoff
  off leaves the rest of the program.
\<close>

definition spent :: "nat option \<Rightarrow> nat option" where
  "spent k = map_option (\<lambda>n. n - 1) k"

primrec run_hprog :: "hprog \<Rightarrow> nat option \<Rightarrow> 'w hstate \<Rightarrow> (hprog + bool \<times> gerr option) \<times> 'w hstate" where
  "run_hprog (Return canContinue filteredErr) k s =
     (if k = Some 0 then (Inl (Return canContinue filteredErr), s)
      else (Inr (canContinue, filteredErr), s))"
| "run_hprog (Respond message close f) k s =
     (if k = Some 0 then (Inl (Respond message close f), s)
      else case s of (r, n, w) \<Rightarrow> (case response_send message close r w of
        (err, r', w') \<Rightarrow> run_hprog (f err) (spent k) (r', n, w')))"
| "run_hprog (Next err f) k s =
     (if k = Some 0 then (Inl (Next err f), s)
      else case s of (r, n, w) \<Rightarrow> (case next_call err n r w of
        (res, n', r', w') \<Rightarrow> run_hprog (f res) (spent k) (r', n', w')))"
| "run_hprog (SpawnRespond message close p) k s =
     (if k = Some 0 then (Inl (SpawnRespond message close p), s)
      else case s of (r, n, w) \<Rightarrow> run_hprog p (spent k) (snd (send_begin close r), n, w))"
| "run_hprog (SpawnNext err p) k s =
     (if k = Some 0 then (Inl (SpawnNext err p), s)
      else case s of (r, n, w) \<Rightarrow> run_hprog p (spent k) (r, snd (call_begin n), w))"

section \<open>Default actions\<close>

definition defaultLogAndFailErrorAction :: "'a world_scheme action" where
  "defaultLogAndFailErrorAction ctx scope operation err = (case err of
     None \<Rightarrow> State_Monad.return (True, None)
   | Some e \<Rightarrow> do { on_world (emit (LogFailed scope operation e)); State_Monad.return (False, None) })"

definition defaultClosingConnectionErrorAction :: "'a world_scheme action" where
  "defaultClosingConnectionErrorAction ctx scope operation err = do {
     only_if (err \<noteq> None) (on_world (closeSSHConnection (Some ctx)));
     State_Monad.return (err = None, err) }"

definition defaultClosingConnectionAndLogErrorAction :: "'a world_scheme action" where
  "defaultClosingConnectionAndLogErrorAction ctx scope operation err = do {
     (_, err) \<leftarrow> defaultClosingConnectionErrorAction ctx scope operation err;
     defaultLogAndFailErrorAction ctx scope operation err }"

text \<open>
  The default actions of requests and of channels, closures in \<open>server.go\<close>, are the same function but for the message they
  send: look at the responder, answer if nobody has, log, and fail only when the answer failed.
\<close>

definition respondingErrorAction :: "bytes \<Rightarrow> 'a world_scheme action" where
  "respondingErrorAction message ctx scope operation err = do {
     (attempted, responseErr) \<leftarrow> gets (\<lambda>(r, w). response_result r);
     responseErr \<leftarrow> (if attempted then State_Monad.return responseErr
                     else State (\<lambda>(r, w). response_send message False r w));
     _ \<leftarrow> defaultLogAndFailErrorAction ctx scope operation err;
     State_Monad.return
       (case responseErr of
          Some e \<Rightarrow> if \<not> errors_Is e (Var ErrErrorResponseUnsupported) then (False, responseErr) else (True, None)
        | None \<Rightarrow> (True, None)) }"

section \<open>Dispatch\<close>

text \<open>
  The responder of a dispatch without one: unsupported, though it closes the connection when
  that is asked for.
\<close>

definition unsupportedResponder :: "goctx \<Rightarrow> 'a world_scheme responder" where
  "unsupportedResponder ctx message closeAfterResponse = do {
     only_if closeAfterResponse (closeSSHConnection (Some ctx));
     State_Monad.return (Some (Var ErrErrorResponseUnsupported)) }"

text \<open>
  \<open>cutoff\<close> is where a handler of an error of the server scope is when the context is canceled
  (\<open>Some n\<close>: after \<open>n\<close> interactions), \<open>None\<close> when its result arrives first. The result also has the
  responder, which the caller may look at, and the next handler. \<open>dispatched\<close> is the part after
  the arguments are defaulted.
\<close>

definition dispatched ::
  "nat option \<Rightarrow> goctx \<Rightarrow> errorHandler option \<Rightarrow> uint8 \<Rightarrow> uint8 \<Rightarrow> gerr \<Rightarrow> 'a world_scheme errorResponse
    \<Rightarrow> 'a world_scheme action \<Rightarrow> 'a world_scheme
    \<Rightarrow> (bool \<times> gerr option) \<times> 'a world_scheme errorResponse \<times> 'a world_scheme" where
  "dispatched cutoff ctx handler scope operation err response defaultAction w =
     (case handler of
        None \<Rightarrow>
          (case run_state (defaultAction ctx scope operation (Some err)) (response, w) of
             (res, (r, w')) \<Rightarrow> (res, response_expire r, w'))
      | Some h \<Rightarrow>
          (let cutoff' = (if scope \<noteq> ErrorScopeServer \<or> \<not> ctx_hasDone ctx then None else cutoff)
           in case run_hprog (h (w_trace w) scope operation err) cutoff'
                (response, newNextErrorHandler ctx scope operation defaultAction, w) of
                (Inl rest, (r, n, w')) \<Rightarrow>
                  (case run_state (perform CtxCause) w' of
                     (cause, w'') \<Rightarrow> ((False, cause), response_expire r, w''))
              | (Inr (canContinue, filteredErr), (r, n, w')) \<Rightarrow>
                  (case next_result n of (called, complete, _, _) \<Rightarrow>
                     if called \<and> \<not> complete
                     then ((False, Some (Var ErrNextErrorHandlerIncomplete)), response_expire r, w')
                     else ((canContinue, filteredErr), response_expire r, w'))))"

definition dispatchError ::
  "nat option \<Rightarrow> goctx \<Rightarrow> errorHandler option \<Rightarrow> uint8 \<Rightarrow> uint8 \<Rightarrow> gerr option
    \<Rightarrow> 'a world_scheme errorResponse option \<Rightarrow> 'a world_scheme action option
    \<Rightarrow> ('a world_scheme, (bool \<times> gerr option) \<times> 'a world_scheme errorResponse option) state" where
  "dispatchError cutoff ctx handler scope operation err response defaultAction = State (\<lambda>w.
     case err of
       None \<Rightarrow> (((True, None), response), w)
     | Some e \<Rightarrow>
         (let (scope, operation) = resolveErrorLocation scope operation e;
              response = (case response of
                 None \<Rightarrow> newErrorResponse (Some (unsupportedResponder ctx)) | Some r \<Rightarrow> r);
              defaultAction = (case defaultAction of None \<Rightarrow> defaultLogAndFailErrorAction | Some a \<Rightarrow> a)
          in case dispatched cutoff ctx handler scope operation e response defaultAction w of
               (res, r, w') \<Rightarrow> ((res, Some r), w')))"

definition dispatchErrorOrEscalate ::
  "nat option \<Rightarrow> goctx \<Rightarrow> errorHandler option \<Rightarrow> uint8 \<Rightarrow> uint8 \<Rightarrow> gerr option
    \<Rightarrow> 'a world_scheme errorResponse option \<Rightarrow> 'a world_scheme action option
    \<Rightarrow> ('a world_scheme, bool) state" where
  "dispatchErrorOrEscalate cutoff ctx handler scope operation err response defaultAction = do {
     ((canContinue, dErr), _) \<leftarrow> dispatchError cutoff ctx handler scope operation err response defaultAction;
     (case dErr of
        Some d \<Rightarrow> do {
          let (scope, operation) = (case err of Some e \<Rightarrow> resolveErrorLocation scope operation e
                                    | None \<Rightarrow> (scope, operation));
          emit (LogEscalate d err scope operation);
          closeSSHConnection (Some ctx);
          State_Monad.return False }
      | None \<Rightarrow> State_Monad.return canContinue) }"

section \<open>The limit on concurrent handlers (limitErrorHandler)\<close>

text \<open>
  \<open>used\<close> is the number of occupied slots when the handler is called; without a free one the call
  goes straight to \<open>next\<close>. \<open>limited_call\<close> is the whole call with the slot taken before and given
  back after it.
\<close>

definition limitErrorHandler :: "nat \<Rightarrow> nat \<Rightarrow> errorHandler option \<Rightarrow> errorHandler option" where
  "limitErrorHandler slots used handler = (case handler of
     None \<Rightarrow> None
   | Some h \<Rightarrow> Some (\<lambda>tr scope operation err.
       if used < slots then h tr scope operation err
       else Next (Some err) (\<lambda>(canContinue, filteredErr). Return canContinue filteredErr)))"

section \<open>Names of scopes and operations\<close>

text \<open>
  In whatever order Go visits the tables of names, \<open>UnmarshalText\<close> of a scope or an operation
  reads exactly the texts \<open>MarshalText\<close> writes, and returns the value they were written for.
\<close>

theorem error_texts_round_trip:
  assumes "set scopes = set errorScopeNames" "set operations = set errorOperationNames"
  shows "(ErrorScope_UnmarshalText scopes t = Inr c) = (ErrorScope_MarshalText c = Inr t)
    \<and> (ErrorOperation_UnmarshalText operations t = Inr p) = (ErrorOperation_MarshalText p = Inr t)"
  using scope_names.find_any_order [OF assms(1), of t] operation_names.find_any_order [OF assms(2), of t]
    scope_names.inverse_tables [of t c] operation_names.inverse_tables [of t p]
  by (auto simp: ErrorScope_UnmarshalText_def ErrorScope_MarshalText_def
      ErrorOperation_UnmarshalText_def ErrorOperation_MarshalText_def split: option.splits)

lemma error_texts_round_trip_witness:
  "ErrorScope_UnmarshalText (rev errorScopeNames) ''session'' = Inr ErrorScopeSession
   \<and> ErrorOperation_UnmarshalText errorOperationNames ''dial'' = Inr ErrorOperationDial"
  using error_texts_round_trip [OF set_rev refl, of "''session''" ErrorScopeSession 0]
    error_texts_round_trip [OF set_rev refl, of "''dial''" 0 ErrorOperationDial]
  by (simp add: ErrorScope_MarshalText_def ErrorOperation_MarshalText_def errorScopeNames_def errorOperationNames_def)

section \<open>The only error of a tree\<close>

text \<open>The ends of the chains of \<open>Unwrap\<close> in an error tree; an empty join is an end itself.\<close>

fun gerr_leaves :: "gerr \<Rightarrow> gerr list" where
  "gerr_leaves (JoinErr es) = (if es = [] then [JoinErr []] else concat (map gerr_leaves es))"
| "gerr_leaves (OpError op t (Some e)) = gerr_leaves e"
| "gerr_leaves (SyscallError (Some e)) = gerr_leaves e"
| "gerr_leaves (WrapErr f xs e) = gerr_leaves e"
| "gerr_leaves (Located s p e) = gerr_leaves e"
| "gerr_leaves e = [e]"

lemma gerr_leaves_not_Nil: "gerr_leaves e \<noteq> []"
proof (induction e rule: gerr_leaves.induct)
  case (1 es)
  then show ?case by (cases es) auto
qed auto

lemma isOnlyError_leaves: "isOnlyError e t \<longleftrightarrow> (\<forall>l \<in> set (gerr_leaves e). l = t \<and> l \<noteq> JoinErr [])"
  by (induction e rule: gerr_leaves.induct) (auto simp: list_all_iff)

text \<open>
  \<open>isOnlyError\<close> holds exactly when every chain of wrappings and joins of the error ends in the
  target (and no branch is an empty join).
\<close>

theorem isOnlyError_exact: "isOnlyError e t \<longleftrightarrow> set (gerr_leaves e) = {t} \<and> t \<noteq> JoinErr []"
  using gerr_leaves_not_Nil [of e] unfolding isOnlyError_leaves
  by (cases "gerr_leaves e") auto

text \<open>
  A target that itself wraps another error is never found, not even in itself: \<open>isOnlyError\<close>
  looks only at the ends of the chains.
\<close>

theorem isOnlyError_misses_wrapped_targets:
  "\<not> isOnlyError (WrapErr f xs e) (WrapErr f xs e) \<and> \<not> isOnlyError (Located s p e) (Located s p e)"
proof -
  have ends: "l \<in> set (gerr_leaves e) \<Longrightarrow> l \<noteq> WrapErr f xs e' \<and> l \<noteq> Located s p e'" for l e e'
    by (induction e rule: gerr_leaves.induct) (auto split: if_splits)
  obtain l where l: "l \<in> set (gerr_leaves e)" using gerr_leaves_not_Nil [of e] by (cases "gerr_leaves e") auto
  show ?thesis
    using ends [OF l] l by (auto simp: isOnlyError_leaves)
qed

text \<open>
  \<open>isOnlyError\<close> holds exactly when every chain of wrappings and joins of the error ends in the target (and
  no branch is an empty join); so a target that itself wraps another error is never found, not even in itself.
\<close>

theorem isOnlyError_sees_only_ends:
  "(isOnlyError e t \<longleftrightarrow> set (gerr_leaves e) = {t} \<and> t \<noteq> JoinErr [])
   \<and> \<not> isOnlyError (WrapErr f xs e) (WrapErr f xs e) \<and> \<not> isOnlyError (Located s p e) (Located s p e)"
  using isOnlyError_exact isOnlyError_misses_wrapped_targets by simp

section \<open>What a dispatch does to the world\<close>

datatype hcall = CallRespond bytes bool | CallSpawnRespond bool | CallDefault "gerr option"

text \<open>
  The calls a dispatch makes, on the responder and the world: through the responder, which
  decides itself whether the call goes through, and of the default action.
\<close>

definition run_call ::
  "(gerr option \<Rightarrow> ('w errorResponse \<times> 'w, bool \<times> gerr option) state) \<Rightarrow> hcall
    \<Rightarrow> 'w errorResponse \<times> 'w \<Rightarrow> 'w errorResponse \<times> 'w" where
  "run_call act c s = (case c of
     CallRespond m cl \<Rightarrow> snd (response_send m cl (fst s) (snd s))
   | CallSpawnRespond cl \<Rightarrow> (snd (send_begin cl (fst s)), snd s)
   | CallDefault err \<Rightarrow> snd (run_state (act err) s))"

lemma run_call_simps [simp]:
  "run_call act (CallRespond m cl) (r, w) = snd (response_send m cl r w)"
  "run_call act (CallSpawnRespond cl) (r, w) = (snd (send_begin cl r), w)"
  "run_call act (CallDefault err) s = snd (run_state (act err) s)"
  by (simp_all add: run_call_def)

definition defaults :: "hcall list \<Rightarrow> nat" where
  "defaults cs = length (filter (\<lambda>c. case c of CallDefault _ \<Rightarrow> True | _ \<Rightarrow> False) cs)"

lemma defaults_simps [simp]:
  "defaults [] = 0" "defaults (CallDefault e # cs) = Suc (defaults cs)"
  "defaults (CallRespond m c # cs) = defaults cs" "defaults (CallSpawnRespond c # cs) = defaults cs"
  "defaults (cs @ ds) = defaults cs + defaults ds"
  by (simp_all add: defaults_def)

definition may_default :: "'w nextErrorHandler \<Rightarrow> nat" where
  "may_default n = (if nx_active n \<and> \<not> nx_called n \<and> nx_defaultAction n \<noteq> None then 1 else 0)"

definition default_is ::
  "(gerr option \<Rightarrow> ('w errorResponse \<times> 'w, bool \<times> gerr option) state) \<Rightarrow> 'w nextErrorHandler \<Rightarrow> bool" where
  "default_is act n \<longleftrightarrow> (\<forall>a. nx_defaultAction n = Some a \<longrightarrow> a (nx_ctx n) (nx_scope n) (nx_operation n) = act)"

lemma next_calls:
  assumes "next_call err n r w = (res, n', s')" "default_is act n"
  shows "default_is act n' \<and> (\<exists>cs. s' = fold (run_call act) cs (r, w) \<and> defaults cs + may_default n' \<le> may_default n)"
proof (cases "may_default n = 0")
  case True
  then have "n' = n \<and> s' = (r, w)" using assms(1)
    by (auto simp: next_call_def call_begin_def may_default_def split: if_splits option.splits)
  then show ?thesis using assms(2) by (auto intro!: exI [of _ "[]"])
next
  case False
  then obtain a where "nx_defaultAction n = Some a" by (auto simp: may_default_def split: if_splits)
  then show ?thesis using assms False
    by (auto simp: next_call_def call_begin_def call_finish_def may_default_def default_is_def
        split: if_splits prod.splits intro!: exI [of _ "[CallDefault err]"])
qed

lemma call_begin_facts:
  "default_is act n \<Longrightarrow> default_is act (snd (call_begin n))"
  "may_default (snd (call_begin n)) \<le> may_default n"
  by (auto simp: call_begin_def may_default_def default_is_def split: option.splits)

lemma run_hprog_calls:
  assumes "run_hprog p k (r, n, w) = (res, r', n', w')" "default_is act n"
  shows "\<exists>cs. (r', w') = fold (run_call act) cs (r, w) \<and> defaults cs \<le> may_default n"
  using assms
proof (induction p arbitrary: k r n w)
  case (Return c e)
  then show ?case by (auto split: if_splits intro!: exI [of _ "[]"])
next
  case (Respond m c f)
  show ?case
  proof (cases "k = Some 0")
    case False
    obtain e r1 w1 where s: "response_send m c r w = (e, r1, w1)" by (metis prod_cases3)
    with False Respond.prems(1) have "run_hprog (f e) (spent k) (r1, n, w1) = (res, r', n', w')" by simp
    from Respond.IH [OF rangeI this Respond.prems(2)] obtain cs where
      "(r', w') = fold (run_call act) cs (r1, w1)" "defaults cs \<le> may_default n" by blast
    with s show ?thesis by (auto intro!: exI [of _ "CallRespond m c # cs"])
  qed (use Respond.prems in \<open>auto intro!: exI [of _ "[]"]\<close>)
next
  case (Next err f)
  show ?case
  proof (cases "k = Some 0")
    case False
    obtain x n1 r1 w1 where s: "next_call err n r w = (x, n1, r1, w1)" by (metis prod_cases4)
    with False Next.prems(1) have rest: "run_hprog (f x) (spent k) (r1, n1, w1) = (res, r', n', w')" by simp
    from next_calls [OF s Next.prems(2)] obtain cs where
      1: "default_is act n1" "(r1, w1) = fold (run_call act) cs (r, w)" "defaults cs + may_default n1 \<le> may_default n"
      by blast
    from Next.IH [OF rangeI rest 1(1)] obtain ds where
      "(r', w') = fold (run_call act) ds (r1, w1)" "defaults ds \<le> may_default n1" by blast
    with 1 show ?thesis by (auto intro!: exI [of _ "cs @ ds"])
  qed (use Next.prems in \<open>auto intro!: exI [of _ "[]"]\<close>)
next
  case (SpawnRespond m c p)
  show ?case
  proof (cases "k = Some 0")
    case False
    with SpawnRespond.IH [of "spent k" "snd (send_begin c r)" n w] SpawnRespond.prems obtain cs where
      "(r', w') = fold (run_call act) cs (snd (send_begin c r), w)" "defaults cs \<le> may_default n" by auto
    then show ?thesis by (auto intro!: exI [of _ "CallSpawnRespond c # cs"])
  qed (use SpawnRespond.prems in \<open>auto intro!: exI [of _ "[]"]\<close>)
next
  case (SpawnNext err p)
  show ?case
  proof (cases "k = Some 0")
    case False
    with SpawnNext.IH [of "spent k" r "snd (call_begin n)" w] SpawnNext.prems call_begin_facts(1) [of act n] call_begin_facts(2) [of n]
    show ?thesis by (auto intro: order_trans)
  qed (use SpawnNext.prems in \<open>auto intro!: exI [of _ "[]"]\<close>)
qed

text \<open>The default action of a dispatch, at the location the error carries.\<close>

definition located_default ::
  "goctx \<Rightarrow> 'w action \<Rightarrow> uint8 \<Rightarrow> uint8 \<Rightarrow> gerr \<Rightarrow> gerr option
    \<Rightarrow> ('w errorResponse \<times> 'w, bool \<times> gerr option) state" where
  "located_default ctx defaultAction scope operation e =
     (case resolveErrorLocation scope operation e of (s, p) \<Rightarrow> defaultAction ctx s p)"

text \<open>
  The dispatch as the calls it makes; a handler that is cut off adds the look at the cause.
\<close>

lemma dispatchError_calls:
  fixes act :: "'a world_scheme action"
  assumes "run_state (dispatchError cutoff ctx handler scope operation (Some e) (Some response) (Some act)) w
    = ((res, rr), w')"
  shows "\<exists>cs r v. (r, v) = fold (run_call (located_default ctx act scope operation e)) cs (response, w)
     \<and> defaults cs \<le> 1 \<and> (handler = None \<longrightarrow> cs = [CallDefault (Some e)])
     \<and> rr = Some (response_expire r) \<and> (w' = v \<or> handler \<noteq> None \<and> w' = snd (run_state (perform CtxCause) v))"
proof -
  obtain s p where l: "resolveErrorLocation scope operation e = (s, p)" by fastforce
  let ?n = "newNextErrorHandler ctx s p act" and ?act = "located_default ctx act scope operation e"
  show ?thesis
  proof (cases handler)
    case None
    then show ?thesis using assms l
      by (auto simp: dispatchError_def dispatched_def located_default_def split: prod.splits
          intro!: exI [of _ "[CallDefault (Some e)]"])
  next
    case (Some h)
    let ?cutoff = "if s \<noteq> ErrorScopeServer \<or> \<not> ctx_hasDone ctx then None else cutoff"
    obtain out r n v where run: "run_hprog (h (w_trace w) s p e) ?cutoff (response, ?n, w) = (out, r, n, v)"
      by (metis prod_cases4)
    have "default_is ?act ?n"
      by (simp add: default_is_def newNextErrorHandler_def located_default_def l)
    from run_hprog_calls [OF run this] obtain cs where
      cs: "(r, v) = fold (run_call ?act) cs (response, w)" "defaults cs \<le> 1"
      by (auto simp: may_default_def newNextErrorHandler_def)
    have "rr = Some (response_expire r) \<and> (w' = v \<or> w' = snd (run_state (perform CtxCause) v))"
      using assms run Some l
      by (auto simp: dispatchError_def dispatched_def Let_def next_result_def split: sum.splits prod.splits if_splits)
    with cs Some show ?thesis by blast
  qed
qed

text \<open>
  C9. Whatever the user's handler does with the responder and the next handler, in whatever order,
  as often as it likes, on other goroutines too, and wherever a canceled context cuts it off:
  a dispatch runs the default action at most once, with the location the error carries, and
  what it does to the world is what that action and the calls through its one responder do,
  besides a look at the cause of the context. Without a handler it runs the default action
  exactly once, on the error; for a nil error it does nothing. The responder it leaves expired.
\<close>

theorem dispatch_runs_the_default_once:
  fixes act :: "'a world_scheme action"
  shows "(case run_state (dispatchError cutoff ctx handler scope operation (Some e) (Some response) (Some act)) w of
      ((_, Some r'), w') \<Rightarrow>
         (\<exists>cs r v. (r, v) = fold (run_call (located_default ctx act scope operation e)) cs (response, w)
            \<and> defaults cs \<le> 1 \<and> (if handler = None then cs = [CallDefault (Some e)] else True)
            \<and> r' = response_expire r \<and> \<not> er_active r'
            \<and> w' \<in> {v, snd (run_state (perform CtxCause) v)})
    | _ \<Rightarrow> False)
   \<and> run_state (dispatchError cutoff ctx handler scope operation None resp dact) w = (((True, None), resp), w)"
proof -
  obtain res rr w' where run:
    "run_state (dispatchError cutoff ctx handler scope operation (Some e) (Some response) (Some act)) w = ((res, rr), w')"
    by (metis prod.exhaust)
  from dispatchError_calls [OF this] obtain cs r v where
    c: "(r, v) = fold (run_call (located_default ctx act scope operation e)) cs (response, w)" "defaults cs \<le> 1"
       "handler = None \<longrightarrow> cs = [CallDefault (Some e)]" "rr = Some (response_expire r)"
       "w' = v \<or> w' = snd (run_state (perform CtxCause) v)" by blast
  have "run_state (dispatchError cutoff ctx handler scope operation None resp dact) w = (((True, None), resp), w)"
    by (simp add: dispatchError_def)
  then show ?thesis
    unfolding run c(4) prod.case option.case
    by (intro conjI exI [of _ cs] exI [of _ r] exI [of _ v]) (use c in \<open>auto simp: response_expire_def\<close>)
qed

section \<open>Invariants of the world across a dispatch\<close>

text \<open>
  A component that reports its errors relies on the dispatch not to disturb its own state: what
  the responder it passes, the default action and the look at the cause keep, the dispatch
  keeps, whatever the user's handler does.
\<close>

locale dispatch_pair_invariant =
  fixes J :: "'a world_scheme errorResponse \<times> 'a world_scheme \<Rightarrow> bool"
    and act :: "'a world_scheme action"
  assumes send_keeps: "J (r, w) \<Longrightarrow> J (snd (response_send m c r w))"
    and spawn_keeps: "J (r, w) \<Longrightarrow> J (snd (send_begin c r), w)"
    and pair_act_keeps: "J s \<Longrightarrow> J (snd (run_state (act ctx sc op err) s))"
    and pair_cause_keeps: "J (r, w) \<Longrightarrow> J (r, snd (run_state (perform CtxCause) w))"
begin

lemma run_call_keeps: "J s \<Longrightarrow> J (run_call (located_default ctx act scope operation e) c s)"
  by (cases s; cases c; cases "resolveErrorLocation scope operation e")
    (simp_all add: send_keeps spawn_keeps pair_act_keeps located_default_def)

lemma run_calls_keep: "J s \<Longrightarrow> J (fold (run_call (located_default ctx act scope operation e)) cs s)"
proof (induction cs arbitrary: s)
  case (Cons c cs)
  show ?case unfolding fold_simps by (rule Cons.IH [OF run_call_keeps [OF Cons.prems]])
qed simp

lemma pair_dispatch:
  assumes "J (response, w)"
    and "run_state (dispatchError cutoff ctx handler scope operation (Some e) (Some response) (Some act)) w = ((res, rr), w')"
  obtains r where "rr = Some (response_expire r)" "J (r, w')"
proof -
  from dispatchError_calls [OF assms(2)] obtain cs r v where
    c: "(r, v) = fold (run_call (located_default ctx act scope operation e)) cs (response, w)"
    and rr: "rr = Some (response_expire r)" and w': "w' = v \<or> w' = snd (run_state (perform CtxCause) v)" by blast
  have "J (r, v)" unfolding c by (rule run_calls_keep [OF assms(1)])
  then have "J (r, w')" using w' pair_cause_keeps by auto
  with rr that show thesis by blast
qed

end

text \<open>The common case: an invariant of the world alone.\<close>

locale dispatch_invariant =
  fixes I :: "'a world_scheme \<Rightarrow> bool"
    and respond :: "'a world_scheme responder"
    and act :: "'a world_scheme action"
  assumes respond_keeps: "I w \<Longrightarrow> I (snd (run_state (respond m c) w))"
    and act_keeps: "I w \<Longrightarrow> er_respond r \<in> {None, Some respond} \<Longrightarrow>
      run_state (act ctx s p err) (r, w) = (res, (r', w')) \<Longrightarrow> I w' \<and> er_respond r' \<in> {None, Some respond}"
    and cause_keeps: "I w \<Longrightarrow> I (snd (run_state (perform CtxCause) w))"

sublocale dispatch_invariant \<subseteq> pair: dispatch_pair_invariant
  "\<lambda>s. I (snd s) \<and> er_respond (fst s) \<in> {None, Some respond}" act
proof
  fix r :: "'a world_scheme errorResponse" and w m c
  assume "I (snd (r, w)) \<and> er_respond (fst (r, w)) \<in> {None, Some respond}"
  then show "I (snd (snd (response_send m c r w))) \<and> er_respond (fst (snd (response_send m c r w))) \<in> {None, Some respond}"
    using respond_keeps [of w m c]
    by (auto simp: response_send_def send_begin_def send_finish_def split: if_splits option.splits prod.splits)
next
  fix r :: "'a world_scheme errorResponse" and w c
  assume "I (snd (r, w)) \<and> er_respond (fst (r, w)) \<in> {None, Some respond}"
  then show "I (snd (snd (send_begin c r), w)) \<and> er_respond (fst (snd (send_begin c r), w)) \<in> {None, Some respond}"
    by (auto simp: send_begin_def split: if_splits option.splits)
next
  fix s :: "'a world_scheme errorResponse \<times> 'a world_scheme" and ctx sc op err
  assume "I (snd s) \<and> er_respond (fst s) \<in> {None, Some respond}"
  then show "I (snd (snd (run_state (act ctx sc op err) s))) \<and> er_respond (fst (snd (run_state (act ctx sc op err) s))) \<in> {None, Some respond}"
    using act_keeps [of "snd s" "fst s" ctx sc op err] by (cases "run_state (act ctx sc op err) s") auto
next
  fix r :: "'a world_scheme errorResponse" and w
  assume "I (snd (r, w)) \<and> er_respond (fst (r, w)) \<in> {None, Some respond}"
  then show "I (snd (r, snd (run_state (perform CtxCause) w))) \<and> er_respond (fst (r, snd (run_state (perform CtxCause) w))) \<in> {None, Some respond}"
    using cause_keeps by simp
qed

context dispatch_invariant
begin

lemma dispatch_keeps:
  assumes "I w" "er_respond response \<in> {None, Some respond}"
    and "run_state (dispatchError cutoff ctx handler scope operation err (Some response) (Some act)) w = ((res, rr), w')"
  shows "I w'"
proof (cases err)
  case None
  then show ?thesis using assms by (simp add: dispatchError_def)
next
  case (Some e)
  show ?thesis
    by (rule pair.pair_dispatch [OF _ assms(3) [unfolded Some]]) (use assms in auto)
qed

lemma d_dispatch:
  "er_respond response \<in> {None, Some respond} \<Longrightarrow>
   keeps I (dispatchError cutoff ctx handler scope operation err (Some response) (Some act))"
  by (rule keepsI) (metis dispatch_keeps prod.collapse)

end

text \<open>
  An invariant that the effects of the error handling itself keep: logging, closing the
  connection, and the look at the cause.
\<close>

fun quiet :: "effect \<Rightarrow> bool" where
  "quiet (LogFailed _ _ _) = True"
| "quiet (LogEscalate _ _ _ _) = True"
| "quiet RunCloser = True"
| "quiet CloseConn = True"
| "quiet CtxCause = True"
| "quiet _ = False"

lemma run_dispatch_defaulted:
  "run_state (dispatchError cutoff ctx handler scope operation (Some e) None act) w =
   run_state (dispatchError cutoff ctx handler scope operation (Some e)
     (Some (newErrorResponse (Some (unsupportedResponder ctx)))) act) w"
  by (simp add: dispatchError_def)

definition standard_actions :: "'a world_scheme action set" where
  "standard_actions = {defaultLogAndFailErrorAction, defaultClosingConnectionErrorAction,
     defaultClosingConnectionAndLogErrorAction}"

lemma standard_actions_mem [simp]:
  "defaultLogAndFailErrorAction \<in> standard_actions"
  "defaultClosingConnectionErrorAction \<in> standard_actions"
  "defaultClosingConnectionAndLogErrorAction \<in> standard_actions"
  by (simp_all add: standard_actions_def)

locale quiet_invariant =
  fixes I :: "'a world_scheme \<Rightarrow> bool"
  assumes quiet_keeps: "I w \<Longrightarrow> quiet e \<Longrightarrow> I (snd (run_state (perform e) w))"
begin

lemma emit_keeps: "I w \<Longrightarrow> quiet e \<Longrightarrow> I (snd (run_state (emit e) w))"
  using quiet_keeps [of w e] by simp

lemma close_keeps: "I w \<Longrightarrow> I (snd (run_state (closeSSHConnection ctx) w))"
  using emit_keeps [of w RunCloser] emit_keeps [of w CloseConn]
  by (auto simp: closeSSHConnection_def split: option.splits)

lemma log_action_keeps:
  "I w \<Longrightarrow> run_state (defaultLogAndFailErrorAction ctx s p err) (r, w) = (res, (r', w')) \<Longrightarrow> I w' \<and> r' = r"
  using emit_keeps [of w] by (auto simp: defaultLogAndFailErrorAction_def split: option.splits)

lemma closing_action_keeps:
  assumes "I w" "run_state (defaultClosingConnectionErrorAction ctx s p err) (r, w) = (res, (r', w'))"
  shows "I w' \<and> r' = r"
proof (cases err)
  case None
  then show ?thesis using assms by (simp add: defaultClosingConnectionErrorAction_def)
next
  case (Some e)
  then show ?thesis using assms close_keeps [OF assms(1), of "Some ctx"]
    by (auto simp: defaultClosingConnectionErrorAction_def split: prod.splits)
qed

lemma closing_log_action_keeps:
  assumes "I w" "run_state (defaultClosingConnectionAndLogErrorAction ctx s p err) (r, w) = (res, (r', w'))"
  shows "I w' \<and> r' = r"
proof -
  obtain b e r1 w1 where 1: "run_state (defaultClosingConnectionErrorAction ctx s p err) (r, w) = ((b, e), (r1, w1))"
    by (metis prod.exhaust)
  with closing_action_keeps [OF assms(1) this] assms(2) log_action_keeps [of w1 ctx s p e r]
  show ?thesis by (auto simp: defaultClosingConnectionAndLogErrorAction_def)
qed

lemma standard_action_keeps:
  assumes "act \<in> standard_actions" "I w" "run_state (act ctx s p err) (r, w) = (res, (r', w'))"
  shows "I w' \<and> r' = r"
proof -
  from assms(1) consider "act = defaultLogAndFailErrorAction" | "act = defaultClosingConnectionErrorAction"
    | "act = defaultClosingConnectionAndLogErrorAction" unfolding standard_actions_def by blast
  then show ?thesis
  proof cases
    case 1
    from assms(3) show ?thesis unfolding 1 by (rule log_action_keeps [OF assms(2)])
  next
    case 2
    from assms(3) show ?thesis unfolding 2 by (rule closing_action_keeps [OF assms(2)])
  next
    case 3
    from assms(3) show ?thesis unfolding 3 by (rule closing_log_action_keeps [OF assms(2)])
  qed
qed

lemma unsupported_keeps: "I w \<Longrightarrow> I (snd (run_state (unsupportedResponder ctx m c) w))"
  using close_keeps [of w "Some ctx"] by (auto simp: unsupportedResponder_def split: prod.splits)

lemma standard_dispatch_invariant:
  assumes "act \<in> standard_actions" and "\<And>w m c. I w \<Longrightarrow> I (snd (run_state (respond m c) w))"
  shows "dispatch_invariant I respond act"
proof
  fix w r ctx s p err res r' w'
  assume "I w" "er_respond r \<in> {None, Some respond}" "run_state (act ctx s p err) (r, w) = (res, (r', w'))"
  with standard_action_keeps [OF assms(1) this(1,3)] show "I w' \<and> er_respond r' \<in> {None, Some respond}" by auto
next
  fix w
  assume "I w"
  then show "I (snd (run_state (perform CtxCause) w))" by (rule quiet_keeps) simp
qed (rule assms(2))

lemma responding_action_keeps:
  assumes resp: "\<And>w m c. I w \<Longrightarrow> I (snd (run_state (respond m c) w))"
    and "I w" "er_respond r \<in> {None, Some respond}"
    and run: "run_state (respondingErrorAction message ctx s p err) (r, w) = (res, (r', w'))"
  shows "I w' \<and> er_respond r' \<in> {None, Some respond}"
proof -
  obtain e r1 w1 where send: "(if fst (response_result r) then (snd (response_result r), r, w)
      else response_send message False r w) = (e, r1, w1)" by (metis prod_cases3)
  have "I w1 \<and> er_respond r1 \<in> {None, Some respond}"
    using send assms(2,3) resp [of w message False]
    by (auto simp: response_send_def send_begin_def send_finish_def split: if_splits option.splits prod.splits)
  moreover obtain x where "run_state (defaultLogAndFailErrorAction ctx s p err) (r1, w1) = (x, (r', w'))"
    using run send by (auto simp: respondingErrorAction_def split: if_splits prod.splits)
  ultimately show ?thesis using log_action_keeps by blast
qed

lemma responding_dispatch_invariant:
  assumes "\<And>w m c. I w \<Longrightarrow> I (snd (run_state (respond m c) w))"
  shows "dispatch_invariant I respond (respondingErrorAction message)"
proof
  fix w r ctx s p err res r' w'
  assume "I w" "er_respond r \<in> {None, Some respond}"
    "run_state (respondingErrorAction message ctx s p err) (r, w) = (res, (r', w'))"
  then show "I w' \<and> er_respond r' \<in> {None, Some respond}" by (rule responding_action_keeps [rotated]) (rule assms)
next
  fix w
  assume "I w"
  then show "I (snd (run_state (perform CtxCause) w))" by (rule quiet_keeps) simp
qed (rule assms)

lemma dispatch_keeps_standard:
  assumes "I w" "act \<in> standard_actions"
    and "run_state (dispatchError cutoff ctx handler scope operation err None (Some act)) w = (res, w')"
  shows "I w'"
proof (cases err)
  case None
  then show ?thesis using assms by (simp add: dispatchError_def)
next
  case (Some e)
  from standard_dispatch_invariant [OF assms(2), of "unsupportedResponder ctx"] unsupported_keeps
  have "dispatch_invariant I (unsupportedResponder ctx) act" by blast
  from dispatch_invariant.dispatch_keeps [OF this assms(1), of "newErrorResponse (Some (unsupportedResponder ctx))"]
    assms(3) Some run_dispatch_defaulted [of cutoff ctx handler scope operation e "Some act" w]
  show ?thesis by (cases res) (simp add: newErrorResponse_def)
qed

lemma escalate_keeps:
  assumes "I w" "act \<in> standard_actions"
  shows "I (snd (run_state (dispatchErrorOrEscalate cutoff ctx handler scope operation err None (Some act)) w))"
proof -
  obtain c d rr w1 where run:
    "run_state (dispatchError cutoff ctx handler scope operation err None (Some act)) w = (((c, d), rr), w1)"
    by (metis prod.exhaust)
  note I1 = dispatch_keeps_standard [OF assms run]
  show ?thesis
  proof (cases d)
    case None
    then show ?thesis using run I1 by (simp add: dispatchErrorOrEscalate_def)
  next
    case (Some e)
    obtain s p where l: "(case err of Some e \<Rightarrow> resolveErrorLocation scope operation e | None \<Rightarrow> (scope, operation)) = (s, p)"
      by fastforce
    let ?w = "snd (run_state (emit (LogEscalate e err s p)) w1)"
    have "I ?w" using emit_keeps [OF I1] by simp
    from close_keeps [OF this, of "Some ctx"] show ?thesis using run Some l
      by (auto simp: dispatchErrorOrEscalate_def split: prod.splits)
  qed
qed

lemma q_close: "keeps I (closeSSHConnection ctx)"
  unfolding keeps_def using close_keeps by blast

lemma q_closed: "valid I (closeSSHConnection (Some ctx)) (\<lambda>_ w. I w \<and> closed ctx w)"
  by (rule validI) (metis close_closed close_keeps snd_conv)

lemma q_emit: "quiet e \<Longrightarrow> keeps I (emit e)"
  unfolding keeps_def using emit_keeps by blast

lemma q_perform: "quiet e \<Longrightarrow> keeps I (perform e)"
  unfolding keeps_def using quiet_keeps by blast

lemma q_dispatch:
  "act \<in> standard_actions \<Longrightarrow> keeps I (dispatchError cutoff ctx handler scope operation err None (Some act))"
  by (rule keepsI) (rule dispatch_keeps_standard)

lemma q_escalate:
  "act \<in> standard_actions \<Longrightarrow> keeps I (dispatchErrorOrEscalate cutoff ctx handler scope operation err None (Some act))"
  unfolding keeps_def using escalate_keeps by blast

end

section \<open>One response\<close>

text \<open>
  How often the function behind a responder runs: a step is such a run or another effect. An
  action is respectful when it uses the responder only through \<open>send\<close>.
\<close>

datatype wstep = StepRespond bytes bool | StepEffect effect

definition run_step :: "'a world_scheme responder option \<Rightarrow> wstep \<Rightarrow> 'a world_scheme \<Rightarrow> 'a world_scheme" where
  "run_step respond st w = (case st of
     StepRespond m cl \<Rightarrow> (case respond of None \<Rightarrow> w | Some f \<Rightarrow> snd (run_state (f m cl) w))
   | StepEffect e \<Rightarrow> snd (run_state (perform e) w))"

definition responds :: "wstep list \<Rightarrow> nat" where
  "responds st = length (filter (\<lambda>s. case s of StepRespond _ _ \<Rightarrow> True | _ \<Rightarrow> False) st)"

lemma responds_simps [simp]:
  "responds [] = 0" "responds (StepRespond m c # st) = Suc (responds st)"
  "responds (StepEffect e # st) = responds st" "responds (st @ st') = responds st + responds st'"
  by (simp_all add: responds_def)

definition may_respond :: "'w errorResponse \<Rightarrow> nat" where
  "may_respond r = (if er_active r \<and> \<not> er_attempted r \<and> er_respond r \<noteq> None then 1 else 0)"

definition uses_once :: "'a world_scheme errorResponse \<times> 'a world_scheme \<Rightarrow> 'a world_scheme errorResponse \<times> 'a world_scheme \<Rightarrow> bool" where
  "uses_once s s' \<longleftrightarrow> er_respond (fst s') = er_respond (fst s) \<and>
     (\<exists>st. snd s' = fold (run_step (er_respond (fst s))) st (snd s)
        \<and> responds st + may_respond (fst s') \<le> may_respond (fst s))"

definition respectful :: "'a world_scheme action \<Rightarrow> bool" where
  "respectful act \<longleftrightarrow> (\<forall>ctx s p err rw. uses_once rw (snd (run_state (act ctx s p err) rw)))"

lemma uses_once_refl [simp]: "uses_once s s"
  by (auto simp: uses_once_def intro!: exI [of _ "[]"])

lemma uses_once_trans: "uses_once s s' \<Longrightarrow> uses_once s' s'' \<Longrightarrow> uses_once s s''"
  unfolding uses_once_def
proof (elim conjE exE)
  fix st st'
  assume "er_respond (fst s') = er_respond (fst s)" "er_respond (fst s'') = er_respond (fst s')"
    "snd s' = fold (run_step (er_respond (fst s))) st (snd s)"
    "snd s'' = fold (run_step (er_respond (fst s'))) st' (snd s')"
    "responds st + may_respond (fst s') \<le> may_respond (fst s)"
    "responds st' + may_respond (fst s'') \<le> may_respond (fst s')"
  then show "er_respond (fst s'') = er_respond (fst s) \<and>
    (\<exists>st. snd s'' = fold (run_step (er_respond (fst s))) st (snd s)
      \<and> responds st + may_respond (fst s'') \<le> may_respond (fst s))"
    by (auto intro!: exI [of _ "st @ st'"])
qed

lemma uses_once_effect: "uses_once (r, w) (r, w\<lparr>w_trace := w_trace w @ [(e, w_env w (w_trace w) e)]\<rparr>)"
  by (auto simp: uses_once_def run_step_def intro!: exI [of _ "[StepEffect e]"])

lemma send_uses_once: "uses_once (r, w) (snd (response_send m c r w))"
proof (cases "may_respond r = 0")
  case True
  then show ?thesis
    by (auto simp: uses_once_def response_send_def send_begin_def may_respond_def
        split: if_splits option.splits intro!: exI [of _ "[]"])
next
  case False
  then obtain f where "er_respond r = Some f" by (auto simp: may_respond_def split: if_splits)
  with False show ?thesis
    by (auto simp: uses_once_def response_send_def send_begin_def send_finish_def may_respond_def run_step_def
        split: if_splits prod.splits intro!: exI [of _ "[StepRespond m c]"])
qed

lemma spawn_uses_once: "uses_once (r, w) (snd (send_begin c r), w)"
  by (auto simp: uses_once_def send_begin_def may_respond_def split: option.splits intro!: exI [of _ "[]"])

lemma respectfulI: "(\<And>ctx s p err rw. uses_once rw (snd (run_state (act ctx s p err) rw))) \<Longrightarrow> respectful act"
  unfolding respectful_def by blast

lemma respectfulD: "respectful act \<Longrightarrow> uses_once rw (snd (run_state (act ctx s p err) rw))"
  unfolding respectful_def by blast

lemma respectful_log: "respectful defaultLogAndFailErrorAction"
proof (rule respectfulI)
  fix ctx s p err and rw :: "'a world_scheme errorResponse \<times> 'a world_scheme"
  show "uses_once rw (snd (run_state (defaultLogAndFailErrorAction ctx s p err) rw))"
    by (cases rw; cases err) (simp_all add: defaultLogAndFailErrorAction_def uses_once_effect)
qed

lemma respectful_closing: "respectful defaultClosingConnectionErrorAction"
proof (rule respectfulI)
  fix ctx s p err and rw :: "'a world_scheme errorResponse \<times> 'a world_scheme"
  show "uses_once rw (snd (run_state (defaultClosingConnectionErrorAction ctx s p err) rw))"
    by (cases rw) (simp add: defaultClosingConnectionErrorAction_def closeSSHConnection_def uses_once_effect)
qed

lemma respectful_closing_log: "respectful defaultClosingConnectionAndLogErrorAction"
proof (rule respectfulI)
  fix ctx s p err and rw :: "'a world_scheme errorResponse \<times> 'a world_scheme"
  obtain b e rw' where "run_state (defaultClosingConnectionErrorAction ctx s p err) rw = ((b, e), rw')"
    by (metis prod.exhaust)
  with respectfulD [OF respectful_closing, of rw ctx s p err] respectfulD [OF respectful_log, of rw' ctx s p e]
  show "uses_once rw (snd (run_state (defaultClosingConnectionAndLogErrorAction ctx s p err) rw))"
    by (auto simp: defaultClosingConnectionAndLogErrorAction_def intro: uses_once_trans)
qed

lemmas respectful_defaults = respectful_log respectful_closing respectful_closing_log

lemma run_call_uses_once:
  assumes "respectful act"
  shows "uses_once s (run_call (located_default ctx act scope operation e) c s)"
proof (cases c)
  case (CallRespond m cl)
  then show ?thesis using send_uses_once [of "fst s" "snd s"] by (simp add: run_call_def)
next
  case (CallSpawnRespond cl)
  then show ?thesis using spawn_uses_once [of "fst s" "snd s"] by (simp add: run_call_def)
next
  case (CallDefault err)
  then show ?thesis using respectfulD [OF assms]
    by (cases "resolveErrorLocation scope operation e") (simp add: run_call_def located_default_def)
qed

lemma run_calls_use_once:
  assumes "respectful act"
  shows "uses_once s (fold (run_call (located_default ctx act scope operation e)) cs s)"
proof (induction cs arbitrary: s)
  case (Cons c cs)
  show ?case unfolding fold_simps
    by (rule uses_once_trans [OF run_call_uses_once [OF assms] Cons.IH])
qed simp

text \<open>
  The function behind a responder runs at most once in a dispatch, whatever the user's handler
  and the default action send, provided the default action uses the responder only through
  \<open>send\<close>; everything else the dispatch does are effects of its own.
\<close>

theorem dispatch_responds_at_most_once:
  fixes act :: "'a world_scheme action"
  assumes "respectful act"
  shows "\<exists>st. snd (run_state (dispatchError cutoff ctx handler scope operation (Some e)
      (Some (newErrorResponse respond)) (Some act)) w) = fold (run_step respond) st w \<and> responds st \<le> 1"
proof -
  obtain res rr w' where run: "run_state (dispatchError cutoff ctx handler scope operation (Some e)
      (Some (newErrorResponse respond)) (Some act)) w = ((res, rr), w')"
    by (metis prod.exhaust)
  from dispatchError_calls [OF this] obtain cs r v where
    cs: "(r, v) = fold (run_call (located_default ctx act scope operation e)) cs (newErrorResponse respond, w)"
    and w': "w' = v \<or> w' = snd (run_state (perform CtxCause) v)" by blast
  from run_calls_use_once [OF assms, of "(newErrorResponse respond, w)" ctx scope operation e cs] obtain st where
    st: "v = fold (run_step respond) st w" "responds st \<le> may_respond (newErrorResponse respond)"
    unfolding cs [symmetric] by (auto simp: uses_once_def newErrorResponse_def)
  then have "responds st \<le> 1" by (auto simp: may_respond_def split: if_splits)
  moreover have "snd (run_state (perform CtxCause) v) = fold (run_step respond) (st @ [StepEffect CtxCause]) w"
    by (simp add: st(1) run_step_def)
  ultimately show ?thesis
    using w' st(1) run by (elim disjE) (auto intro: exI [of _ st] exI [of _ "st @ [StepEffect CtxCause]"])
qed

lemma dispatch_responds_at_most_once_witness:
  "\<exists>st. snd (run_state (dispatchError None \<lparr>ctx_closer = True, ctx_conn = True, ctx_hasDone = True\<rparr>
      (Some (\<lambda>tr s p e. Respond [] True (\<lambda>_. Next (Some e) (\<lambda>(c, f). Return c f)))) ErrorScopeSession ErrorOperationHandle
      (Some (Opaque 1)) (Some (newErrorResponse (Some (unsupportedResponder \<lparr>ctx_closer = True, ctx_conn = True, ctx_hasDone = True\<rparr>))))
      (Some defaultLogAndFailErrorAction)) \<lparr>w_trace = [], w_env = \<lambda>_ _. None\<rparr>)
    = fold (run_step (Some (unsupportedResponder \<lparr>ctx_closer = True, ctx_conn = True, ctx_hasDone = True\<rparr>))) st
        \<lparr>w_trace = [], w_env = \<lambda>_ _. None\<rparr>
     \<and> responds st \<le> 1"
  by (rule dispatch_responds_at_most_once) (rule respectful_defaults)

text \<open>
  After a dispatch nothing the handler still does, on a goroutine that goes on or with a
  responder or next handler it kept, reaches the world: each such call returns an error that
  says the handle has expired, and changes neither the recorded outcome nor the world.
\<close>

theorem late_calls_are_inert:
  "response_send m c (response_expire r) w = (Some (Var ErrErrorResponseExpired), response_expire r, w)
   \<and> next_call err (next_expire n) r w = ((False, Some (Var ErrNextErrorHandlerExpired)), next_expire n, r, w)
   \<and> snd (run_hprog p k (response_expire r, next_expire n, w)) = (response_expire r, next_expire n, w)"
proof -
  have s: "response_send m c (response_expire r) w = (Some (Var ErrErrorResponseExpired), response_expire r, w)" for m c
    by (simp add: response_send_def send_begin_def response_expire_def)
  have n: "next_call err (next_expire n) r w = ((False, Some (Var ErrNextErrorHandlerExpired)), next_expire n, r, w)" for err r
    by (simp add: next_call_def call_begin_def next_expire_def)
  have "snd (send_begin c (response_expire r)) = response_expire r" "snd (call_begin (next_expire n)) = next_expire n" for c
    by (simp_all add: send_begin_def response_expire_def call_begin_def next_expire_def)
  then have "snd (run_hprog p k (response_expire r, next_expire n, w)) = (response_expire r, next_expire n, w)"
    by (induction p arbitrary: k) (simp_all add: s n)
  then show ?thesis using s n by simp
qed

text \<open>A handler whose calls of the next handler are all synchronous.\<close>

primrec synchronous :: "hprog \<Rightarrow> bool" where
  "synchronous (Return c e) = True"
| "synchronous (Respond m c f) = (\<forall>e. synchronous (f e))"
| "synchronous (Next err f) = (\<forall>x. synchronous (f x))"
| "synchronous (SpawnRespond m c p) = synchronous p"
| "synchronous (SpawnNext err p) = False"

lemma synchronous_completes:
  assumes "synchronous p" "nx_called n \<longrightarrow> nx_complete n"
    and "run_hprog p None (r, n, w) = (res, r', n', w')"
  shows "(\<exists>x. res = Inr x) \<and> (nx_called n' \<longrightarrow> nx_complete n')"
  using assms
proof (induction p arbitrary: r n w)
  case (Respond m c f)
  obtain e r1 w1 where "response_send m c r w = (e, r1, w1)" by (metis prod_cases3)
  with Respond.IH [of "f e" n r1 w1] Respond.prems show ?case by (auto simp: spent_def)
next
  case (Next err f)
  obtain x n1 r1 w1 where s: "next_call err n r w = (x, n1, r1, w1)" by (metis prod_cases4)
  then have "nx_called n1 \<longrightarrow> nx_complete n1"
    using Next.prems(2)
    by (auto simp: next_call_def call_begin_def call_finish_def split: if_splits option.splits prod.splits)
  with s Next.IH [of "f x" n1 r1 w1] Next.prems show ?case by (cases x) (simp add: spent_def)
qed (auto simp: spent_def)

lemma synchronous_handler_decides:
  assumes "resolveErrorLocation scope operation e = (s, p)" "synchronous (h (w_trace w) s p e)"
  obtains res r n w' where
    "run_hprog (h (w_trace w) s p e) None (response, newNextErrorHandler ctx s p act, w) = (Inr res, r, n, w')"
    and "run_state (dispatchError None ctx (Some h) scope operation (Some e) (Some response) (Some act)) w
      = ((res, Some (response_expire r)), w')"
proof -
  obtain res r n w' where run: "run_hprog (h (w_trace w) s p e) None (response, newNextErrorHandler ctx s p act, w) = (res, r, n, w')"
    by (metis prod_cases4)
  from synchronous_completes [OF assms(2) _ run] obtain x where "res = Inr x" "nx_called n \<longrightarrow> nx_complete n"
    by (auto simp: newNextErrorHandler_def)
  with run assms(1) that [of x r n w'] show thesis
    by (auto simp: dispatchError_def dispatched_def Let_def next_result_def split: prod.splits)
qed

text \<open>
  When every slot for handlers is taken, a dispatch does exactly what it does without a
  handler: the same result, the same effects. With a free slot the limit changes nothing.
\<close>

lemma full_slots_fall_back_to_the_default:
  "run_state (dispatchError None ctx (limitErrorHandler slots used (Some h)) scope operation err response act) w
   = run_state (dispatchError None ctx (if slots \<le> used then None else Some h) scope operation err response act) w"
proof (cases "slots \<le> used")
  case True
  have "dispatched None ctx (limitErrorHandler slots used (Some h)) s p e r a w
      = dispatched None ctx None s p e r a w" for s p e r a
    using True
    by (simp add: dispatched_def limitErrorHandler_def next_call_def call_begin_def newNextErrorHandler_def
        call_finish_def next_result_def Let_def spent_def split: prod.splits)
  with True show ?thesis by (simp add: dispatchError_def split: option.splits prod.splits)
next
  case False
  have "dispatched None ctx (limitErrorHandler slots used (Some h)) s p e r a w
      = dispatched None ctx (Some h) s p e r a w" for s p e r a
    using False by (simp add: dispatched_def limitErrorHandler_def)
  with False show ?thesis by (simp add: dispatchError_def split: option.splits prod.splits)
qed

end
