(* ===== verification/Request.thy ===== *)
theory Request
  imports ErrorHandling
begin

text \<open>
  \<open>request.go\<close> and \<open>Server.handleRequests\<close> of \<open>server.go\<close>: the one-shot response of a global
  request, the user's request handler, and the loop that answers the requests of a connection
  in their order. The state of the loop is the world and the response of the current request.
\<close>

section \<open>The response of one request\<close>

text \<open>
  A raw request: its number, type, payload and whether the client wants a reply.
  \<open>rr_request\<close> is nil after \<open>release\<close>; \<open>rr_done\<close> counts how often the channel \<open>done\<close> is closed
  (a second close would panic).
\<close>

record gossh_request =
  raw_id :: nat
  raw_type :: string
  raw_payload :: bytes
  raw_wantReply :: bool

record requestResponse =
  rr_request :: "gossh_request option"
  rr_active :: bool
  rr_attempted :: bool
  rr_complete :: bool
  rr_accepted :: bool
  rr_err :: "gerr option"
  rr_done :: nat

record reqworld = world +
  rq_response :: requestResponse

definition newRequestResponse :: "gossh_request \<Rightarrow> requestResponse" where
  "newRequestResponse raw = \<lparr>rr_request = Some raw, rr_active = True, rr_attempted = False,
     rr_complete = False, rr_accepted = False, rr_err = None, rr_done = 0\<rparr>"

definition newRequest :: "gossh_request \<Rightarrow> ('a reqworld_scheme, unit) state" where
  "newRequest raw = modify (\<lambda>w. w\<lparr>rq_response := newRequestResponse raw\<rparr>)"

text \<open>\<open>respond\<close>: the section that decides, the reply, the section that completes.\<close>

definition respond_begin ::
  "bool \<Rightarrow> bool \<Rightarrow> requestResponse \<Rightarrow> (gerr + gossh_request option) \<times> requestResponse" where
  "respond_begin accepted requireActive r =
     (if requireActive \<and> \<not> rr_active r then (Inl (Var ErrRequestResponseExpired), r)
      else if rr_attempted r \<or> rr_complete r then (Inl (Var ErrRequestResponseAlreadySent), r)
      else (Inr (rr_request r), r\<lparr>rr_attempted := True, rr_accepted := accepted\<rparr>))"

definition respond_reply :: "bool \<Rightarrow> bytes \<Rightarrow> gossh_request option \<Rightarrow> ('a world_scheme, gerr option) state" where
  "respond_reply accepted payload request = (case request of
     Some raw \<Rightarrow>
       if raw_wantReply raw then do {
         err \<leftarrow> perform (Reply (raw_id raw) accepted payload);
         State_Monad.return (map_option (locateError ErrorScopeRequest ErrorOperationReply) err) }
       else State_Monad.return None
   | None \<Rightarrow> State_Monad.return None)"

definition respond_finish :: "gerr option \<Rightarrow> requestResponse \<Rightarrow> requestResponse" where
  "respond_finish err r = r\<lparr>rr_complete := True, rr_err := err, rr_done := Suc (rr_done r)\<rparr>"

definition update_response :: "(requestResponse \<Rightarrow> requestResponse) \<Rightarrow> ('a reqworld_scheme, unit) state" where
  "update_response f = modify (\<lambda>w. w\<lparr>rq_response := f (rq_response w)\<rparr>)"

definition request_respond :: "bool \<Rightarrow> bytes \<Rightarrow> bool \<Rightarrow> ('a reqworld_scheme, gerr option) state" where
  "request_respond accepted payload requireActive = do {
     r \<leftarrow> gets rq_response;
     (case respond_begin accepted requireActive r of
        (Inl err, _) \<Rightarrow> State_Monad.return (Some err)
      | (Inr request, r') \<Rightarrow> do {
          update_response (\<lambda>_. r');
          err \<leftarrow> respond_reply accepted payload request;
          update_response (respond_finish err);
          State_Monad.return err }) }"

definition request_Accept :: "bytes \<Rightarrow> ('a reqworld_scheme, gerr option) state" where
  "request_Accept payload = request_respond True payload True"

definition request_Reject :: "bytes \<Rightarrow> ('a reqworld_scheme, gerr option) state" where
  "request_Reject message = request_respond False message True"

definition rejectFromErrorHandler :: "bytes \<Rightarrow> ('a reqworld_scheme, gerr option) state" where
  "rejectFromErrorHandler message = do {
     err \<leftarrow> request_respond False message False;
     State_Monad.return
       (case err of
          Some e \<Rightarrow> if errors_Is e (Var ErrRequestResponseAlreadySent)
                    then Some (Var ErrErrorResponseUnsupported) else err
        | None \<Rightarrow> err) }"

definition request_expire :: "('a reqworld_scheme, unit) state" where
  "request_expire = update_response (\<lambda>r. r\<lparr>rr_active := False\<rparr>)"

definition request_release :: "('a reqworld_scheme, unit) state" where
  "request_release = update_response (\<lambda>r. r\<lparr>rr_active := False, rr_request := None\<rparr>)"

definition completeWithoutResponse :: "('a reqworld_scheme, unit) state" where
  "completeWithoutResponse = update_response (\<lambda>r.
     if \<not> rr_attempted r \<and> \<not> rr_complete r then r\<lparr>rr_complete := True, rr_done := Suc (rr_done r)\<rparr> else r)"

definition request_result :: "requestResponse \<Rightarrow> bool \<times> bool \<times> bool \<times> gerr option" where
  "request_result r = (rr_attempted r, rr_complete r, rr_accepted r, rr_err r)"

text \<open>\<open>wait\<close>: \<open>cause\<close> is the context's cause when its cancellation is seen first.\<close>

definition request_wait :: "gerr option option \<Rightarrow> requestResponse \<Rightarrow> (bool \<times> gerr option) option" where
  "request_wait canceled r = (case canceled of
     Some cause \<Rightarrow> Some (False, cause)
   | None \<Rightarrow>
       if rr_done r = 0 then None
       else Some (if \<not> rr_complete r then (False, Some (Var ErrRequestResponseIncomplete))
                  else (rr_accepted r, rr_err r)))"

section \<open>The user's request handler\<close>

text \<open>
  What a handler does with the response: accept or reject and go on with the result, start such a
  call on a goroutine that has not finished when the handler returns, or return.
\<close>

datatype rprog =
    RReturn "gerr option"
  | RAccept bytes "gerr option \<Rightarrow> rprog"
  | RReject bytes "gerr option \<Rightarrow> rprog"
  | RSpawn bool bytes rprog

type_synonym requestHandler = "event list \<Rightarrow> gossh_request \<Rightarrow> rprog"

primrec run_rprog :: "rprog \<Rightarrow> ('a reqworld_scheme, gerr option) state" where
  "run_rprog (RReturn err) = State_Monad.return err"
| "run_rprog (RAccept payload f) = do { err \<leftarrow> request_Accept payload; run_rprog (f err) }"
| "run_rprog (RReject message f) = do { err \<leftarrow> request_Reject message; run_rprog (f err) }"
| "run_rprog (RSpawn accepted payload p) = do {
     update_response (\<lambda>r. snd (respond_begin accepted True r));
     run_rprog p }"

section \<open>Server.handleRequests\<close>

record requests_config =
  rc_ctx :: goctx
  rc_handlers :: "string \<Rightarrow> requestHandler option"
  rc_errorHandler :: "errorHandler option"
  rc_cutoff :: "nat option"

definition handleRequestReplyError :: "requests_config \<Rightarrow> gerr \<Rightarrow> ('a reqworld_scheme, unit) state" where
  "handleRequestReplyError c err = do {
     _ \<leftarrow> dispatchErrorOrEscalate (rc_cutoff c) (rc_ctx c) (rc_errorHandler c) ErrorScopeRequest ErrorOperationReply
       (Some err) None (Some defaultClosingConnectionAndLogErrorAction);
     closeSSHConnection (Some (rc_ctx c)) }"

definition request_responder :: "requests_config \<Rightarrow> gossh_request \<Rightarrow> 'a reqworld_scheme responder" where
  "request_responder c raw message closeAfterResponse = do {
     err \<leftarrow> (if \<not> raw_wantReply raw then State_Monad.return (Some (Var ErrErrorResponseUnsupported))
            else rejectFromErrorHandler message);
     only_if closeAfterResponse (closeSSHConnection (Some (rc_ctx c)));
     State_Monad.return err }"

text \<open>The rest of an iteration, after the handler's error has been dispatched.\<close>

definition finishRequest :: "requests_config \<Rightarrow> gossh_request \<Rightarrow> gerr option \<Rightarrow> bool \<Rightarrow> ('a reqworld_scheme, bool) state" where
  "finishRequest c raw handlerErr canContinue = do {
     (attempted, complete, _, responseErr) \<leftarrow> gets (\<lambda>w. request_result (rq_response w));
     let responseErr = (if attempted \<and> \<not> complete then Some (Var ErrRequestResponseIncomplete) else responseErr);
     (case responseErr of
        Some re \<Rightarrow> do {
          request_release;
          (if (case handlerErr of None \<Rightarrow> True | Some he \<Rightarrow> \<not> errors_Is he re)
           then handleRequestReplyError c re
           else closeSSHConnection (Some (rc_ctx c)));
          State_Monad.return False }
      | None \<Rightarrow> do {
          responseErr \<leftarrow>
            (if \<not> attempted then
               (if raw_wantReply raw then request_respond False [] False
                else do { completeWithoutResponse; State_Monad.return None })
             else State_Monad.return None);
          (case responseErr of
             Some re \<Rightarrow> do { request_release; handleRequestReplyError c re; State_Monad.return False }
           | None \<Rightarrow> do {
               request_release;
               (if \<not> canContinue then do { closeSSHConnection (Some (rc_ctx c)); State_Monad.return False }
                else State_Monad.return True) }) }) }"

text \<open>One iteration of the loop; the result says whether the loop goes on.\<close>

definition handleRequest :: "requests_config \<Rightarrow> gossh_request \<Rightarrow> ('a reqworld_scheme, bool) state" where
  "handleRequest c raw = do {
     newRequest raw;
     (case (case rc_handlers c (raw_type raw) of None \<Rightarrow> rc_handlers c ''default'' | Some h \<Rightarrow> Some h) of
        None \<Rightarrow> do {
          err \<leftarrow> request_respond False [] False;
          request_expire;
          request_release;
          (case err of
             Some e \<Rightarrow> do { handleRequestReplyError c e; State_Monad.return False }
           | None \<Rightarrow> State_Monad.return True) }
      | Some handler \<Rightarrow> do {
          tr \<leftarrow> gets w_trace;
          handlerErr \<leftarrow> run_rprog (handler tr raw);
          request_expire;
          attempted \<leftarrow> gets (\<lambda>w. rr_attempted (rq_response w));
          let handlerErr = (if handlerErr = None \<and> \<not> attempted \<and> raw_wantReply raw
            then Some (locateError ErrorScopeRequest ErrorOperationReply (Var ErrRequestResponseNotSent))
            else handlerErr);
          (case handlerErr of
             None \<Rightarrow> finishRequest c raw None True
           | Some he \<Rightarrow> do {
               ((canContinue, dispatchErr), _) \<leftarrow> dispatchError (rc_cutoff c) (rc_ctx c) (rc_errorHandler c)
                 ErrorScopeRequest ErrorOperationHandle (Some he)
                 (Some (newErrorResponse (Some (request_responder c raw)))) (Some (respondingErrorAction []));
               (case dispatchErr of
                  Some d \<Rightarrow> do {
                    let (scope, operation) = resolveErrorLocation ErrorScopeRequest ErrorOperationHandle he;
                    emit (LogEscalate d (Some he) scope operation);
                    closeSSHConnection (Some (rc_ctx c));
                    completeWithoutResponse;
                    request_release;
                    State_Monad.return False }
                | None \<Rightarrow> finishRequest c raw (Some he) canContinue) }) }) }"

primrec handleRequests :: "requests_config \<Rightarrow> gossh_request list \<Rightarrow> ('a reqworld_scheme, unit) state" where
  "handleRequests c [] = State_Monad.return ()"
| "handleRequests c (raw # raws) = do {
     continue \<leftarrow> handleRequest c raw;
     (if continue then handleRequests c raws else State_Monad.return ()) }"

section \<open>What one iteration keeps\<close>

fun is_reply :: "effect \<Rightarrow> bool" where
  "is_reply (Reply _ _ _) = True"
| "is_reply _ = False"

definition replies :: "event list \<Rightarrow> event list" where
  "replies tr = filter (\<lambda>(e, _). is_reply e) tr"

lemma replies_simps [simp]:
  "replies [] = []" "replies (tr @ tr') = replies tr @ replies tr'"
  "replies ((e, r) # tr) = (if is_reply e then (e, r) # replies tr else replies tr)"
  by (simp_all add: replies_def)

lemma quiet_not_reply [simp]: "quiet e \<Longrightarrow> \<not> is_reply e"
  by (cases e) auto

text \<open>
  While a request is handled: nothing has been replied unless a response was attempted and is
  complete; then exactly one reply was sent if the client wants one, none otherwise, and the
  recorded error says whether it failed. The channel \<open>done\<close> is closed at most once.
\<close>

definition answered :: "gossh_request \<Rightarrow> requestResponse \<Rightarrow> event list \<Rightarrow> bool" where
  "answered raw r evs \<longleftrightarrow>
     (if rr_attempted r \<and> rr_complete r \<and> raw_wantReply raw
      then \<exists>a p e. evs = [(Reply (raw_id raw) a p, e)] \<and> (e = None \<longleftrightarrow> rr_err r = None)
      else evs = [] \<and> (rr_attempted r \<and> rr_complete r \<longrightarrow> rr_err r = None))
     \<and> rr_done r = (if rr_complete r then 1 else 0)
     \<and> (rr_err r \<noteq> None \<longrightarrow> rr_attempted r \<and> rr_complete r)"

definition rq_inv :: "gossh_request \<Rightarrow> event list \<Rightarrow> 'a reqworld_scheme \<Rightarrow> bool" where
  "rq_inv raw tr w \<longleftrightarrow> rr_request (rq_response w) = Some raw \<and>
     (\<exists>new. w_trace w = tr @ new \<and> answered raw (rq_response w) (replies new))"

lemma rq_inv_quiet: "rq_inv raw tr w \<Longrightarrow> quiet e \<Longrightarrow> rq_inv raw tr (snd (run_state (perform e) w))"
  by (auto simp: rq_inv_def)

interpretation rq_quiet: quiet_invariant "rq_inv raw tr" for raw tr
  by unfold_locales (rule rq_inv_quiet)

lemma rq_inv_new: "rq_inv raw (w_trace w) (snd (run_state (newRequest raw) w))"
  by (simp add: rq_inv_def newRequest_def newRequestResponse_def answered_def)

lemma keeps_update:
  assumes "\<And>r. rr_request (f r) = rr_request r" "\<And>r evs. answered raw r evs \<Longrightarrow> answered raw (f r) evs"
  shows "keeps (rq_inv raw tr) (update_response f)"
  by (rule keepsI) (use assms in \<open>auto simp: rq_inv_def update_response_def\<close>)

lemma answered_active [simp]: "answered raw (r\<lparr>rr_active := b\<rparr>) evs = answered raw r evs"
  by (simp add: answered_def)

lemma answered_request [simp]: "answered raw (r\<lparr>rr_request := q\<rparr>) evs = answered raw r evs"
  by (simp add: answered_def)

lemma answered_fresh: "answered raw r evs \<Longrightarrow> \<not> rr_attempted r \<Longrightarrow> \<not> rr_complete r \<Longrightarrow> evs = [] \<and> rr_done r = 0 \<and> rr_err r = None"
  by (simp add: answered_def)

lemma keeps_respond: "keeps (rq_inv raw tr) (request_respond a p b)"
  unfolding keeps_def
proof (intro allI impI)
  fix w :: "'a reqworld_scheme"
  let ?r = "rq_response w"
  assume i: "rq_inv raw tr w"
  then obtain new where n: "w_trace w = tr @ new" "answered raw ?r (replies new)" "rr_request ?r = Some raw"
    by (auto simp: rq_inv_def)
  show "rq_inv raw tr (snd (run_state (request_respond a p b) w))"
  proof (cases "b \<and> \<not> rr_active ?r \<or> rr_attempted ?r \<or> rr_complete ?r")
    case True
    then have "run_state (request_respond a p b) w = (fst (run_state (request_respond a p b) w), w)"
      by (auto simp: request_respond_def respond_begin_def)
    with i show ?thesis by (metis snd_conv)
  next
    case False
    with answered_fresh [OF n(2)] have f: "replies new = []" "rr_done ?r = 0" by auto
    let ?rep = "w_env w (w_trace w) (Reply (raw_id raw) a p)"
    have "snd (run_state (request_respond a p b) w) =
      (if raw_wantReply raw then
         w\<lparr>w_trace := tr @ new @ [(Reply (raw_id raw) a p, ?rep)],
           rq_response := ?r\<lparr>rr_attempted := True, rr_accepted := a, rr_complete := True,
             rr_err := map_option (locateError ErrorScopeRequest ErrorOperationReply) ?rep, rr_done := 1\<rparr>\<rparr>
       else w\<lparr>rq_response := ?r\<lparr>rr_attempted := True, rr_accepted := a, rr_complete := True, rr_err := None, rr_done := 1\<rparr>\<rparr>)"
      using False n f(2)
      by (cases b) (simp_all add: request_respond_def respond_begin_def respond_reply_def respond_finish_def update_response_def)
    then show ?thesis using n f(1) by (simp add: rq_inv_def answered_def)
  qed
qed

lemma keeps_expire: "keeps (rq_inv raw tr) request_expire"
  unfolding request_expire_def by (rule keeps_update) simp_all

lemma keeps_begin: "keeps (rq_inv raw tr) (update_response (\<lambda>r. snd (respond_begin a b r)))"
proof (rule keeps_update)
  fix r evs
  assume "answered raw r evs"
  then show "answered raw (snd (respond_begin a b r)) evs"
    using answered_fresh [of raw r evs] by (cases "rr_attempted r \<or> rr_complete r")
      (auto simp: respond_begin_def, auto simp: answered_def)
qed (simp add: respond_begin_def)

lemma keeps_complete: "keeps (rq_inv raw tr) completeWithoutResponse"
  unfolding completeWithoutResponse_def
proof (rule keeps_update)
  fix r evs
  assume an: "answered raw r evs"
  show "answered raw (if \<not> rr_attempted r \<and> \<not> rr_complete r
      then r\<lparr>rr_complete := True, rr_done := Suc (rr_done r)\<rparr> else r) evs"
  proof (cases "rr_attempted r \<or> rr_complete r")
    case True
    with an show ?thesis by auto
  next
    case False
    from answered_fresh [OF an] False have "evs = []" "rr_done r = 0" "rr_err r = None" by auto
    with False show ?thesis by (simp add: answered_def)
  qed
qed simp

lemma keeps_rprog: "keeps (rq_inv raw tr) (run_rprog p)"
  by (induction p)
    (auto simp: request_Accept_def request_Reject_def intro!: keeps_intros keeps_respond keeps_begin)

lemma keeps_responder: "keeps (rq_inv raw tr) (request_responder c raw m cl)"
  unfolding request_responder_def rejectFromErrorHandler_def
  by (intro keeps_intros keeps_respond rq_quiet.q_close)

lemma keeps_reply_error: "keeps (rq_inv raw tr) (handleRequestReplyError c err)"
  unfolding handleRequestReplyError_def
  by (intro keeps_intros rq_quiet.q_close rq_quiet.q_escalate) simp

text \<open>After \<open>release\<close> the response no longer knows its request.\<close>

definition rq_sent :: "gossh_request \<Rightarrow> event list \<Rightarrow> 'a reqworld_scheme \<Rightarrow> bool" where
  "rq_sent raw tr w \<longleftrightarrow> (\<exists>new. w_trace w = tr @ new \<and> answered raw (rq_response w) (replies new))"

interpretation rq_sent: quiet_invariant "rq_sent raw tr" for raw tr
  by unfold_locales (auto simp: rq_sent_def)

lemma valid_release: "valid (rq_inv raw tr) request_release (\<lambda>_. rq_sent raw tr)"
  by (rule validI) (auto simp: rq_inv_def rq_sent_def request_release_def update_response_def)

lemma keeps_release: "keeps (\<lambda>w. rq_sent raw tr w \<and> closed ctx w) request_release"
  by (rule keepsI) (auto simp: rq_sent_def request_release_def update_response_def closed_def)

lemma keeps_complete_sent: "keeps (\<lambda>w. rq_inv raw tr w \<and> closed ctx w) completeWithoutResponse"
proof (rule keepsI)
  fix w x w'
  assume "rq_inv raw tr w \<and> closed ctx w" "run_state completeWithoutResponse w = (x, w')"
  with keepsD [OF keeps_complete] show "rq_inv raw tr w' \<and> closed ctx w'"
    by (auto simp: completeWithoutResponse_def update_response_def closed_def)
qed

text \<open>What an iteration leaves: \<open>cont\<close> says whether the loop goes on.\<close>

definition handled_request ::
  "requests_config \<Rightarrow> gossh_request \<Rightarrow> event list \<Rightarrow> bool \<Rightarrow> 'a world_scheme \<Rightarrow> bool" where
  "handled_request c raw tr cont w \<longleftrightarrow> (\<exists>new. w_trace w = tr @ new \<and>
     (if cont
      then (if raw_wantReply raw then \<exists>a p. replies new = [(Reply (raw_id raw) a p, None)] else replies new = [])
      else (replies new = [] \<or> raw_wantReply raw \<and> (\<exists>a p e. replies new = [(Reply (raw_id raw) a p, e)]))
           \<and> closed (rc_ctx c) w))"

lemma stop_handled: "rq_sent raw tr w \<and> closed (rc_ctx c) w \<Longrightarrow> handled_request c raw tr False w"
  by (auto simp: rq_sent_def handled_request_def answered_def split: if_splits)

lemma valid_stop:
  assumes "valid (rq_sent raw tr) m (\<lambda>_ w. rq_sent raw tr w \<and> closed (rc_ctx c) w)"
  shows "valid (rq_inv raw tr) (do { request_release; m; State_Monad.return False }) (handled_request c raw tr)"
  by (rule valid_bind [OF valid_release], rule valid_bind [OF assms], rule valid_pre [OF valid_return], rule stop_handled)

lemma valid_reply_error:
  "valid (rq_sent raw tr) (handleRequestReplyError c err) (\<lambda>_ w. rq_sent raw tr w \<and> closed (rc_ctx c) w)"
  unfolding handleRequestReplyError_def
  by (rule valid_bind [OF keeps_valid [OF rq_sent.q_escalate] rq_sent.q_closed]) simp

lemma valid_continue:
  assumes "\<And>w. P w \<Longrightarrow> rq_inv raw tr w \<and> (raw_wantReply raw \<longrightarrow> rr_attempted (rq_response w) \<and> rr_complete (rq_response w)
    \<and> rr_err (rq_response w) = None)"
  shows "valid P (do { request_release;
      (if \<not> can then do { closeSSHConnection (Some (rc_ctx c)); State_Monad.return False } else State_Monad.return True) })
    (handled_request c raw tr)"
proof (cases can)
  case True
  then show ?thesis
    by (intro validI)
      (auto dest!: assms simp: request_release_def update_response_def rq_inv_def handled_request_def answered_def
        split: if_splits)
next
  case False
  have "valid (rq_inv raw tr) (do { request_release; closeSSHConnection (Some (rc_ctx c)); State_Monad.return False })
      (handled_request c raw tr)"
    by (rule valid_stop) (rule rq_sent.q_closed)
  with False show ?thesis by (auto intro: valid_pre dest: assms)
qed

lemma respond_reply_response: "run_state (respond_reply a p q) w = (e, w') \<Longrightarrow> rq_response w' = rq_response w"
  by (auto simp: respond_reply_def split: option.splits if_splits)

lemma valid_respond:
  "valid (rq_inv raw tr) (request_respond a p b)
     (\<lambda>err w. rq_inv raw tr w \<and> (err = None \<longrightarrow> rr_attempted (rq_response w) \<and> rr_complete (rq_response w) \<and> rr_err (rq_response w) = None))"
proof (rule validI, intro conjI)
  fix w :: "'a reqworld_scheme" and err w'
  assume r: "rq_inv raw tr w" "run_state (request_respond a p b) w = (err, w')"
  then show "rq_inv raw tr w'" by (rule keepsD [OF keeps_respond])
  show "err = None \<longrightarrow> rr_attempted (rq_response w') \<and> rr_complete (rq_response w') \<and> rr_err (rq_response w') = None"
    using r(2) by (auto simp: request_respond_def respond_begin_def respond_finish_def update_response_def
        split: if_splits prod.splits dest!: respond_reply_response)
qed

lemma valid_finish: "valid (rq_inv raw tr) (finishRequest c raw he can) (handled_request c raw tr)"
proof -
  let ?stop = "\<lambda>re. do { request_release; handleRequestReplyError c re; State_Monad.return False }"
  let ?cont = "do { request_release;
      (if \<not> can then do { closeSSHConnection (Some (rc_ctx c)); State_Monad.return False } else State_Monad.return True) }"
  have stop: "valid (rq_inv raw tr) (?stop re) (handled_request c raw tr)" for re
    by (rule valid_stop) (rule valid_reply_error)
  have close: "valid (rq_inv raw tr) (do { request_release; closeSSHConnection (Some (rc_ctx c)); State_Monad.return False })
      (handled_request c raw tr)"
    by (rule valid_stop) (rule rq_sent.q_closed)
  have late: "valid (rq_inv raw tr)
      (do { responseErr \<leftarrow> request_respond False [] False;
            (case responseErr of Some re \<Rightarrow> ?stop re | None \<Rightarrow> ?cont) }) (handled_request c raw tr)"
    by (rule valid_bind [OF valid_respond], rule valid_option) (rule valid_continue, blast, rule valid_pre [OF stop], blast)
  have without: "valid (rq_inv raw tr) (do { completeWithoutResponse; ?cont }) (handled_request c raw tr)"
    if "\<not> raw_wantReply raw"
    by (rule valid_bind [OF keeps_valid [OF keeps_complete]], rule valid_continue) (use that in blast)
  show ?thesis
  proof (rule validI)
    fix w :: "'a reqworld_scheme" and b w'
    assume i: "rq_inv raw tr w" and run: "run_state (finishRequest c raw he can) w = (b, w')"
    let ?r = "rq_response w"
    consider (re) re where "(if rr_attempted ?r \<and> \<not> rr_complete ?r then Some (Var ErrRequestResponseIncomplete) else rr_err ?r) = Some re"
      | (sent) "rr_attempted ?r" "rr_complete ?r" "rr_err ?r = None"
      | (unsent) "\<not> rr_attempted ?r" "rr_err ?r = None"
      by (metis option.exhaust)
    then show "handled_request c raw tr b w'"
    proof cases
      case re
      then have "run_state (finishRequest c raw he can) w = run_state (?stop re) w
        \<or> run_state (finishRequest c raw he can) w
          = run_state (do { request_release; closeSSHConnection (Some (rc_ctx c)); State_Monad.return False }) w"
        by (auto simp: finishRequest_def request_result_def split: option.splits)
      then show ?thesis using run i validD [OF stop] validD [OF close] by metis
    next
      case sent
      then have "run_state (finishRequest c raw he can) w = run_state ?cont w"
        by (simp add: finishRequest_def request_result_def)
      then have run': "run_state ?cont w = (b, w')" using run by simp
      have "valid (\<lambda>v. v = w) ?cont (handled_request c raw tr)"
        by (rule valid_continue) (use i sent in auto)
      from validD [OF this refl run'] show ?thesis .
    next
      case unsent
      then show ?thesis
      proof (cases "raw_wantReply raw")
        case True
        with unsent have "run_state (finishRequest c raw he can) w = run_state (do { responseErr \<leftarrow> request_respond False [] False;
            (case responseErr of Some re \<Rightarrow> ?stop re | None \<Rightarrow> ?cont) }) w"
          by (simp add: finishRequest_def request_result_def)
        then show ?thesis using run i validD [OF late] by metis
      next
        case False
        with unsent have "run_state (finishRequest c raw he can) w = run_state (do { completeWithoutResponse; ?cont }) w"
          by (simp add: finishRequest_def request_result_def)
        then show ?thesis using run i validD [OF without [OF False]] by metis
      qed
    qed
  qed
qed

lemma valid_dispatched:
  "valid (rq_inv raw tr)
     (do { ((canContinue, dispatchErr), _) \<leftarrow> dispatchError (rc_cutoff c) (rc_ctx c) (rc_errorHandler c)
             ErrorScopeRequest ErrorOperationHandle (Some he)
             (Some (newErrorResponse (Some (request_responder c raw)))) (Some (respondingErrorAction []));
           (case dispatchErr of
              Some d \<Rightarrow> do {
                let (scope, operation) = resolveErrorLocation ErrorScopeRequest ErrorOperationHandle he;
                emit (LogEscalate d (Some he) scope operation);
                closeSSHConnection (Some (rc_ctx c));
                completeWithoutResponse;
                request_release;
                State_Monad.return False }
            | None \<Rightarrow> finishRequest c raw (Some he) canContinue) })
     (handled_request c raw tr)"
proof -
  have "dispatch_invariant (rq_inv raw tr) (request_responder c raw) (respondingErrorAction [])"
    by (rule rq_quiet.responding_dispatch_invariant) (metis keepsD keeps_responder prod.collapse)
  then have d: "keeps (rq_inv raw tr) (dispatchError (rc_cutoff c) (rc_ctx c) (rc_errorHandler c)
      ErrorScopeRequest ErrorOperationHandle (Some he)
      (Some (newErrorResponse (Some (request_responder c raw)))) (Some (respondingErrorAction [])))"
    by (rule dispatch_invariant.d_dispatch) (simp add: newErrorResponse_def)
  have e: "valid (rq_inv raw tr) (do { emit (LogEscalate d (Some he) s p); closeSSHConnection (Some (rc_ctx c));
        completeWithoutResponse; request_release; State_Monad.return False }) (handled_request c raw tr)" for d s p
  proof (rule valid_bind [OF keeps_valid [OF rq_quiet.q_emit]], simp, rule valid_bind [OF rq_quiet.q_closed],
      rule valid_bind [OF keeps_valid [OF keeps_complete_sent]])
    have "valid (\<lambda>w. rq_inv raw tr w \<and> closed (rc_ctx c) w) request_release (\<lambda>_ w. rq_sent raw tr w \<and> closed (rc_ctx c) w)"
      by (rule valid_pre [OF keeps_valid [OF keeps_release]]) (auto simp: rq_inv_def rq_sent_def)
    moreover have "valid (\<lambda>w. rq_sent raw tr w \<and> closed (rc_ctx c) w) (State_Monad.return False) (handled_request c raw tr)"
      by (rule valid_pre [OF valid_return]) (rule stop_handled)
    ultimately show "valid (\<lambda>w. rq_inv raw tr w \<and> closed (rc_ctx c) w) (do { request_release; State_Monad.return False })
      (handled_request c raw tr)" by (rule valid_bind)
  qed
  show ?thesis
    by (rule valid_bind [OF keeps_valid [OF d]], intro valid_prod valid_prod2 valid_option, rule valid_finish)
      (intro valid_Let valid_prod e)
qed

lemma valid_handleRequest: "valid (\<lambda>w. w_trace w = tr) (handleRequest c raw) (handled_request c raw tr)"
proof -
  have new: "valid (\<lambda>w. w_trace w = tr) (newRequest raw) (\<lambda>_. rq_inv raw tr)"
    by (rule validI) (metis rq_inv_new snd_conv)
  have expire_release: "valid (\<lambda>w. rq_inv raw tr w \<and> P w) request_expire (\<lambda>_. rq_inv raw tr)" for P :: "'a reqworld_scheme \<Rightarrow> bool"
    by (rule valid_pre [OF keeps_valid [OF keeps_expire]]) blast
  show ?thesis
    unfolding handleRequest_def
  proof (rule valid_bind [OF new], rule valid_option)
    show "valid (rq_inv raw tr) (do { err \<leftarrow> request_respond False [] False; request_expire; request_release;
          (case err of Some e \<Rightarrow> do { handleRequestReplyError c e; State_Monad.return False }
           | None \<Rightarrow> State_Monad.return True) }) (handled_request c raw tr)"
    proof (rule valid_bind [OF valid_respond])
      fix err :: "gerr option"
      let ?Q = "\<lambda>w. rq_inv raw tr w \<and> (err = None \<longrightarrow> rr_attempted (rq_response w) \<and> rr_complete (rq_response w) \<and> rr_err (rq_response w) = None)"
      have x: "valid ?Q request_expire (\<lambda>_. ?Q)"
        by (rule validI) (auto dest: keepsD [OF keeps_expire] simp: request_expire_def update_response_def rq_inv_def)
      show "valid ?Q (do { request_expire; request_release;
          (case err of Some e \<Rightarrow> do { handleRequestReplyError c e; State_Monad.return False }
           | None \<Rightarrow> State_Monad.return True) }) (handled_request c raw tr)"
      proof (cases err)
        case None
        have "valid ?Q (do { request_release; State_Monad.return True }) (handled_request c raw tr)"
          using valid_continue [of ?Q raw tr True c] None by auto
        with None valid_bind [OF x] show ?thesis by auto
      next
        case (Some e)
        have "valid ?Q (do { request_release; handleRequestReplyError c e; State_Monad.return False }) (handled_request c raw tr)"
          by (rule valid_pre [OF valid_stop [OF valid_reply_error]]) blast
        with Some valid_bind [OF x] show ?thesis by auto
      qed
    qed
  next
    fix handler
    show "valid (rq_inv raw tr) (do { tr' \<leftarrow> gets w_trace; handlerErr \<leftarrow> run_rprog (handler tr' raw); request_expire;
          attempted \<leftarrow> gets (\<lambda>w. rr_attempted (rq_response w));
          let handlerErr = (if handlerErr = None \<and> \<not> attempted \<and> raw_wantReply raw
            then Some (locateError ErrorScopeRequest ErrorOperationReply (Var ErrRequestResponseNotSent)) else handlerErr);
          (case handlerErr of None \<Rightarrow> finishRequest c raw None True
           | Some he \<Rightarrow> do {
               ((canContinue, dispatchErr), _) \<leftarrow> dispatchError (rc_cutoff c) (rc_ctx c) (rc_errorHandler c)
                 ErrorScopeRequest ErrorOperationHandle (Some he)
                 (Some (newErrorResponse (Some (request_responder c raw)))) (Some (respondingErrorAction []));
               (case dispatchErr of
                  Some d \<Rightarrow> do {
                    let (scope, operation) = resolveErrorLocation ErrorScopeRequest ErrorOperationHandle he;
                    emit (LogEscalate d (Some he) scope operation);
                    closeSSHConnection (Some (rc_ctx c));
                    completeWithoutResponse;
                    request_release;
                    State_Monad.return False }
                | None \<Rightarrow> finishRequest c raw (Some he) canContinue) }) }) (handled_request c raw tr)"
      by (intro valid_bind [OF keeps_valid [OF keeps_gets]] valid_bind [OF keeps_valid [OF keeps_rprog]]
          valid_bind [OF keeps_valid [OF keeps_expire]] valid_Let valid_option valid_finish valid_dispatched)
  qed
qed

section \<open>The loop\<close>

fun reply_id :: "event \<Rightarrow> nat" where
  "reply_id (Reply i _ _, _) = i"
| "reply_id _ = 0"

definition wanted :: "gossh_request list \<Rightarrow> nat list" where
  "wanted raws = map raw_id (filter raw_wantReply raws)"

lemma wanted_simps [simp]:
  "wanted [] = []" "wanted (raw # raws) = (if raw_wantReply raw then [raw_id raw] else []) @ wanted raws"
  by (simp_all add: wanted_def)

text \<open>
  What the loop has done on the requests \<open>raws\<close> of a connection: it has handled the first \<open>n\<close> of
  them completely, each one that wants a reply got exactly one, sent without an error, in their
  order; when it stopped before the end it sent at most one more reply, to the request it stopped
  at, and the connection has been closed.
\<close>

definition loop_done :: "requests_config \<Rightarrow> gossh_request list \<Rightarrow> event list \<Rightarrow> 'a world_scheme \<Rightarrow> bool" where
  "loop_done c raws tr w \<longleftrightarrow> (\<exists>new n sent rest. w_trace w = tr @ new \<and> n \<le> length raws
     \<and> replies new = sent @ rest \<and> map reply_id sent = wanted (take n raws) \<and> list_all (\<lambda>(_, err). err = None) sent
     \<and> (if n = length raws then rest = []
        else (rest = [] \<or> raw_wantReply (raws ! n) \<and> map reply_id rest = [raw_id (raws ! n)]) \<and> closed (rc_ctx c) w))"

text \<open>
  C7. The global requests of a connection are answered in their order: whatever the handlers and
  the error handler do, every request that wants a reply gets exactly one before the next
  request is handled, and it was sent without an error; when the loop ends early, at most one
  reply was sent to the request it stopped at, no later request was answered, and the last
  thing it did was to close the connection.
\<close>

theorem requests_answered_in_order:
  "loop_done c raws (w_trace w) (snd (run_state (handleRequests c raws) w))"
proof (induction raws arbitrary: w)
  case Nil
  then show ?case by (auto simp: loop_done_def)
next
  case (Cons raw raws)
  obtain cont w1 where run: "run_state (handleRequest c raw) w = (cont, w1)" by fastforce
  have h: "handled_request c raw (w_trace w) cont w1" by (rule validD [OF valid_handleRequest refl run])
  show ?case
  proof (cases cont)
    case False
    with h obtain new where "w_trace w1 = w_trace w @ new"
      "replies new = [] \<or> raw_wantReply raw \<and> (\<exists>a p e. replies new = [(Reply (raw_id raw) a p, e)])" "closed (rc_ctx c) w1"
      by (auto simp: handled_request_def)
    then have "loop_done c (raw # raws) (w_trace w) w1"
      unfolding loop_done_def by (intro exI [of _ new] exI [of _ 0] exI [of _ "[]"] exI [of _ "replies new"]) auto
    with False run show ?thesis by simp
  next
    case True
    with h obtain new where n: "w_trace w1 = w_trace w @ new"
      "if raw_wantReply raw then \<exists>a p. replies new = [(Reply (raw_id raw) a p, None)] else replies new = []"
      by (auto simp: handled_request_def)
    then have first: "map reply_id (replies new) = wanted [raw]" "list_all (\<lambda>(_, err). err = None) (replies new)"
      by (auto split: if_splits)
    from Cons.IH [of w1] obtain new' k sent rest where
      "w_trace (snd (run_state (handleRequests c raws) w1)) = w_trace w1 @ new'" "k \<le> length raws"
      "replies new' = sent @ rest" "map reply_id sent = wanted (take k raws)" "list_all (\<lambda>(_, err). err = None) sent"
      "if k = length raws then rest = [] else (rest = [] \<or> raw_wantReply (raws ! k) \<and> map reply_id rest = [raw_id (raws ! k)])
         \<and> closed (rc_ctx c) (snd (run_state (handleRequests c raws) w1))"
      unfolding loop_done_def by blast
    then have "loop_done c (raw # raws) (w_trace w) (snd (run_state (handleRequests c raws) w1))"
      unfolding loop_done_def using n(1) first
      by (intro exI [of _ "new @ new'"] exI [of _ "Suc k"] exI [of _ "replies new @ sent"] exI [of _ rest]) auto
    with True run show ?thesis by simp
  qed
qed

section \<open>Concurrent calls on one response\<close>

text \<open>
  Any number of goroutines call \<open>respond\<close>, also after the handler has returned. \<open>rs_flying\<close>
  counts the calls between their two sections, \<open>rs_begun\<close> all calls that came through the first
  one: each of them sends one reply if the request wants one.
\<close>

record response_state =
  rs_response :: requestResponse
  rs_flying :: nat
  rs_begun :: nat

definition complete_without :: "requestResponse \<Rightarrow> requestResponse" where
  "complete_without r = (if \<not> rr_attempted r \<and> \<not> rr_complete r
     then r\<lparr>rr_complete := True, rr_done := Suc (rr_done r)\<rparr> else r)"

lemma completeWithoutResponse_eq: "completeWithoutResponse = update_response complete_without"
  unfolding completeWithoutResponse_def complete_without_def ..

inductive response_step :: "response_state \<Rightarrow> response_state \<Rightarrow> bool" where
  step_begin: "respond_begin accepted requireActive (rs_response s) = (Inr q, r) \<Longrightarrow>
     response_step s (s\<lparr>rs_response := r, rs_flying := Suc (rs_flying s), rs_begun := Suc (rs_begun s)\<rparr>)"
| step_refused: "respond_begin accepted requireActive (rs_response s) = (Inl err, r) \<Longrightarrow>
     response_step s (s\<lparr>rs_response := r\<rparr>)"
| step_finish: "rs_flying s = Suc n \<Longrightarrow>
     response_step s (s\<lparr>rs_response := respond_finish err (rs_response s), rs_flying := n\<rparr>)"
| step_without: "response_step s (s\<lparr>rs_response := complete_without (rs_response s)\<rparr>)"
| step_expire: "response_step s (s\<lparr>rs_response := (rs_response s)\<lparr>rr_active := False\<rparr>\<rparr>)"
| step_release: "response_step s (s\<lparr>rs_response := (rs_response s)\<lparr>rr_active := False, rr_request := None\<rparr>\<rparr>)"

definition response_start :: "gossh_request \<Rightarrow> response_state" where
  "response_start raw = \<lparr>rs_response = newRequestResponse raw, rs_flying = 0, rs_begun = 0\<rparr>"

definition response_inv :: "response_state \<Rightarrow> bool" where
  "response_inv s \<longleftrightarrow> (let r = rs_response s in
     rs_begun s = (if rr_attempted r then 1 else 0)
     \<and> rs_flying s = (if rr_attempted r \<and> \<not> rr_complete r then 1 else 0)
     \<and> rr_done r = (if rr_complete r then 1 else 0))"

lemma response_inv_step: "response_step s s' \<Longrightarrow> response_inv s \<Longrightarrow> response_inv s'"
  by (induction rule: response_step.induct)
    (auto simp: response_inv_def Let_def respond_begin_def respond_finish_def complete_without_def split: if_splits)

interpretation responses: step_invariant response_step response_inv
  by unfold_locales (rule response_inv_step)

text \<open>
  C8. However the calls of \<open>respond\<close>, \<open>completeWithoutResponse\<close>, \<open>expire\<close> and \<open>release\<close> of any number of
  goroutines interleave: at most one call ever gets to reply, its completion is recorded
  exactly when it has finished, and the channel \<open>done\<close> is closed exactly when the response is
  complete and never twice.
\<close>

theorem response_completes_once:
  assumes "response_step\<^sup>*\<^sup>* (response_start raw) s"
  shows "rs_begun s \<le> 1 \<and> rr_done (rs_response s) = (if rr_complete (rs_response s) then 1 else 0)
     \<and> rs_flying s = (if rr_attempted (rs_response s) \<and> \<not> rr_complete (rs_response s) then 1 else 0)"
proof -
  have "response_inv s"
    by (rule responses.steps_keep [OF assms]) (simp add: response_inv_def response_start_def newRequestResponse_def)
  then show ?thesis by (auto simp: response_inv_def Let_def)
qed

lemma response_completes_once_witness:
  "rs_begun (response_start \<lparr>raw_id = 1, raw_type = ''x'', raw_payload = [], raw_wantReply = True\<rparr>
      \<lparr>rs_response := snd (respond_begin True True (newRequestResponse \<lparr>raw_id = 1, raw_type = ''x'', raw_payload = [], raw_wantReply = True\<rparr>)),
       rs_flying := 1, rs_begun := 1\<rparr>) \<le> 1"
proof -
  let ?raw = "\<lparr>raw_id = 1, raw_type = ''x'', raw_payload = [], raw_wantReply = True\<rparr>"
  have "response_step (response_start ?raw) (response_start ?raw
      \<lparr>rs_response := snd (respond_begin True True (newRequestResponse ?raw)), rs_flying := 1, rs_begun := 1\<rparr>)"
    using step_begin [of True True "response_start ?raw" "Some ?raw" "snd (respond_begin True True (newRequestResponse ?raw))"]
    by (simp add: response_start_def respond_begin_def newRequestResponse_def)
  from response_completes_once [OF r_into_rtranclp [of response_step, OF this]] show ?thesis by blast
qed

end
