(* ===== verification/Channel.thy ===== *)
theory Channel
  imports ErrorHandling Limits
begin

text \<open>
  \<open>trackedNewChannel\<close> and the channel loop of \<open>Server.handleConn\<close> (\<open>server.go\<close>): the one answer a
  channel open gets, the worker that runs a channel handler and reports its error, and the
  admission of channels under the limits on channels and sessions. The state of a worker is
  the world and its tracked channel; the admission works on the counters of \<open>Limits\<close>.
\<close>

section \<open>The tracked channel\<close>

text \<open>The rejection reasons of RFC 4254, section 5.1, as \<open>gossh\<close> names them.\<close>

abbreviation gossh_ConnectionFailed :: uint32 where "gossh_ConnectionFailed \<equiv> 2"
abbreviation gossh_UnknownChannelType :: uint32 where "gossh_UnknownChannelType \<equiv> 3"
abbreviation gossh_ResourceShortage :: uint32 where "gossh_ResourceShortage \<equiv> 4"

record trackedNewChannel =
  tc_id :: nat
  tc_answerAttempted :: bool
  tc_answerComplete :: bool
  tc_answerErr :: "gerr option"
  tc_accepted :: "nat option"

record chanworld = world +
  cw_channel :: trackedNewChannel

definition newTrackedChannel :: "nat \<Rightarrow> trackedNewChannel" where
  "newTrackedChannel ch = \<lparr>tc_id = ch, tc_answerAttempted = False, tc_answerComplete = False,
     tc_answerErr = None, tc_accepted = None\<rparr>"

definition update_channel :: "(trackedNewChannel \<Rightarrow> trackedNewChannel) \<Rightarrow> ('a chanworld_scheme, unit) state" where
  "update_channel f = modify (\<lambda>w. w\<lparr>cw_channel := f (cw_channel w)\<rparr>)"

definition beginAnswer :: "('a chanworld_scheme, bool) state" where
  "beginAnswer = do {
     c \<leftarrow> gets cw_channel;
     (if tc_answerAttempted c then State_Monad.return False
      else do { update_channel (\<lambda>c. c\<lparr>tc_answerAttempted := True\<rparr>); State_Monad.return True }) }"

definition completeAnswer :: "gerr option \<Rightarrow> ('a chanworld_scheme, unit) state" where
  "completeAnswer err = update_channel (\<lambda>c. c\<lparr>tc_answerComplete := True, tc_answerErr := err\<rparr>)"

definition completeAccept :: "nat \<Rightarrow> gerr option \<Rightarrow> ('a chanworld_scheme, unit) state" where
  "completeAccept channel err = update_channel (\<lambda>c.
     let c' = c\<lparr>tc_answerComplete := True, tc_answerErr := err\<rparr>
     in if err = None then c'\<lparr>tc_accepted := Some channel\<rparr> else c')"

text \<open>A channel that is accepted is known by the number of its open request.\<close>

definition channel_Accept :: "('a chanworld_scheme, gerr option) state" where
  "channel_Accept = do {
     ok \<leftarrow> beginAnswer;
     (if \<not> ok then State_Monad.return (Some (Var ErrChannelResponseAlreadySent))
      else do {
        ch \<leftarrow> gets (\<lambda>w. tc_id (cw_channel w));
        err \<leftarrow> perform (AcceptChannel ch);
        let err = map_option (locateError ErrorScopeChannel ErrorOperationAccept) err;
        completeAccept ch err;
        State_Monad.return err }) }"

definition channel_Reject :: "uint32 \<Rightarrow> string \<Rightarrow> ('a chanworld_scheme, gerr option) state" where
  "channel_Reject reason message = do {
     ok \<leftarrow> beginAnswer;
     (if \<not> ok then State_Monad.return (Some (Var ErrChannelResponseAlreadySent))
      else do {
        ch \<leftarrow> gets (\<lambda>w. tc_id (cw_channel w));
        err \<leftarrow> perform (RejectChannel ch reason message);
        let err = map_option (locateError ErrorScopeChannel ErrorOperationReply) err;
        completeAnswer err;
        State_Monad.return err }) }"

definition closeAccepted :: "('a chanworld_scheme, unit) state" where
  "closeAccepted = do {
     accepted \<leftarrow> gets (\<lambda>w. tc_accepted (cw_channel w));
     update_channel (\<lambda>c. c\<lparr>tc_accepted := None\<rparr>);
     (case accepted of None \<Rightarrow> State_Monad.return () | Some ch \<Rightarrow> emit (ChannelClose ch)) }"

definition channel_respondToError :: "bytes \<Rightarrow> ('a chanworld_scheme, gerr option) state" where
  "channel_respondToError message = do {
     ok \<leftarrow> beginAnswer;
     (if \<not> ok then State_Monad.return (Some (Var ErrErrorResponseUnsupported))
      else do {
        ch \<leftarrow> gets (\<lambda>w. tc_id (cw_channel w));
        err \<leftarrow> perform (RejectChannel ch gossh_ConnectionFailed (string_of_bytes message));
        completeAnswer err;
        State_Monad.return err }) }"

definition rejectUnhandledError :: "('a chanworld_scheme, unit) state" where
  "rejectUnhandledError = do {
     ok \<leftarrow> beginAnswer;
     only_if ok (do {
        ch \<leftarrow> gets (\<lambda>w. tc_id (cw_channel w));
        err \<leftarrow> perform (RejectChannel ch gossh_ConnectionFailed ''connection failed'');
        completeAnswer err }) }"

definition answerResult :: "trackedNewChannel \<Rightarrow> bool \<times> gerr option" where
  "answerResult c =
     (if tc_answerAttempted c \<and> \<not> tc_answerComplete c then (True, Some (Var ErrErrorResponseIncomplete))
      else (tc_answerAttempted c, tc_answerErr c))"

section \<open>The worker of one channel\<close>

text \<open>
  What a channel handler does with the channel it is given: accept or reject it and go on with the
  result, start such a call on a goroutine that has not finished when the handler returns,
  or return. What it does with the accepted channel is its own business.
\<close>

datatype cprog =
    CReturn "gerr option"
  | CAccept "gerr option \<Rightarrow> cprog"
  | CReject uint32 string "gerr option \<Rightarrow> cprog"
  | CSpawn cprog

primrec run_cprog :: "cprog \<Rightarrow> ('a chanworld_scheme, gerr option) state" where
  "run_cprog (CReturn err) = State_Monad.return err"
| "run_cprog (CAccept f) = do { err \<leftarrow> channel_Accept; run_cprog (f err) }"
| "run_cprog (CReject reason message f) = do { err \<leftarrow> channel_Reject reason message; run_cprog (f err) }"
| "run_cprog (CSpawn p) = do { _ \<leftarrow> beginAnswer; run_cprog p }"

record channels_config =
  hc_ctx :: goctx
  hc_errorHandler :: "errorHandler option"
  hc_cutoff :: "nat option"

definition channel_responder :: "'a chanworld_scheme responder" where
  "channel_responder message closeAfterResponse = do {
     err \<leftarrow> channel_respondToError message;
     only_if closeAfterResponse (emit CloseConn);
     State_Monad.return err }"

definition channel_escalate :: "channels_config \<Rightarrow> gerr \<Rightarrow> ('a chanworld_scheme, bool) state" where
  "channel_escalate c err = dispatchErrorOrEscalate (hc_cutoff c) (hc_ctx c) (hc_errorHandler c)
     ErrorScopeChannel ErrorOperationReply (Some err) None (Some defaultLogAndFailErrorAction)"

text \<open>After the dispatch of the handler's error; first the branches without an error of the answer.\<close>

definition reportDispatch :: "gerr \<Rightarrow> bool \<Rightarrow> gerr option \<Rightarrow> gerr option \<Rightarrow> ('a world_scheme, unit) state" where
  "reportDispatch handlerErr canContinue dispatchErr responseErr =
     (case dispatchErr of
         Some d \<Rightarrow> do {
           emit (LogEscalate d (Some handlerErr) ErrorScopeChannel ErrorOperationHandle);
           emit CloseConn }
       | None \<Rightarrow>
           (case responseErr of
              Some re \<Rightarrow>
                if \<not> errors_Is re (Var ErrErrorResponseUnsupported)
                then do {
                  emit (LogEscalate re (Some handlerErr) ErrorScopeChannel ErrorOperationReply);
                  emit CloseConn }
                else only_if (\<not> canContinue) (emit CloseConn)
            | None \<Rightarrow> only_if (\<not> canContinue) (emit CloseConn)))"

definition reportAnswer ::
  "channels_config \<Rightarrow> gerr \<Rightarrow> bool \<Rightarrow> gerr option \<Rightarrow> bool \<times> gerr option \<Rightarrow> ('a chanworld_scheme, unit) state" where
  "reportAnswer c handlerErr canContinue dispatchErr response = do {
     let (attempted, responseErr) = response;
     only_if (\<not> attempted) rejectUnhandledError;
     (_, answerErr) \<leftarrow> gets (\<lambda>w. answerResult (cw_channel w));
     (case answerErr of
        Some ae \<Rightarrow> do {
          (case dispatchErr of
             Some d \<Rightarrow>
               if errors_Is d ae
               then (let (scope, operation) = resolveErrorLocation ErrorScopeChannel ErrorOperationReply ae
                     in emit (LogEscalate d (Some handlerErr) scope operation))
               else only_if (\<not> errors_Is handlerErr ae) (do { _ \<leftarrow> channel_escalate c ae; State_Monad.return () })
           | None \<Rightarrow> only_if (\<not> errors_Is handlerErr ae) (do { _ \<leftarrow> channel_escalate c ae; State_Monad.return () }));
          emit CloseConn }
      | None \<Rightarrow>
          reportDispatch handlerErr canContinue dispatchErr responseErr) }"

definition channel_handled :: "channels_config \<Rightarrow> gerr option \<Rightarrow> ('a chanworld_scheme, unit) state" where
  "channel_handled c handlerErr = do {
     (attempted, answerErr) \<leftarrow> gets (\<lambda>w. answerResult (cw_channel w));
     let handlerErr = (if handlerErr = None \<and> \<not> attempted
       then Some (locateError ErrorScopeChannel ErrorOperationReply (Var ErrChannelResponseNotSent)) else handlerErr);
     (case handlerErr of
        None \<Rightarrow>
          (case answerErr of
             Some ae \<Rightarrow> do { _ \<leftarrow> channel_escalate c ae; emit CloseConn }
           | None \<Rightarrow> State_Monad.return ())
      | Some he \<Rightarrow> do {
          ((canContinue, dispatchErr), response) \<leftarrow> dispatchError (hc_cutoff c) (hc_ctx c) (hc_errorHandler c)
            ErrorScopeChannel ErrorOperationHandle (Some he)
            (Some (newErrorResponse (Some channel_responder)))
            (Some (respondingErrorAction (bytes_of_string ''connection failed'')));
          reportAnswer c he canContinue dispatchErr
            (case response of Some r \<Rightarrow> response_result r | None \<Rightarrow> (False, None)) }) }"

definition channel_worker :: "channels_config \<Rightarrow> nat \<Rightarrow> (event list \<Rightarrow> cprog) \<Rightarrow> ('a chanworld_scheme, unit) state" where
  "channel_worker c ch handler = do {
     update_channel (\<lambda>_. newTrackedChannel ch);
     tr \<leftarrow> gets w_trace;
     handlerErr \<leftarrow> run_cprog (handler tr);
     channel_handled c handlerErr;
     closeAccepted }"

section \<open>One answer per channel\<close>

fun is_answer :: "nat \<Rightarrow> effect \<Rightarrow> bool" where
  "is_answer ch (AcceptChannel i) = (i = ch)"
| "is_answer ch (RejectChannel i _ _) = (i = ch)"
| "is_answer ch _ = False"

definition answers :: "nat \<Rightarrow> event list \<Rightarrow> event list" where
  "answers ch tr = filter (\<lambda>(e, _). is_answer ch e) tr"

lemma answers_simps [simp]:
  "answers ch [] = []" "answers ch (tr @ tr') = answers ch tr @ answers ch tr'"
  "answers ch ((e, r) # tr) = (if is_answer ch e then (e, r) # answers ch tr else answers ch tr)"
  by (simp_all add: answers_def)

lemma quiet_not_answer [simp]: "quiet e \<Longrightarrow> \<not> is_answer ch e"
  by (cases e) auto

text \<open>Exactly the completed answer has been sent, and the recorded error says whether it failed.\<close>

definition answered_once :: "trackedNewChannel \<Rightarrow> event list \<Rightarrow> bool" where
  "answered_once c evs \<longleftrightarrow>
     (if tc_answerAttempted c \<and> tc_answerComplete c
      then \<exists>e r. evs = [(e, r)] \<and> (r = None \<longleftrightarrow> tc_answerErr c = None)
      else evs = [] \<and> tc_answerErr c = None)
     \<and> (tc_answerComplete c \<longrightarrow> tc_answerAttempted c)"

definition ch_inv :: "nat \<Rightarrow> event list \<Rightarrow> 'a chanworld_scheme \<Rightarrow> bool" where
  "ch_inv ch tr w \<longleftrightarrow> tc_id (cw_channel w) = ch \<and>
     (\<exists>new. w_trace w = tr @ new \<and> answered_once (cw_channel w) (answers ch new))"

interpretation ch_quiet: quiet_invariant "ch_inv ch tr" for ch tr
  by unfold_locales (auto simp: ch_inv_def)

text \<open>Every way to answer: begin, send \<open>e\<close>, complete.\<close>

lemma answered_fresh_channel: "answered_once c evs \<Longrightarrow> \<not> tc_answerAttempted c \<Longrightarrow> evs = [] \<and> tc_answerErr c = None"
  by (simp add: answered_once_def split: if_splits)

lemma ch_inv_answer:
  assumes "ch_inv ch tr w" "\<not> tc_answerAttempted (cw_channel w)" "is_answer ch e" "err = None \<longleftrightarrow> r = None"
  shows "ch_inv ch tr (w\<lparr>w_trace := w_trace w @ [(e, r)],
    cw_channel := (cw_channel w)\<lparr>tc_answerAttempted := True, tc_answerComplete := True, tc_answerErr := err, tc_accepted := a\<rparr>\<rparr>)"
proof -
  obtain new where n: "w_trace w = tr @ new" "answered_once (cw_channel w) (answers ch new)" "tc_id (cw_channel w) = ch"
    using assms(1) by (auto simp: ch_inv_def)
  with answered_fresh_channel [OF n(2) assms(2)] assms(3,4) show ?thesis
    by (simp add: ch_inv_def answered_once_def)
qed

lemma keeps_channel_Accept: "keeps (ch_inv ch tr) channel_Accept"
proof (rule keepsI)
  fix w :: "'a chanworld_scheme" and x w'
  assume i: "ch_inv ch tr w" and run: "run_state channel_Accept w = (x, w')"
  let ?r = "w_env w (w_trace w) (AcceptChannel ch)"
  have "tc_id (cw_channel w) = ch" using i by (simp add: ch_inv_def)
  with run i ch_inv_answer [OF i, of "AcceptChannel ch" "map_option (locateError ErrorScopeChannel ErrorOperationAccept) ?r" ?r
      "if ?r = None then Some ch else tc_accepted (cw_channel w)"]
  show "ch_inv ch tr w'"
    by (cases "tc_answerAttempted (cw_channel w)")
      (auto simp: channel_Accept_def beginAnswer_def update_channel_def completeAccept_def Let_def split: if_splits)
qed

text \<open>A rejection and the two ways to reject for an error.\<close>

lemma ch_inv_reject:
  assumes "ch_inv ch tr w" "\<not> tc_answerAttempted (cw_channel w)" "is_answer ch e" "err = None \<longleftrightarrow> r = None"
  shows "ch_inv ch tr (w\<lparr>w_trace := w_trace w @ [(e, r)],
    cw_channel := (cw_channel w)\<lparr>tc_answerAttempted := True, tc_answerComplete := True, tc_answerErr := err\<rparr>\<rparr>)"
  using ch_inv_answer [OF assms, of "tc_accepted (cw_channel w)"] by simp

lemma keeps_channel_Reject: "keeps (ch_inv ch tr) (channel_Reject reason message)"
proof (rule keepsI)
  fix w :: "'a chanworld_scheme" and x w'
  assume i: "ch_inv ch tr w" and run: "run_state (channel_Reject reason message) w = (x, w')"
  let ?r = "w_env w (w_trace w) (RejectChannel ch reason message)"
  have "tc_id (cw_channel w) = ch" using i by (simp add: ch_inv_def)
  with run i ch_inv_reject [OF i, of "RejectChannel ch reason message" "map_option (locateError ErrorScopeChannel ErrorOperationReply) ?r" ?r]
  show "ch_inv ch tr w'"
    by (cases "tc_answerAttempted (cw_channel w)")
      (auto simp: channel_Reject_def beginAnswer_def update_channel_def completeAnswer_def Let_def split: if_splits)
qed

lemma keeps_channel_respondToError: "keeps (ch_inv ch tr) (channel_respondToError message)"
proof (rule keepsI)
  fix w :: "'a chanworld_scheme" and x w'
  assume i: "ch_inv ch tr w" and run: "run_state (channel_respondToError message) w = (x, w')"
  let ?e = "RejectChannel ch gossh_ConnectionFailed (string_of_bytes message)"
  have "tc_id (cw_channel w) = ch" using i by (simp add: ch_inv_def)
  with run i ch_inv_reject [OF i, of ?e "w_env w (w_trace w) ?e" "w_env w (w_trace w) ?e"]
  show "ch_inv ch tr w'"
    by (cases "tc_answerAttempted (cw_channel w)")
      (auto simp: channel_respondToError_def beginAnswer_def update_channel_def completeAnswer_def split: if_splits)
qed

lemma keeps_rejectUnhandledError: "keeps (ch_inv ch tr) rejectUnhandledError"
proof (rule keepsI)
  fix w :: "'a chanworld_scheme" and x w'
  assume i: "ch_inv ch tr w" and run: "run_state rejectUnhandledError w = (x, w')"
  let ?e = "RejectChannel ch gossh_ConnectionFailed ''connection failed''"
  have "tc_id (cw_channel w) = ch" using i by (simp add: ch_inv_def)
  with run i ch_inv_reject [OF i, of ?e "w_env w (w_trace w) ?e" "w_env w (w_trace w) ?e"]
  show "ch_inv ch tr w'"
    by (cases "tc_answerAttempted (cw_channel w)")
      (auto simp: rejectUnhandledError_def beginAnswer_def update_channel_def completeAnswer_def split: if_splits)
qed

lemma keeps_beginAnswer: "keeps (ch_inv ch tr) beginAnswer"
  by (rule keepsI) (auto simp: beginAnswer_def update_channel_def ch_inv_def answered_once_def split: if_splits)

lemmas keeps_channel = keeps_channel_Accept keeps_channel_Reject keeps_channel_respondToError
  keeps_rejectUnhandledError keeps_beginAnswer

lemma keeps_cprog: "keeps (ch_inv ch tr) (run_cprog p)"
  by (induction p) (auto intro!: keeps_intros keeps_channel)

lemma keeps_channel_responder: "keeps (ch_inv ch tr) (channel_responder m c)"
  unfolding channel_responder_def by (intro keeps_intros keeps_channel ch_quiet.q_emit) simp

lemma keeps_channel_escalate: "keeps (ch_inv ch tr) (channel_escalate c err)"
  unfolding channel_escalate_def by (intro ch_quiet.q_escalate) simp

section \<open>The channel is answered, or the connection closed\<close>

text \<open>
  The responder and the channel belong together: a completed error response has answered the
  channel.
\<close>

definition ch_pair ::
  "nat \<Rightarrow> event list \<Rightarrow> 'a chanworld_scheme errorResponse \<times> 'a chanworld_scheme \<Rightarrow> bool" where
  "ch_pair ch tr s \<longleftrightarrow> ch_inv ch tr (snd s) \<and> er_respond (fst s) = Some channel_responder
     \<and> (er_complete (fst s) \<longrightarrow> tc_answerAttempted (cw_channel (snd s)))"

lemma responder_answers:
  "run_state (channel_responder m c) w = (x, w') \<Longrightarrow> tc_answerAttempted (cw_channel w')"
  by (auto simp: channel_responder_def channel_respondToError_def beginAnswer_def update_channel_def
      completeAnswer_def split: if_splits)

lemma ch_pair_send: "ch_pair ch tr (r, w) \<Longrightarrow> ch_pair ch tr (snd (response_send m c r w))"
proof -
  assume p: "ch_pair ch tr (r, w)"
  obtain x w' where run: "run_state (channel_responder m c) w = (x, w')" by fastforce
  with p have "ch_inv ch tr w'" "tc_answerAttempted (cw_channel w')"
    using keepsD [OF keeps_channel_responder _ run] responder_answers [OF run] by (auto simp: ch_pair_def)
  with p run show ?thesis
    by (auto simp: ch_pair_def response_send_def send_begin_def send_finish_def)
qed

lemma ch_pair_quiet:
  "ch_pair ch tr (r, w) \<Longrightarrow> quiet e \<Longrightarrow> ch_pair ch tr (r, snd (run_state (perform e) w))"
  using ch_quiet.quiet_keeps [of ch tr w e] by (simp add: ch_pair_def)

interpretation ch_dispatch: dispatch_pair_invariant "ch_pair ch tr" "respondingErrorAction message" for ch tr message
proof
  fix r w c
  assume "ch_pair ch tr (r, w)"
  then show "ch_pair ch tr (snd (send_begin c r), w)"
    by (auto simp: ch_pair_def send_begin_def)
next
  fix s :: "'a chanworld_scheme errorResponse \<times> 'a chanworld_scheme" and ctx sc op err
  assume p: "ch_pair ch tr s"
  obtain r w where s: "s = (r, w)" by fastforce
  obtain e r1 w1 where send: "(if fst (response_result r) then (snd (response_result r), r, w)
      else response_send message False r w) = (e, r1, w1)" by (metis prod_cases3)
  have p1: "ch_pair ch tr (r1, w1)"
    using send p ch_pair_send [of ch tr r w message False] by (cases "fst (response_result r)") (auto simp: s)
  then have "ch_pair ch tr (snd (run_state (defaultLogAndFailErrorAction ctx sc op err) (r1, w1)))"
    using ch_pair_quiet [OF p1] by (cases err) (auto simp: defaultLogAndFailErrorAction_def)
  then show "ch_pair ch tr (snd (run_state (respondingErrorAction message ctx sc op err) s))"
    using send by (auto simp: s respondingErrorAction_def split: if_splits prod.splits)
next
  fix r w
  assume "ch_pair ch tr (r, w)"
  then show "ch_pair ch tr (r, snd (run_state (perform CtxCause) w))" by (rule ch_pair_quiet) simp
qed (rule ch_pair_send)

text \<open>The channel has its answer, or the connection has been closed since \<open>tr\<close>.\<close>

definition closed_since :: "event list \<Rightarrow> 'a world_scheme \<Rightarrow> bool" where
  "closed_since tr w \<longleftrightarrow> (\<exists>new. w_trace w = tr @ new \<and> CloseConn \<in> set (map fst new))"

definition settled :: "nat \<Rightarrow> event list \<Rightarrow> 'a chanworld_scheme \<Rightarrow> bool" where
  "settled ch tr w \<longleftrightarrow> ch_inv ch tr w \<and>
     (tc_answerAttempted (cw_channel w) \<and> tc_answerComplete (cw_channel w) \<and> tc_answerErr (cw_channel w) = None
      \<or> closed_since tr w)"

lemma valid_closing: "valid (ch_inv ch tr) (emit CloseConn) (\<lambda>_. settled ch tr)"
proof (rule validI)
  fix w :: "'a chanworld_scheme" and x w'
  assume i: "ch_inv ch tr w" and run: "run_state (emit CloseConn) w = (x, w')"
  have "ch_inv ch tr w'" using keepsD [OF ch_quiet.q_emit i run] by simp
  moreover have "closed_since tr w'" using i run by (auto simp: ch_inv_def closed_since_def)
  ultimately show "settled ch tr w'" by (simp add: settled_def)
qed

lemma valid_then_closing: "keeps (ch_inv ch tr) m \<Longrightarrow> valid (ch_inv ch tr) (do { m; emit CloseConn }) (\<lambda>_. settled ch tr)"
  by (rule valid_bind [OF keeps_valid valid_closing])

lemma valid_if_closing:
  "(\<not> b \<Longrightarrow> \<forall>w. P w \<longrightarrow> settled ch tr w) \<Longrightarrow> (\<And>w. P w \<Longrightarrow> ch_inv ch tr w) \<Longrightarrow>
   valid P (only_if b (emit CloseConn)) (\<lambda>_. settled ch tr)"
  by (cases b) (auto simp: only_if_def intro: valid_pre [OF valid_closing] valid_pre [OF valid_return])

lemma rejectUnhandled_answers:
  "run_state rejectUnhandledError w = (x, w') \<Longrightarrow> tc_answerAttempted (cw_channel w')"
  by (auto simp: rejectUnhandledError_def beginAnswer_def update_channel_def completeAnswer_def split: if_splits)

lemma answered_without_error:
  "ch_inv ch tr w \<Longrightarrow> tc_answerAttempted (cw_channel w) \<Longrightarrow> answerResult (cw_channel w) = (b, None) \<Longrightarrow> settled ch tr w"
  by (auto simp: settled_def answerResult_def split: if_splits)

lemma valid_reportDispatch:
  "valid (\<lambda>w. ch_inv ch tr w \<and> (responseErr \<noteq> Some (Var ErrErrorResponseIncomplete) \<longrightarrow> settled ch tr w))
     (reportDispatch he can dErr responseErr) (\<lambda>_. settled ch tr)"
  (is "valid ?P _ _")
proof -
  have log: "valid ?P (do { emit (LogEscalate d e s p); emit CloseConn }) (\<lambda>_. settled ch tr)" for d e s p
    by (rule valid_pre [OF valid_then_closing [OF ch_quiet.q_emit]]) auto
  have maybe: "valid ?P (only_if g (emit CloseConn)) (\<lambda>_. settled ch tr)"
    if "responseErr \<noteq> Some (Var ErrErrorResponseIncomplete)" for g
    using that by (intro valid_if_closing) auto
  show ?thesis
    unfolding reportDispatch_def by (intro valid_option valid_if log maybe) auto
qed

text \<open>
  What is known of the responder after the dispatch: nothing was sent through it, or the
  channel was answered, or the responder reports that a send has not finished.
\<close>

lemma valid_reportAnswer:
  "valid (\<lambda>w. ch_inv ch tr w \<and> (fst response \<longrightarrow> tc_answerAttempted (cw_channel w)
       \<or> snd response = Some (Var ErrErrorResponseIncomplete)))
     (reportAnswer c he can dErr response) (\<lambda>_. settled ch tr)"
  (is "valid ?P _ _")
proof (rule validI)
  fix w :: "'a chanworld_scheme" and x w'
  assume P: "?P w" and run: "run_state (reportAnswer c he can dErr response) w = (x, w')"
  obtain attempted responseErr where resp: "response = (attempted, responseErr)" by fastforce
  obtain w1 where w1: "run_state (only_if (\<not> attempted) rejectUnhandledError) w = ((), w1)"
    by (metis old.unit.exhaust prod.exhaust)
  have i1: "ch_inv ch tr w1"
    using P w1 keepsD [OF keeps_rejectUnhandledError] by (cases attempted) (auto simp: resp)
  have a1: "tc_answerAttempted (cw_channel w1) \<or> attempted \<and> responseErr = Some (Var ErrErrorResponseIncomplete)"
    using P w1 rejectUnhandled_answers [of w] by (cases attempted) (auto simp: resp)
  obtain b answerErr where ar: "answerResult (cw_channel w1) = (b, answerErr)" by fastforce
  have log: "keeps (ch_inv ch tr) (emit (LogEscalate d e s p))" for d e s p
    by (rule ch_quiet.q_emit) simp
  have esc: "keeps (ch_inv ch tr) (only_if g (do { _ \<leftarrow> channel_escalate c ae; State_Monad.return () }))" for g ae
    by (intro keeps_intros keeps_channel_escalate)
  show "settled ch tr w'"
  proof (cases answerErr)
    case (Some ae)
    let ?m = "case dErr of
             Some d \<Rightarrow>
               if errors_Is d ae
               then (let (scope, operation) = resolveErrorLocation ErrorScopeChannel ErrorOperationReply ae
                     in emit (LogEscalate d (Some he) scope operation))
               else only_if (\<not> errors_Is he ae) (do { _ \<leftarrow> channel_escalate c ae; State_Monad.return () })
           | None \<Rightarrow> only_if (\<not> errors_Is he ae) (do { _ \<leftarrow> channel_escalate c ae; State_Monad.return () })"
    have "keeps (ch_inv ch tr) ?m" by (intro keeps_option keeps_if keeps_Let keeps_prod log esc)
    from valid_then_closing [OF this] have v: "valid (ch_inv ch tr) (do { ?m; emit CloseConn }) (\<lambda>_. settled ch tr)" .
    have "run_state (do { ?m; emit CloseConn }) w1 = (x, w')"
      using run w1 ar Some by (simp add: reportAnswer_def resp)
    from validD [OF v i1 this] show ?thesis .
  next
    case None
    have ok: "settled ch tr w1" if "responseErr \<noteq> Some (Var ErrErrorResponseIncomplete)"
      using a1 that answered_without_error [OF i1, of b] ar None by auto
    have "run_state (reportDispatch he can dErr responseErr) w1 = (x, w')"
      using run w1 ar None by (simp add: reportAnswer_def resp)
    from validD [OF valid_reportDispatch _ this] show ?thesis using i1 ok by blast
  qed
qed

lemma valid_channel_handled: "valid (ch_inv ch tr) (channel_handled c err) (\<lambda>_. settled ch tr)"
proof (rule validI)
  fix w :: "'a chanworld_scheme" and x w'
  assume i: "ch_inv ch tr w" and run: "run_state (channel_handled c err) w = (x, w')"
  obtain attempted answerErr where ar: "answerResult (cw_channel w) = (attempted, answerErr)" by fastforce
  then have att: "attempted = tc_answerAttempted (cw_channel w)"
    by (auto simp: answerResult_def split: if_splits)
  define herr where "herr = (if err = None \<and> \<not> attempted
       then Some (locateError ErrorScopeChannel ErrorOperationReply (Var ErrChannelResponseNotSent)) else err)"
  show "settled ch tr w'"
  proof (cases herr)
    case None
    then have e: "err = None" "attempted" by (auto simp: herr_def split: if_splits)
    show ?thesis
    proof (cases answerErr)
      case None
      then show ?thesis using run ar e i answered_without_error [OF i, of attempted] att
        by (simp add: channel_handled_def)
    next
      case (Some ae)
      then have "run_state (do { _ \<leftarrow> channel_escalate c ae; emit CloseConn }) w = (x, w')"
        using run ar e by (simp add: channel_handled_def)
      from validD [OF valid_bind [OF keeps_valid [OF keeps_channel_escalate] valid_closing] i this] show ?thesis .
    qed
  next
    case (Some he)
    let ?r = "newErrorResponse (Some channel_responder) :: 'a chanworld_scheme errorResponse"
    let ?msg = "bytes_of_string ''connection failed''"
    obtain can dErr rr w1 where d: "run_state (dispatchError (hc_cutoff c) (hc_ctx c) (hc_errorHandler c)
        ErrorScopeChannel ErrorOperationHandle (Some he) (Some ?r) (Some (respondingErrorAction ?msg))) w
        = (((can, dErr), rr), w1)"
      by (metis prod.exhaust)
    have "ch_pair ch tr (?r, w)" using i by (simp add: ch_pair_def newErrorResponse_def)
    from ch_dispatch.pair_dispatch [OF this d] obtain r where
      r: "rr = Some (response_expire r)" "ch_pair ch tr (r, w1)" .
    let ?res = "response_result (response_expire r)"
    have "fst ?res \<longrightarrow> tc_answerAttempted (cw_channel w1) \<or> snd ?res = Some (Var ErrErrorResponseIncomplete)"
      using r(2) by (auto simp: response_result_def response_expire_def ch_pair_def)
    moreover have "ch_inv ch tr w1" using r(2) by (simp add: ch_pair_def)
    moreover have "run_state (reportAnswer c he can dErr ?res) w1 = (x, w')"
      using run ar Some d r(1) unfolding channel_handled_def
      by (simp add: herr_def [symmetric])
    ultimately show ?thesis using validD [OF valid_reportAnswer] by blast
  qed
qed

text \<open>
  C10. Whatever the channel handler and the error handler do, on other goroutines too, the open
  request of a channel gets at most one answer from its worker; when the worker ends, either
  exactly one was sent, without an error, or the connection has been closed. An accepted
  channel is closed when the worker ends.
\<close>

theorem channel_answered_or_closed:
  "\<exists>new. w_trace (snd (run_state (channel_worker c ch handler) w)) = w_trace w @ new
     \<and> length (answers ch new) \<le> 1
     \<and> ((\<exists>e. answers ch new = [(e, None)]) \<or> CloseConn \<in> set (map fst new))
     \<and> tc_accepted (cw_channel (snd (run_state (channel_worker c ch handler) w))) = None"
proof -
  let ?w0 = "w\<lparr>cw_channel := newTrackedChannel ch\<rparr>"
  have i0: "ch_inv ch (w_trace w) ?w0" by (simp add: ch_inv_def newTrackedChannel_def answered_once_def)
  obtain err w1 where 1: "run_state (run_cprog (handler (w_trace w))) ?w0 = (err, w1)" by fastforce
  obtain x w2 where 2: "run_state (channel_handled c err) w1 = (x, w2)" by (metis prod.exhaust)
  have i1: "ch_inv ch (w_trace w) w1" by (rule keepsD [OF keeps_cprog i0 1])
  have s: "settled ch (w_trace w) w2" by (rule validD [OF valid_channel_handled i1 2])
  have fin: "snd (run_state (channel_worker c ch handler) w) = snd (run_state closeAccepted w2)"
    using 1 2 by (simp add: channel_worker_def update_channel_def)
  obtain new where new: "w_trace w2 = w_trace w @ new" "answered_once (cw_channel w2) (answers ch new)"
    using s by (auto simp: settled_def ch_inv_def)
  then have len: "length (answers ch new) \<le> 1" by (auto simp: answered_once_def split: if_splits)
  have ok: "(\<exists>e. answers ch new = [(e, None)]) \<or> CloseConn \<in> set (map fst new)"
    using s new by (auto simp: settled_def closed_since_def answered_once_def)
  show ?thesis
  proof (cases "tc_accepted (cw_channel w2)")
    case None
    then show ?thesis unfolding fin using new len ok
      by (intro exI [of _ new]) (simp add: closeAccepted_def update_channel_def)
  next
    case (Some a)
    then show ?thesis unfolding fin using new len ok
      by (intro exI [of _ "new @ [(ChannelClose a, w_env w2 (w_trace w2) (ChannelClose a))]"])
        (simp add: closeAccepted_def update_channel_def)
  qed
qed

section \<open>Admission of channels\<close>

text \<open>
  The loop over incoming channels decides for each one whether it is refused or gets a worker;
  \<open>cc_running\<close> are the workers that have not ended (the number of the channel, and whether it is
  a session). \<open>am_handlers\<close> says for which channel types there is a handler. The limiter is
  also used by code that opens channels to the client; \<open>cc_others\<close> counts its reservations.
\<close>

record channel_admission =
  am_handlers :: "string \<Rightarrow> bool"
  am_maxSessions :: int
  am_limiter :: connectionChannelLimiter

record connection_channels =
  cc_counters :: counters
  cc_activeSessions :: int
  cc_running :: "(nat \<times> bool) list"
  cc_others :: nat

datatype admission = Refuse uint32 string | Started

definition admitChannel ::
  "channel_admission \<Rightarrow> nat \<Rightarrow> string \<Rightarrow> connection_channels \<Rightarrow> admission \<times> connection_channels" where
  "admitChannel c ch ctype s =
     (if \<not> am_handlers c ctype \<and> \<not> am_handlers c ''default''
      then (Refuse gossh_UnknownChannelType ''unsupported channel type'', s)
      else case channelLimiter_reserve (Some (am_limiter c)) (cc_counters s) of
        (False, k) \<Rightarrow> (Refuse gossh_ResourceShortage ''too many open channels'', s\<lparr>cc_counters := k\<rparr>)
      | (True, k) \<Rightarrow>
          (let isSession = (ctype = ''session'');
               counted = isSession \<and> am_maxSessions c > 0;
               s1 = s\<lparr>cc_counters := k, cc_activeSessions := cc_activeSessions s + (if counted then 1 else 0)\<rparr>
           in if counted \<and> cc_activeSessions s1 > am_maxSessions c
              then (Refuse gossh_ResourceShortage ''too many open sessions'',
                    s1\<lparr>cc_activeSessions := cc_activeSessions s1 - 1,
                       cc_counters := channelLimiter_release (Some (am_limiter c)) (cc_counters s1)\<rparr>)
              else (Started, s1\<lparr>cc_running := (ch, isSession) # cc_running s1\<rparr>)))"

text \<open>The deferred function of a worker: give back the session and the channel.\<close>

definition finishChannel :: "channel_admission \<Rightarrow> nat \<times> bool \<Rightarrow> connection_channels \<Rightarrow> connection_channels" where
  "finishChannel c worker s =
     s\<lparr>cc_activeSessions := cc_activeSessions s - (if snd worker \<and> am_maxSessions c > 0 then 1 else 0),
       cc_counters := channelLimiter_release (Some (am_limiter c)) (cc_counters s),
       cc_running := remove1 worker (cc_running s)\<rparr>"

text \<open>
  The loop, its workers, other users of the connection's limiter, and other connections, which
  change only counters that are not the connection's own.
\<close>

inductive channels_step :: "channel_admission \<Rightarrow> connection_channels \<Rightarrow> connection_channels \<Rightarrow> bool" for c where
  step_admit: "channels_step c s (snd (admitChannel c ch ctype s))"
| step_finishChannel: "worker \<in> set (cc_running s) \<Longrightarrow> channels_step c s (finishChannel c worker s)"
| step_other_reserve: "channelLimiter_reserve (Some (am_limiter c)) (cc_counters s) = (ok, k) \<Longrightarrow>
     channels_step c s (s\<lparr>cc_counters := k, cc_others := cc_others s + (if ok then 1 else 0)\<rparr>)"
| step_other_release: "cc_others s = Suc n \<Longrightarrow>
     channels_step c s (s\<lparr>cc_counters := channelLimiter_release (Some (am_limiter c)) (cc_counters s), cc_others := n\<rparr>)"
| step_other_connections: "k (cl_active (am_limiter c)) = cc_counters s (cl_active (am_limiter c)) \<Longrightarrow>
     channels_step c s (s\<lparr>cc_counters := k\<rparr>)"

definition channels_start :: "counters \<Rightarrow> connection_channels" where
  "channels_start k = \<lparr>cc_counters = k, cc_activeSessions = 0, cc_running = [], cc_others = 0\<rparr>"

definition sessions_in :: "(nat \<times> bool) list \<Rightarrow> nat" where
  "sessions_in ws = length (filter snd ws)"

lemma sessions_in_simps [simp]:
  "sessions_in [] = 0" "sessions_in (w # ws) = (if snd w then 1 else 0) + sessions_in ws"
  by (simp_all add: sessions_in_def)

lemma sessions_in_remove1: "w \<in> set ws \<Longrightarrow> sessions_in ws = (if snd w then 1 else 0) + sessions_in (remove1 w ws)"
  by (induction ws) auto

definition own_weight :: "channel_admission \<Rightarrow> int" where
  "own_weight c = int (levels_at (channel_levels (Some (am_limiter c))) (cl_active (am_limiter c)))"

definition channels_inv :: "channel_admission \<Rightarrow> connection_channels \<Rightarrow> bool" where
  "channels_inv c s \<longleftrightarrow>
     cc_counters s (cl_active (am_limiter c)) = int (length (cc_running s) + cc_others s) * own_weight c
     \<and> cc_activeSessions s = (if am_maxSessions c > 0 then int (sessions_in (cc_running s)) else 0)
     \<and> (am_maxSessions c > 0 \<longrightarrow> cc_activeSessions s \<le> am_maxSessions c)"

text \<open>A refused channel leaves every counter as it was.\<close>

lemma admit_refused:
  assumes "admitChannel c ch ctype s = (Refuse r m, s')"
  shows "s' = s"
proof (cases "channelLimiter_reserve (Some (am_limiter c)) (cc_counters s)")
  case (Pair ok k)
  then show ?thesis
    using assms chan_slots.refused [of "Some (am_limiter c)" "cc_counters s" k]
      chan_slots.release_undoes_reserve [of "Some (am_limiter c)" "cc_counters s" k]
    by (cases ok) (auto simp: admitChannel_def Let_def split: if_splits)
qed

lemma admit_started:
  assumes "admitChannel c ch ctype s = (Started, s')"
  obtains k where "channelLimiter_reserve (Some (am_limiter c)) (cc_counters s) = (True, k)"
    "s' = s\<lparr>cc_counters := k,
       cc_activeSessions := cc_activeSessions s + (if ctype = ''session'' \<and> am_maxSessions c > 0 then 1 else 0),
       cc_running := (ch, ctype = ''session'') # cc_running s\<rparr>"
    "ctype = ''session'' \<and> am_maxSessions c > 0 \<longrightarrow> cc_activeSessions s + 1 \<le> am_maxSessions c"
  using assms
  by (cases "channelLimiter_reserve (Some (am_limiter c)) (cc_counters s)")
    (auto simp: admitChannel_def Let_def split: if_splits bool.splits)

lemma channels_inv_admit: "channels_inv c s \<Longrightarrow> channels_inv c (snd (admitChannel c ch ctype s))"
proof -
  assume inv: "channels_inv c s"
  obtain a s' where ad: "admitChannel c ch ctype s = (a, s')" by fastforce
  show ?thesis
  proof (cases a)
    case (Refuse r m)
    with ad admit_refused [of c ch ctype s r m s'] inv show ?thesis by simp
  next
    case Started
    with ad have "admitChannel c ch ctype s = (Started, s')" by simp
    then obtain k where k: "channelLimiter_reserve (Some (am_limiter c)) (cc_counters s) = (True, k)"
      "s' = s\<lparr>cc_counters := k,
         cc_activeSessions := cc_activeSessions s + (if ctype = ''session'' \<and> am_maxSessions c > 0 then 1 else 0),
         cc_running := (ch, ctype = ''session'') # cc_running s\<rparr>"
      "ctype = ''session'' \<and> am_maxSessions c > 0 \<longrightarrow> cc_activeSessions s + 1 \<le> am_maxSessions c"
      by (rule admit_started)
    from chan_slots.granted [OF k(1), of "cl_active (am_limiter c)"] inv k(2,3) ad show ?thesis
      by (auto simp: channels_inv_def own_weight_def algebra_simps)
  qed
qed

lemma channels_inv_step:
  assumes "channels_step c s s'" "channels_inv c s"
  shows "channels_inv c s'"
  using assms
proof cases
  case (step_admit ch ctype)
  then show ?thesis using channels_inv_admit [OF assms(2)] by simp
next
  case (step_finishChannel worker)
  then have "length (cc_running s) = Suc (length (remove1 worker (cc_running s)))"
    using length_pos_if_in_set [of worker "cc_running s"] by (simp add: length_remove1)
  with step_finishChannel assms(2) sessions_in_remove1 [OF step_finishChannel(2)] show ?thesis
    by (auto simp: channels_inv_def finishChannel_def chan_slots.released own_weight_def algebra_simps)
next
  case (step_other_reserve ok k)
  then show ?thesis
    using assms(2) chan_slots.granted [of "Some (am_limiter c)" "cc_counters s" k]
      chan_slots.refused [of "Some (am_limiter c)" "cc_counters s" k]
    by (cases ok) (auto simp: channels_inv_def own_weight_def algebra_simps)
next
  case (step_other_release n)
  then show ?thesis using assms(2)
    by (auto simp: channels_inv_def chan_slots.released own_weight_def algebra_simps)
next
  case (step_other_connections k)
  then show ?thesis using assms(2) by (auto simp: channels_inv_def)
qed

text \<open>The connection's own limit: a granted reservation found room for itself.\<close>

lemma reserve_below:
  assumes "channelLimiter_reserve (Some l) s = (True, s')" "0 < cl_limit l"
  shows "s (cl_active l) + 1 \<le> cl_limit l"
  using assms by (auto simp: channelLimiter_reserve_def Let_def split: if_splits prod.splits bool.splits)

definition channels_bound :: "channel_admission \<Rightarrow> connection_channels \<Rightarrow> bool" where
  "channels_bound c s \<longleftrightarrow> cc_counters s (cl_active (am_limiter c)) \<le> cl_limit (am_limiter c)"

lemma channels_bound_admit:
  assumes "channels_bound c s" "0 < cl_limit (am_limiter c)" "own_weight c = 1"
  shows "channels_bound c (snd (admitChannel c ch ctype s))"
proof -
  obtain a s' where ad: "admitChannel c ch ctype s = (a, s')" by fastforce
  show ?thesis
  proof (cases a)
    case (Refuse r m)
    with ad admit_refused [of c ch ctype s r m s'] assms show ?thesis by simp
  next
    case Started
    with ad have "admitChannel c ch ctype s = (Started, s')" by simp
    then obtain k where k: "channelLimiter_reserve (Some (am_limiter c)) (cc_counters s) = (True, k)"
      "cc_counters s' = k" by (rule admit_started) simp
    from chan_slots.granted [OF k(1), of "cl_active (am_limiter c)"] reserve_below [OF k(1)] assms k(2) ad
    show ?thesis by (simp add: channels_bound_def own_weight_def)
  qed
qed

lemma channels_bound_step:
  assumes "channels_step c s s'" "channels_bound c s" "0 < cl_limit (am_limiter c)" "own_weight c = 1"
  shows "channels_bound c s'"
  using assms(1)
proof cases
  case (step_admit ch ctype)
  then show ?thesis using channels_bound_admit [OF assms(2-4)] by simp
next
  case (step_other_reserve ok k)
  then show ?thesis
    using assms chan_slots.granted [of "Some (am_limiter c)" "cc_counters s" k "cl_active (am_limiter c)"]
      reserve_below [of "am_limiter c" "cc_counters s" k] chan_slots.refused [of "Some (am_limiter c)" "cc_counters s" k]
    by (cases ok) (auto simp: channels_bound_def own_weight_def)
qed (use assms in \<open>auto simp: channels_bound_def finishChannel_def chan_slots.released\<close>)

interpretation channels: step_invariant "channels_step c" "channels_inv c" for c
  by unfold_locales (rule channels_inv_step)

interpretation channels_bounded: step_invariant "channels_step c"
  "\<lambda>s. if 0 < cl_limit (am_limiter c) \<and> own_weight c = 1 then channels_bound c s else True" for c
  by unfold_locales (auto intro: channels_bound_step)

text \<open>
  C11. Whatever channels the client opens and however workers, other users of the limiter and other
  connections interleave: the counter of sessions is the number of session workers running and
  never exceeds the limit on sessions; the connection's channel counter is the number of
  workers and other reservations that are held and never exceeds the limit on channels; so
  when all have ended the connection holds no slot. A limit that is not positive counts nothing.
\<close>

theorem channel_limits_respected:
  assumes "(channels_step c)\<^sup>*\<^sup>* (channels_start k) s" "k (cl_active (am_limiter c)) = 0"
    and "levels_at (cl_global (am_limiter c)) (cl_active (am_limiter c)) = 0"
  shows "cc_activeSessions s = (if am_maxSessions c > 0 then int (sessions_in (cc_running s)) else 0)
    \<and> (if am_maxSessions c > 0 then int (sessions_in (cc_running s)) \<le> am_maxSessions c else True)
    \<and> (if cl_limit (am_limiter c) > 0
       then cc_counters s (cl_active (am_limiter c)) = int (length (cc_running s) + cc_others s)
            \<and> int (length (cc_running s) + cc_others s) \<le> cl_limit (am_limiter c)
       else cc_counters s (cl_active (am_limiter c)) = 0)"
proof -
  have w: "own_weight c = (if cl_limit (am_limiter c) > 0 then 1 else 0)"
    using assms(3) by (simp add: own_weight_def channel_levels_def rl_counter_def)
  have inv: "channels_inv c s"
    by (rule channels.steps_keep [OF assms(1)]) (use assms(2) in \<open>simp add: channels_inv_def channels_start_def\<close>)
  have "if 0 < cl_limit (am_limiter c) \<and> own_weight c = 1 then channels_bound c s else True"
    by (rule channels_bounded.steps_keep [OF assms(1)]) (use assms(2) in \<open>simp add: channels_bound_def channels_start_def\<close>)
  then have bound: "channels_bound c s" if "0 < cl_limit (am_limiter c)" using that w by simp
  show ?thesis using inv bound w by (auto simp: channels_inv_def channels_bound_def)
qed

lemma channel_limits_respected_witness:
  "let c = \<lparr>am_handlers = (\<lambda>t. t = ''session''), am_maxSessions = 1,
             am_limiter = \<lparr>cl_limit = 2, cl_active = 0, cl_global = [\<lparr>rl_limit = 9, rl_active = Some 1\<rparr>]\<rparr>\<rparr>;
       s = snd (admitChannel c 7 ''session'' (snd (admitChannel c 5 ''session'' (channels_start (\<lambda>_. 0)))))
   in cc_activeSessions s = 1 \<and> cc_running s = [(5, True)]"
proof -
  let ?c = "\<lparr>am_handlers = (\<lambda>t. t = ''session''), am_maxSessions = 1,
             am_limiter = \<lparr>cl_limit = 2, cl_active = 0, cl_global = [\<lparr>rl_limit = 9, rl_active = Some 1\<rparr>]\<rparr>\<rparr>"
  let ?s = "snd (admitChannel ?c 7 ''session'' (snd (admitChannel ?c 5 ''session'' (channels_start (\<lambda>_. 0)))))"
  have "(channels_step ?c)\<^sup>*\<^sup>* (channels_start (\<lambda>_. 0)) ?s"
    by (rule rtranclp.rtrancl_into_rtrancl, rule r_into_rtranclp, rule step_admit, rule step_admit)
  from channel_limits_respected [OF this] have "cc_activeSessions ?s = int (sessions_in (cc_running ?s))"
    by (simp add: rl_counter_def)
  moreover have "cc_running ?s = [(5, True)]"
    by (simp add: admitChannel_def channels_start_def channelLimiter_reserve_def channelLimiter_release_def
        rl_counter_def Let_def)
  ultimately show ?thesis by simp
qed

end
