(* ===== verification/SessionSignals.thy ===== *)
theory SessionSignals
  imports Prelude "HOL-Library.Sublist"
begin

text \<open>
  The delivery of signals and breaks of \<open>session.go\<close>: signals are buffered while no channel is
  registered; registering a channel starts a goroutine that drains the buffer into it; after
  that signals are sent directly. Each section under the session's mutex is one function; the
  outcome of a send on a channel is the environment's choice. \<open>sg_accepted\<close>,
  \<open>sg_delivered\<close> and \<open>sg_lost\<close> record the history and decide nothing: the signals acknowledged to
  the client, those the application received, and those dropped.
\<close>

section \<open>State\<close>

abbreviation maxSigBufSize :: nat where "maxSigBufSize \<equiv> 128"
abbreviation maxSessionSignalBytes :: nat where "maxSessionSignalBytes \<equiv> 64"

text \<open>
  \<open>sg_drain\<close> is the goroutine \<open>drainSignals\<close> while it runs: its target and the signals it has taken
  from the buffer and not sent yet.
\<close>

record sigstate =
  sg_sigCh :: "nat option"
  sg_sigBuf :: "string list"
  sg_drain :: "(nat \<times> string list) option"
  sg_exiting :: bool
  sg_breakCh :: "nat option"
  sg_accepted :: "string list"
  sg_delivered :: "string list"
  sg_lost :: "string list"

definition no_signals :: sigstate where
  "no_signals = \<lparr>sg_sigCh = None, sg_sigBuf = [], sg_drain = None, sg_exiting = False, sg_breakCh = None,
     sg_accepted = [], sg_delivered = [], sg_lost = []\<rparr>"

text \<open>
  The outcome of \<open>sendSignal\<close>: the signal was taken, the send was canceled because another
  channel is registered, the session's context is done, or the channel is closed.
\<close>

datatype send_outcome = Delivered | Canceled | ContextDone | ChannelClosed

section \<open>Sections\<close>

definition requeueSignals :: "string list \<Rightarrow> sigstate \<Rightarrow> sigstate" where
  "requeueSignals signals s =
     (let all = signals @ sg_sigBuf s;
          kept = (if length all > maxSigBufSize then take maxSigBufSize all else all)
      in s\<lparr>sg_sigBuf := kept, sg_drain := None, sg_lost := sg_lost s @ drop maxSigBufSize all\<rparr>)"

text \<open>
  One section of \<open>drainSignals\<close>: with nothing left of its batch it takes the buffer, or becomes the
  registered channel when that is empty.
\<close>

definition drain_take :: "sigstate \<Rightarrow> sigstate" where
  "drain_take s = (case sg_drain s of
     Some (target, []) \<Rightarrow>
       (let buffered = sg_sigBuf s; s1 = s\<lparr>sg_sigBuf := []\<rparr>
        in if length buffered = 0 then s1\<lparr>sg_sigCh := Some target, sg_drain := None\<rparr>
           else s1\<lparr>sg_drain := Some (target, buffered)\<rparr>)
   | _ \<Rightarrow> s)"

text \<open>The send of the next signal of the batch and what follows from its outcome.\<close>

definition drain_send :: "send_outcome \<Rightarrow> sigstate \<Rightarrow> sigstate" where
  "drain_send outcome s = (case sg_drain s of
     Some (target, sig # rest) \<Rightarrow>
       (case outcome of
          Delivered \<Rightarrow> s\<lparr>sg_drain := Some (target, rest), sg_delivered := sg_delivered s @ [sig]\<rparr>
        | ContextDone \<Rightarrow> s\<lparr>sg_drain := None, sg_lost := sg_lost s @ sig # rest\<rparr>
        | _ \<Rightarrow> requeueSignals (sig # rest) s)
   | _ \<Rightarrow> s)"

text \<open>
  \<open>setSignalChannelLocked\<close>, after it has canceled a running drain and waited for it
  (\<open>sg_drain\<close> is \<open>None\<close> then) and for sends in flight.
\<close>

definition setSignalChannelLocked :: "nat option \<Rightarrow> sigstate \<Rightarrow> sigstate" where
  "setSignalChannelLocked ch s =
     (let s1 = s\<lparr>sg_sigCh := None\<rparr>
      in case ch of
           None \<Rightarrow> s1
         | Some c \<Rightarrow>
             if length (sg_sigBuf s1) = 0 then s1\<lparr>sg_sigCh := Some c\<rparr>
             else s1\<lparr>sg_drain := Some (c, [])\<rparr>)"

definition Signals :: "nat option \<Rightarrow> sigstate \<Rightarrow> sigstate" where
  "Signals ch s = (if sg_exiting s then s else setSignalChannelLocked ch s)"

definition stopSignalDeliveryForExit :: "sigstate \<Rightarrow> sigstate" where
  "stopSignalDeliveryForExit s = setSignalChannelLocked None s"

text \<open>
  \<open>handleSignalRequest\<close> once the payload is read: \<open>outcome\<close> is that of a direct send. The result is
  the reply and whether the request loop goes on. A buffer that is full drops the signal and
  still acknowledges it.
\<close>

definition handleSignal :: "send_outcome \<Rightarrow> string \<Rightarrow> sigstate \<Rightarrow> (bool \<times> bool) \<times> sigstate" where
  "handleSignal outcome signal s =
     (if length signal > maxSessionSignalBytes then ((False, True), s)
      else if sg_exiting s then ((False, False), s)
      else case sg_sigCh s of
        None \<Rightarrow>
          ((True, True),
           if length (sg_sigBuf s) < maxSigBufSize
           then s\<lparr>sg_sigBuf := sg_sigBuf s @ [signal], sg_accepted := sg_accepted s @ [signal]\<rparr>
           else s\<lparr>sg_accepted := sg_accepted s @ [signal], sg_lost := sg_lost s @ [signal]\<rparr>)
      | Some c \<Rightarrow>
          (case outcome of
             Delivered \<Rightarrow>
               ((True, True), s\<lparr>sg_accepted := sg_accepted s @ [signal], sg_delivered := sg_delivered s @ [signal]\<rparr>)
           | Canceled \<Rightarrow> ((False, True), s)
           | ContextDone \<Rightarrow> ((False, False), s)
           | ChannelClosed \<Rightarrow> ((False, True), s\<lparr>sg_sigCh := None\<rparr>)))"

definition setBreakChannelLocked :: "nat option \<Rightarrow> sigstate \<Rightarrow> sigstate" where
  "setBreakChannelLocked c s = s\<lparr>sg_breakCh := c\<rparr>"

definition Break :: "nat option \<Rightarrow> sigstate \<Rightarrow> sigstate" where
  "Break c s = (if sg_exiting s then s else setBreakChannelLocked c s)"

definition stopBreakDeliveryForExit :: "sigstate \<Rightarrow> sigstate" where
  "stopBreakDeliveryForExit s = setBreakChannelLocked None (s\<lparr>sg_exiting := True\<rparr>)"

definition deliverBreak :: "send_outcome \<Rightarrow> sigstate \<Rightarrow> bool \<times> sigstate" where
  "deliverBreak outcome s = (case sg_breakCh s of
     None \<Rightarrow> (False, s)
   | Some c \<Rightarrow>
       (case outcome of
          Delivered \<Rightarrow> (True, s)
        | ChannelClosed \<Rightarrow> (False, s\<lparr>sg_breakCh := None\<rparr>)
        | _ \<Rightarrow> (False, s)))"

section \<open>All interleavings\<close>

text \<open>
  A registration waits for a running drain, so it happens when none runs, also after \<open>exiting\<close> has been set if
  \<open>Signals\<close> has checked it before. A drain whose target is canceled is one whose next send is
  \<open>Canceled\<close>. In the end \<open>Exit\<close> sets \<open>exiting\<close> and removes the channels.
\<close>

inductive signal_step :: "sigstate \<Rightarrow> sigstate \<Rightarrow> bool" where
  sig_request: "signal_step s (snd (handleSignal outcome signal s))"
| sig_register: "sg_drain s = None \<Longrightarrow> signal_step s (setSignalChannelLocked ch s)"
| sig_take: "signal_step s (drain_take s)"
| sig_send: "signal_step s (drain_send outcome s)"
| sig_exiting: "signal_step s (s\<lparr>sg_exiting := True\<rparr>)"
| sig_stop: "sg_drain s = None \<Longrightarrow> signal_step s (stopSignalDeliveryForExit s)"
| sig_break: "signal_step s (setBreakChannelLocked c s)"
| sig_break_sent: "signal_step s (snd (deliverBreak outcome s))"
| sig_break_stop: "signal_step s (stopBreakDeliveryForExit s)"

text \<open>The signals the session still holds, in the order it will deliver them.\<close>

definition held_signals :: "sigstate \<Rightarrow> string list" where
  "held_signals s = (case sg_drain s of Some (_, batch) \<Rightarrow> batch | None \<Rightarrow> []) @ sg_sigBuf s"

definition signals_inv :: "sigstate \<Rightarrow> bool" where
  "signals_inv s \<longleftrightarrow>
     length (sg_sigBuf s) \<le> maxSigBufSize
     \<and> (case sg_drain s of Some (_, batch) \<Rightarrow> length batch \<le> maxSigBufSize | None \<Rightarrow> True)
     \<and> list_all (\<lambda>x. length x \<le> maxSessionSignalBytes) (held_signals s)
     \<and> (sg_sigCh s \<noteq> None \<longrightarrow> sg_sigBuf s = [] \<and> sg_drain s = None)
     \<and> subseq (sg_delivered s @ held_signals s) (sg_accepted s)
     \<and> length (sg_accepted s) = length (sg_delivered s @ held_signals s) + length (sg_lost s)"

lemma subseq_snoc: "subseq xs ys \<Longrightarrow> subseq xs (ys @ [y])"
  by (rule subseq_rev_drop_many)

lemma subseq_prefix: "subseq (xs @ zs) ys \<Longrightarrow> subseq xs ys"
  by (metis prefixI prefix_imp_subseq subseq_order.order_trans)

lemma subseq_skip: "subseq (xs @ ms @ zs) ys \<Longrightarrow> subseq (xs @ zs) ys"
  by (metis list_emb_append2 subseq_append' subseq_order.order_refl subseq_order.order_trans)

lemma subseq_take: "subseq (xs @ zs) ys \<Longrightarrow> subseq (xs @ take n zs) ys"
  using subseq_prefix [of "xs @ take n zs" "drop n zs" ys] by simp

lemma held_cases:
  "held_signals (s\<lparr>sg_drain := Some (t, b)\<rparr>) = b @ sg_sigBuf s"
  "held_signals (s\<lparr>sg_drain := None\<rparr>) = sg_sigBuf s"
  by (simp_all add: held_signals_def)

lemma signals_inv_requeue:
  assumes "signals_inv s" "sg_drain s = Some (t, sigs)"
  shows "signals_inv (requeueSignals sigs s)"
proof -
  let ?all = "sigs @ sg_sigBuf s"
  have "held_signals s = ?all" using assms(2) by (simp add: held_signals_def)
  then have i: "list_all (\<lambda>x. length x \<le> maxSessionSignalBytes) ?all" "subseq (sg_delivered s @ ?all) (sg_accepted s)"
    "length (sg_accepted s) = length (sg_delivered s) + length ?all + length (sg_lost s)" "sg_sigCh s = None"
    using assms by (auto simp: signals_inv_def)
  have eq: "requeueSignals sigs s = s\<lparr>sg_sigBuf := take maxSigBufSize ?all, sg_drain := None,
      sg_lost := sg_lost s @ drop maxSigBufSize ?all\<rparr>"
    by (simp add: requeueSignals_def Let_def)
  have "list_all (\<lambda>x. length x \<le> maxSessionSignalBytes) (take maxSigBufSize ?all)"
    using i(1) by (auto simp: list_all_iff dest!: in_set_takeD)
  moreover have "subseq (sg_delivered s @ take maxSigBufSize ?all) (sg_accepted s)"
    by (rule subseq_take [OF i(2)])
  moreover have "length (take maxSigBufSize ?all) + length (drop maxSigBufSize ?all) = length ?all"
    by (metis append_take_drop_id length_append)
  ultimately show ?thesis
    unfolding eq signals_inv_def using i(3,4) by (simp add: held_signals_def del: take_append drop_append)
qed

lemma signals_inv_handle: "signals_inv s \<Longrightarrow> signals_inv (snd (handleSignal outcome signal s))"
  by (auto simp: handleSignal_def signals_inv_def held_signals_def subseq_snoc
      split: option.splits send_outcome.splits)
    (metis append.assoc subseq_append)+

lemma signals_inv_take: "signals_inv s \<Longrightarrow> signals_inv (drain_take s)"
  by (auto simp: drain_take_def signals_inv_def held_signals_def Let_def split: option.splits list.splits)

lemma signals_inv_send:
  assumes "signals_inv s"
  shows "signals_inv (drain_send outcome s)"
proof (cases "sg_drain s")
  case None
  then show ?thesis using assms by (simp add: drain_send_def)
next
  case (Some d)
  obtain t b where d: "d = (t, b)" by fastforce
  show ?thesis
  proof (cases b)
    case Nil
    then show ?thesis using assms Some d by (simp add: drain_send_def)
  next
    case (Cons sig rest)
    have r: "signals_inv (requeueSignals (sig # rest) s)"
      by (rule signals_inv_requeue [OF assms]) (simp add: Some d Cons)
    have "subseq (sg_delivered s @ sg_sigBuf s) (sg_accepted s)"
      using assms Some d Cons subseq_skip [of "sg_delivered s" "sig # rest" "sg_sigBuf s"]
      by (simp add: signals_inv_def held_signals_def)
    then show ?thesis using assms Some d Cons r
      by (cases outcome) (auto simp: drain_send_def signals_inv_def held_signals_def)
  qed
qed

lemma signals_inv_set: "signals_inv s \<Longrightarrow> sg_drain s = None \<Longrightarrow> signals_inv (setSignalChannelLocked ch s)"
  by (auto simp: setSignalChannelLocked_def signals_inv_def held_signals_def Let_def split: option.splits)

lemma signals_inv_other [simp]:
  "signals_inv (s\<lparr>sg_exiting := b\<rparr>) = signals_inv s" "signals_inv (s\<lparr>sg_breakCh := c\<rparr>) = signals_inv s"
  by (simp_all add: signals_inv_def held_signals_def)

lemma signals_inv_step: "signal_step s s' \<Longrightarrow> signals_inv s \<Longrightarrow> signals_inv s'"
  by (induction rule: signal_step.induct)
    (auto simp: signals_inv_handle signals_inv_take signals_inv_send signals_inv_set Signals_def
      stopSignalDeliveryForExit_def Break_def setBreakChannelLocked_def stopBreakDeliveryForExit_def deliverBreak_def
      split: option.splits send_outcome.splits)

interpretation signals: step_invariant signal_step signals_inv
  by unfold_locales (rule signals_inv_step)

lemma signals_ordered:
  assumes "signal_step\<^sup>*\<^sup>* no_signals s"
  shows "subseq (sg_delivered s) (sg_accepted s)
    \<and> length (sg_sigBuf s) \<le> 128 \<and> length (held_signals s) \<le> 256 \<and> list_all (\<lambda>x. length x \<le> 64) (held_signals s)
    \<and> (if sg_sigCh s = None then True else held_signals s = [])
    \<and> length (sg_accepted s) = length (sg_delivered s) + length (held_signals s) + length (sg_lost s)
    \<and> (if sg_lost s = [] then sg_delivered s @ held_signals s = sg_accepted s else True)"
proof -
  have inv: "signals_inv s"
    by (rule signals.steps_keep [OF assms]) (simp add: signals_inv_def no_signals_def held_signals_def)
  then have sub: "subseq (sg_delivered s @ held_signals s) (sg_accepted s)"
    and len: "length (sg_accepted s) = length (sg_delivered s @ held_signals s) + length (sg_lost s)"
    by (simp_all add: signals_inv_def)
  then have "sg_lost s = [] \<Longrightarrow> sg_delivered s @ held_signals s = sg_accepted s"
    by (metis add.right_neutral list.size(3) subseq_same_length)
  moreover have "length (held_signals s) \<le> 256" using inv
    by (auto simp: signals_inv_def held_signals_def split: option.splits)
  ultimately show ?thesis using inv sub len subseq_prefix [OF sub]
    by (auto simp: signals_inv_def held_signals_def)
qed

lemma signals_ordered_run:
  "let s = drain_send Delivered (drain_take (Signals (Some 1) (snd (handleSignal Canceled ''TERM'' (snd (handleSignal Canceled ''HUP'' no_signals))))))
   in sg_delivered s = [''HUP''] \<and> sg_delivered s @ held_signals s = [''HUP'', ''TERM'']"
proof -
  let ?a = "snd (handleSignal Canceled ''TERM'' (snd (handleSignal Canceled ''HUP'' no_signals)))"
  let ?s = "drain_send Delivered (drain_take (Signals (Some 1) ?a))"
  have a: "?a = no_signals\<lparr>sg_sigBuf := [''HUP'', ''TERM''], sg_accepted := [''HUP'', ''TERM'']\<rparr>"
    by (simp add: handleSignal_def no_signals_def)
  have "signal_step\<^sup>*\<^sup>* no_signals ?a"
    by (rule rtranclp.rtrancl_into_rtrancl, rule r_into_rtranclp, rule sig_request, rule sig_request)
  moreover have "signal_step ?a (Signals (Some 1) ?a)"
    using sig_register [of ?a "Some 1"] by (simp only: a) (simp add: Signals_def no_signals_def)
  ultimately have "signal_step\<^sup>*\<^sup>* no_signals ?s"
    by (meson rtranclp.rtrancl_into_rtrancl sig_send sig_take)
  from signals_ordered [OF this] have "subseq (sg_delivered ?s) (sg_accepted ?s)" by blast
  moreover have "?s = no_signals\<lparr>sg_drain := Some (1, [''TERM'']), sg_accepted := [''HUP'', ''TERM''], sg_delivered := [''HUP'']\<rparr>"
    unfolding a by (simp add: Signals_def setSignalChannelLocked_def drain_take_def drain_send_def no_signals_def Let_def)
  ultimately show ?thesis by (simp add: held_signals_def no_signals_def)
qed

end
