(* ===== verification/Session.thy ===== *)
theory Session
  imports Request Codec SessionSignals
begin

text \<open>
  \<open>session.go\<close>: one session channel. The state is the world extended with the fields of the struct
  \<open>session\<close>; this theory has its methods \<open>Exit\<close>, \<open>Close\<close>, \<open>Write\<close>, the response to an error, the
  end of the user's handler (\<open>startHandler\<close>) and \<open>handleCallbackError\<close>. The request loop is in
  \<open>SessionRequests\<close>.
\<close>

section \<open>State\<close>

text \<open>
  \<open>ss_winch\<close> is the content of the channel \<open>winch\<close> of capacity one, \<open>ss_winchClosed\<close> whether it is closed.
  \<open>ss_started\<close> counts the calls of \<open>startHandler\<close>, \<open>ss_finished\<close> says that its goroutine has ended. \<open>ss_deferredState\<close> is 0 (normal or accepted), 1 (pending) or 2 (rejected); the
  \<open>ss_dr_\<close> fields are the \<open>deferredSubsystemResponse\<close>.
\<close>

record session = world +
  ss_handled :: bool
  ss_exited :: bool
  ss_pty :: "Pty option"
  ss_winch :: "Window option"
  ss_winchClosed :: bool
  ss_env :: "string list"
  ss_envBytes :: int
  ss_rawCmd :: string
  ss_subsystem :: string
  ss_signals :: sigstate
  ss_requestResolved :: bool
  ss_started :: nat
  ss_finished :: bool
  ss_agentRequested :: bool
  ss_deferredState :: nat
  ss_dr_answered :: bool
  ss_dr_accepted :: bool
  ss_dr_err :: "gerr option"

text \<open>
  What the session gets from the server and from the user. A callback sees what happened before
  and decides; nil callbacks are \<open>None\<close>. \<open>sc_unmarshalValue\<close> and \<open>sc_unmarshalPair\<close> stand for
  \<open>gossh.Unmarshal\<close> of a struct with one and with two strings. \<open>sc_write\<close> is the outcome of the
  select on the stderr write in \<open>respondToErrorWithin\<close>, \<open>sc_replyStalls\<close> whether the reply to a
  deferred subsystem request takes longer than \<open>subsystemReplyWriteTimeout\<close>.
\<close>

datatype write_outcome = Written nat "gerr option" | WriteContextDone | WriteTimeout

record session_config =
  sc_chan :: nat
  sc_ctx :: goctx
  sc_errorHandler :: "errorHandler option"
  sc_cutoff :: "nat option"
  sc_hasHandler :: bool
  sc_subsystems :: "string \<Rightarrow> bool"
  sc_deferredSubsystems :: "string \<Rightarrow> bool"
  sc_sessReqCb :: "(event list \<Rightarrow> string \<Rightarrow> bool \<times> gerr option) option"
  sc_ptyCb :: "(event list \<Rightarrow> Pty \<Rightarrow> bool \<times> gerr option) option"
  sc_agentForwardingCb :: "(event list \<Rightarrow> bool \<times> gerr option) option"
  sc_unmarshalValue :: "bytes \<Rightarrow> string option"
  sc_unmarshalPair :: "bytes \<Rightarrow> (string \<times> string) option"
  sc_intBits :: nat
  sc_write :: "event list \<Rightarrow> write_outcome"
  sc_signalSend :: "event list \<Rightarrow> send_outcome"
  sc_breakSend :: "event list \<Rightarrow> send_outcome"
  sc_requestTimeout :: int
  sc_replyStalls :: "event list \<Rightarrow> bool"

section \<open>Exit and Close\<close>

definition session_Close :: "session_config \<Rightarrow> ('a session_scheme, gerr option) state" where
  "session_Close c = do {
     d \<leftarrow> gets ss_deferredState;
     (if d = 1 then State_Monad.return (Some (Var ErrSubsystemResponsePending))
      else perform (ChannelClose (sc_chan c))) }"

definition closeQuietly_session :: "session_config \<Rightarrow> ('a session_scheme, unit) state" where
  "closeQuietly_session c = do { _ \<leftarrow> session_Close c; State_Monad.return () }"

definition on_signals :: "(sigstate \<Rightarrow> 'b \<times> sigstate) \<Rightarrow> ('a session_scheme, 'b) state" where
  "on_signals f = State (\<lambda>w. case f (ss_signals w) of (x, s) \<Rightarrow> (x, w\<lparr>ss_signals := s\<rparr>))"

text \<open>
  \<open>Exit\<close>; stopping the delivery of signals waits until a running drain has put back what it
  could not send.
\<close>

definition stop_drain :: "sigstate \<Rightarrow> sigstate" where
  "stop_drain s = (case sg_drain s of None \<Rightarrow> s | Some (_, batch) \<Rightarrow> requeueSignals batch s)"

text \<open>The section under the session's mutex.\<close>

definition sendExitStatus :: "session_config \<Rightarrow> int \<Rightarrow> ('a session_scheme, gerr option) state" where
  "sendExitStatus c code = do {
     exited \<leftarrow> gets ss_exited;
     (if exited then State_Monad.return (Some (Errorf ''Session.Exit called multiple times'' []))
      else do {
        modify (\<lambda>w. w\<lparr>ss_exited := True\<rparr>);
        requestErr \<leftarrow> perform (SendExitStatus (sc_chan c) (word_of_int code));
        closeErr \<leftarrow> session_Close c;
        State_Monad.return (errors_Join [requestErr, closeErr]) }) }"

definition session_Exit :: "session_config \<Rightarrow> int \<Rightarrow> ('a session_scheme, gerr option) state" where
  "session_Exit c code = do {
     d \<leftarrow> gets ss_deferredState;
     (if d \<noteq> 0 then State_Monad.return (Some (Var ErrSubsystemResponsePending))
      else if code < 0 \<or> code > 4294967295
      then State_Monad.return (Some (Errorf ''ssh: invalid session exit status %d'' [AInt code]))
      else do {
        on_signals (\<lambda>s. ((), s\<lparr>sg_exiting := True\<rparr>));
        on_signals (\<lambda>s. ((), stopSignalDeliveryForExit (stop_drain s)));
        on_signals (\<lambda>s. ((), stopBreakDeliveryForExit s));
        sendExitStatus c code }) }"

section \<open>Write\<close>

text \<open>\<open>bytes.ReplaceAll\<close> with the pattern \<open>\n\<close> and with the pattern \<open>\r\r\n\<close>.\<close>

abbreviation LF :: byte where "LF \<equiv> 10"
abbreviation CR :: byte where "CR \<equiv> 13"

fun replace_lf :: "bytes \<Rightarrow> bytes" where
  "replace_lf [] = []"
| "replace_lf (b # p) = (if b = LF then CR # LF # replace_lf p else b # replace_lf p)"

fun replace_crcrlf :: "bytes \<Rightarrow> bytes" where
  "replace_crcrlf (a # b # d # p) =
     (if a = CR \<and> b = CR \<and> d = LF then CR # LF # replace_crcrlf p else a # replace_crcrlf (b # d # p))"
| "replace_crcrlf p = p"

text \<open>\<open>n\<close> and \<open>err\<close> are what the channel's \<open>Write\<close> returns for the bytes it is given.\<close>

definition session_Write ::
  "session_config \<Rightarrow> (bytes \<Rightarrow> nat) \<Rightarrow> bytes \<Rightarrow> ('a session_scheme, nat \<times> gerr option) state" where
  "session_Write c count p = do {
     pty \<leftarrow> gets ss_pty;
     (case pty of
        Some _ \<Rightarrow> do {
          let m = length p;
          let p' = replace_crcrlf (replace_lf p);
          err \<leftarrow> perform (ChannelWrite (sc_chan c) p');
          let n = count p';
          State_Monad.return (if n > m then m else n, err) }
      | None \<Rightarrow> do {
          err \<leftarrow> perform (ChannelWrite (sc_chan c) p);
          State_Monad.return (count p, err) }) }"

section \<open>Responding to an error\<close>

abbreviation maxSessionErrorResponseBytes :: nat where "maxSessionErrorResponseBytes \<equiv> 4096"

definition respondToErrorWithin :: "session_config \<Rightarrow> 'a session_scheme responder" where
  "respondToErrorWithin c message closeAfterResponse = do {
     let message = (if length message > maxSessionErrorResponseBytes then take maxSessionErrorResponseBytes message else message);
     tr \<leftarrow> gets w_trace;
     emit (StderrWrite (sc_chan c) message);
     err \<leftarrow>
       (case sc_write c tr of
          Written n err \<Rightarrow>
            State_Monad.return (if err = None \<and> n \<noteq> length message then Some (Var IoErrShortWrite) else err)
        | WriteContextDone \<Rightarrow> do {
            err \<leftarrow> perform CtxCause;
            closeSSHConnection (Some (sc_ctx c));
            State_Monad.return err }
        | WriteTimeout \<Rightarrow> do {
            closeSSHConnection (Some (sc_ctx c));
            State_Monad.return (Some (WrapErr ''write session error response: %w'' [] (Var ContextDeadlineExceeded))) });
     only_if closeAfterResponse (emit CloseConn);
     State_Monad.return err }"

definition session_respondToError :: "session_config \<Rightarrow> 'a session_scheme responder" where
  "session_respondToError c message closeAfterResponse = respondToErrorWithin c message closeAfterResponse"

text \<open>\<open>exclusiveSessionExitError\<close> with its loop over the children of a joined error.\<close>

fun exclusiveSessionExitError :: "gerr \<Rightarrow> (int \<times> string) option"
  and exclusive_children :: "(int \<times> string) option \<Rightarrow> gerr list \<Rightarrow> (int \<times> string) option" where
  "exclusiveSessionExitError (SessionExit (Some x)) = Some x"
| "exclusiveSessionExitError (JoinErr children) = exclusive_children None children"
| "exclusiveSessionExitError (OpError op t (Some wrapped)) = exclusiveSessionExitError wrapped"
| "exclusiveSessionExitError (SyscallError (Some wrapped)) = exclusiveSessionExitError wrapped"
| "exclusiveSessionExitError (WrapErr f xs wrapped) = exclusiveSessionExitError wrapped"
| "exclusiveSessionExitError (Located s p wrapped) = exclusiveSessionExitError wrapped"
| "exclusiveSessionExitError (AsExit n (Some x)) = Some x"
| "exclusiveSessionExitError err = None"
| "exclusive_children result [] = result"
| "exclusive_children result (child # children) =
     (case exclusiveSessionExitError child of
        None \<Rightarrow> None
      | Some x \<Rightarrow> if result \<noteq> None then None else exclusive_children (Some x) children)"

definition applyExitError :: "session_config \<Rightarrow> int \<times> string \<Rightarrow> ('a session_scheme, gerr option) state" where
  "applyExitError c x = do {
     responseErr \<leftarrow> (if snd x \<noteq> [] then session_respondToError c (bytes_of_string (snd x)) False
                     else State_Monad.return None);
     exitErr \<leftarrow> session_Exit c (fst x);
     State_Monad.return (errors_Join [responseErr, exitErr]) }"

section \<open>The end of the user's handler\<close>

definition session_escalate :: "session_config \<Rightarrow> uint8 \<Rightarrow> gerr \<Rightarrow> ('a session_scheme, unit) state" where
  "session_escalate c operation err = do {
     _ \<leftarrow> dispatchErrorOrEscalate (sc_cutoff c) (sc_ctx c) (sc_errorHandler c) ErrorScopeSession operation
       (Some err) None (Some defaultLogAndFailErrorAction);
     State_Monad.return () }"

definition relevant_response :: "gerr option \<Rightarrow> bool" where
  "relevant_response responseErr = (case responseErr of
     None \<Rightarrow> False | Some re \<Rightarrow> \<not> errors_Is re (Var ErrErrorResponseUnsupported))"

definition only_response :: "gerr \<Rightarrow> gerr option \<Rightarrow> bool" where
  "only_response filteredErr responseErr = (case responseErr of
     None \<Rightarrow> False
   | Some re \<Rightarrow> \<not> errors_Is re (Var ErrErrorResponseUnsupported) \<and> isOnlyError filteredErr re)"

definition log_response :: "gerr option \<Rightarrow> gerr \<Rightarrow> ('a world_scheme, unit) state" where
  "log_response responseErr err = (case responseErr of
     None \<Rightarrow> State_Monad.return ()
   | Some re \<Rightarrow> emit (LogEscalate re (Some err) ErrorScopeSession ErrorOperationReply))"

text \<open>
  The goroutine of \<open>startHandler\<close> after the handler has returned \<open>err\<close>: first the branch with an
  error that is no exit request, whose result is \<open>canContinue\<close> and \<open>closeRequested\<close>.
\<close>

definition handlerFailed :: "session_config \<Rightarrow> gerr \<Rightarrow> ('a session_scheme, bool \<times> bool) state" where
  "handlerFailed c err = do {
     ((canContinue, filteredErr), response) \<leftarrow> dispatchError (sc_cutoff c) (sc_ctx c) (sc_errorHandler c)
       ErrorScopeSession ErrorOperationHandle (Some err)
       (Some (newErrorResponse (Some (session_respondToError c)))) (Some defaultLogAndFailErrorAction);
     let responseErr = (case response of Some r \<Rightarrow> snd (response_result r) | None \<Rightarrow> None);
     let closeRequested = (case response of Some r \<Rightarrow> response_closeRequested r | None \<Rightarrow> False);
     responseFailureHandled \<leftarrow>
       (case filteredErr of
          None \<Rightarrow> State_Monad.return False
        | Some f \<Rightarrow>
            if only_response f responseErr then do {
              log_response responseErr err;
              closeQuietly_session c;
              State_Monad.return True }
            else do {
              emit (LogEscalate f (Some err) ErrorScopeSession ErrorOperationHandle);
              emit CloseConn;
              State_Monad.return False });
     let canContinue = (canContinue \<and> filteredErr = None);
     (if relevant_response responseErr \<and> \<not> responseFailureHandled then do {
        log_response responseErr err;
        closeQuietly_session c;
        State_Monad.return (False, closeRequested) }
      else State_Monad.return (canContinue, closeRequested)) }"

definition finishHandler :: "session_config \<Rightarrow> gerr option \<Rightarrow> ('a session_scheme, unit) state" where
  "finishHandler c err =
     (case Option.bind err exclusiveSessionExitError of
        Some x \<Rightarrow> do {
          exited \<leftarrow> gets ss_exited;
          only_if (\<not> exited) (do {
            exitErr \<leftarrow> applyExitError c x;
            (case exitErr of
               None \<Rightarrow> State_Monad.return ()
             | Some e \<Rightarrow> session_escalate c ErrorOperationReply e) }) }
      | None \<Rightarrow> do {
          (canContinue, closeRequested) \<leftarrow>
            (case err of None \<Rightarrow> State_Monad.return (True, False) | Some e \<Rightarrow> handlerFailed c e);
          exited \<leftarrow> gets ss_exited;
          (if closeRequested then closeQuietly_session c
           else only_if (\<not> exited) (do {
             exitErr \<leftarrow> session_Exit c (if err \<noteq> None \<and> \<not> canContinue then 1 else 0);
             (case exitErr of
                None \<Rightarrow> State_Monad.return ()
              | Some e \<Rightarrow> session_escalate c ErrorOperationReply e) })) })"

section \<open>Replies and failed callbacks\<close>

definition session_reply :: "session_config \<Rightarrow> gossh_request \<Rightarrow> bool \<Rightarrow> ('a session_scheme, bool) state" where
  "session_reply c req accepted = do {
     err \<leftarrow> perform (Reply (raw_id req) accepted []);
     (case err of
        Some e \<Rightarrow> do {
          session_escalate c ErrorOperationReply e;
          closeSSHConnection (Some (sc_ctx c));
          State_Monad.return False }
      | None \<Rightarrow> State_Monad.return True) }"

text \<open>The branch of \<open>handleCallbackError\<close> in which the negative reply itself fails.\<close>

definition callbackReplyFailed ::
  "session_config \<Rightarrow> gerr \<Rightarrow> gerr option \<Rightarrow> gerr option \<Rightarrow> bool \<Rightarrow> gerr \<Rightarrow> ('a session_scheme, bool) state" where
  "callbackReplyFailed c callbackErr filteredErr responseErr closeRequested err = do {
     session_escalate c ErrorOperationReply (JoinErr [callbackErr, err]);
     responseFailureHandled \<leftarrow>
       (case filteredErr of
          None \<Rightarrow> State_Monad.return False
        | Some f \<Rightarrow>
            if only_response f responseErr then do { log_response responseErr callbackErr; State_Monad.return True }
            else do {
              emit (LogEscalate f (Some callbackErr) ErrorScopeSession ErrorOperationHandle);
              State_Monad.return False });
     only_if (relevant_response responseErr \<and> \<not> responseFailureHandled) (log_response responseErr callbackErr);
     (if closeRequested \<or> filteredErr \<noteq> None \<and> \<not> responseFailureHandled
      then closeSSHConnection (Some (sc_ctx c))
      else closeQuietly_session c);
     State_Monad.return False }"

definition closeConnectionOr :: "session_config \<Rightarrow> bool \<Rightarrow> ('a session_scheme, unit) state" where
  "closeConnectionOr c closeRequested =
     (if closeRequested then closeSSHConnection (Some (sc_ctx c)) else closeQuietly_session c)"

definition handleCallbackError :: "session_config \<Rightarrow> gossh_request \<Rightarrow> gerr \<Rightarrow> ('a session_scheme, bool) state" where
  "handleCallbackError c req callbackErr = do {
     ((canContinue, filteredErr), response) \<leftarrow> dispatchError (sc_cutoff c) (sc_ctx c) (sc_errorHandler c)
       ErrorScopeSession ErrorOperationHandle (Some callbackErr)
       (Some (newErrorResponse (Some (\<lambda>message _. session_respondToError c message False))))
       (Some defaultLogAndFailErrorAction);
     let responseErr = (case response of Some r \<Rightarrow> snd (response_result r) | None \<Rightarrow> None);
     let closeRequested = (case response of Some r \<Rightarrow> response_closeRequested r | None \<Rightarrow> False);
     err \<leftarrow> perform (Reply (raw_id req) False []);
     (case err of
        Some e \<Rightarrow> callbackReplyFailed c callbackErr filteredErr responseErr closeRequested e
      | None \<Rightarrow>
          (case filteredErr of
             Some f \<Rightarrow> do {
               (if only_response f responseErr then do {
                  log_response responseErr callbackErr;
                  closeConnectionOr c closeRequested }
                else do {
                  emit (LogEscalate f (Some callbackErr) ErrorScopeSession ErrorOperationHandle);
                  closeSSHConnection (Some (sc_ctx c)) });
               State_Monad.return False }
           | None \<Rightarrow>
               if relevant_response responseErr then do {
                 log_response responseErr callbackErr;
                 closeConnectionOr c closeRequested;
                 State_Monad.return False }
               else if closeRequested then do {
                 closeSSHConnection (Some (sc_ctx c));
                 State_Monad.return False }
               else if \<not> canContinue then do { closeQuietly_session c; State_Monad.return False }
               else State_Monad.return True)) }"

section \<open>Line ends\<close>

text \<open>The reference: a line feed that does not follow a carriage return gets one.\<close>

fun crlf :: "byte \<Rightarrow> bytes \<Rightarrow> bytes" where
  "crlf prev [] = []"
| "crlf prev (b # p) = (if b = LF \<and> prev \<noteq> CR then CR # LF # crlf LF p else b # crlf b p)"

lemma replace_lf_first: "replace_lf p = b # q \<Longrightarrow> b \<noteq> LF"
  by (cases p) (auto split: if_splits)

lemma replace_crcrlf_other: "b \<noteq> CR \<Longrightarrow> replace_crcrlf (b # p) = b # replace_crcrlf p"
  by (cases p rule: replace_crcrlf.cases) (auto elim: replace_crcrlf.elims)

lemma replace_crcrlf_cr: "(case p of d # _ \<Rightarrow> d \<noteq> LF | [] \<Rightarrow> True) \<Longrightarrow>
  replace_crcrlf (CR # CR # p) = CR # replace_crcrlf (CR # p)"
  by (cases p) auto

lemma replace_is_crlf:
  "(prev \<noteq> CR \<longrightarrow> replace_crcrlf (replace_lf p) = crlf prev p)
   \<and> replace_crcrlf (CR # replace_lf p) = CR # crlf CR p"
proof (induction p arbitrary: prev)
  case Nil
  then show ?case by simp
next
  case (Cons b p)
  have first: "case replace_lf p of d # _ \<Rightarrow> d \<noteq> LF | [] \<Rightarrow> True"
    using replace_lf_first by (auto split: list.splits)
  consider "b = LF" | "b = CR" | "b \<noteq> LF" "b \<noteq> CR" by blast
  then show ?case
  proof cases
    case 1
    have "replace_crcrlf (CR # LF # replace_lf p) = CR # replace_crcrlf (LF # replace_lf p)"
      by (cases "replace_lf p") auto
    then show ?thesis using 1 Cons.IH [of LF] by (auto simp: replace_crcrlf_other)
  next
    case 2
    then show ?thesis using Cons.IH replace_crcrlf_cr [OF first] by auto
  next
    case 3
    have "replace_crcrlf (CR # b # replace_lf p) = CR # replace_crcrlf (b # replace_lf p)"
      using 3 by (cases "replace_lf p") auto
    then show ?thesis using 3 Cons.IH [of b] by (auto simp: replace_crcrlf_other)
  qed
qed

lemma crlf_no_bare_lf:
  "prev \<noteq> CR \<Longrightarrow> crlf prev (crlf prev p) = crlf prev p" "crlf CR (crlf CR p) = crlf CR p"
proof (induction p arbitrary: prev)
  case (Cons b p)
  {
    case 1
    then show ?case using Cons.IH by (cases "b = CR") auto
  next
    case 2
    then show ?case using Cons.IH by (cases "b = CR") auto
  }
qed auto

text \<open>
  C20. With a PTY \<open>Write\<close> sends its bytes with exactly the line feeds that do not follow a carriage
  return completed to CR LF (doing it twice changes nothing), without a PTY it sends them as
  they are; it never reports more bytes than it was given when a PTY is there.
\<close>

theorem write_normalises_line_ends:
  "case run_state (session_Write c count p) w of ((n, err), w') \<Rightarrow>
     w_trace w' = w_trace w @ [(ChannelWrite (sc_chan c) (if ss_pty w = None then p else crlf 0 p), err)]
     \<and> (if ss_pty w = None then n = count p else n = min (length p) (count (crlf 0 p)))
     \<and> crlf 0 (crlf 0 p) = crlf 0 p"
  using replace_is_crlf [of 0 p] crlf_no_bare_lf(1) [of 0 p]
  by (cases "ss_pty w") (auto simp: session_Write_def Let_def)

section \<open>Exit requests\<close>

fun is_exit_leaf :: "gerr \<Rightarrow> (int \<times> string) option" where
  "is_exit_leaf (SessionExit x) = x"
| "is_exit_leaf (AsExit n x) = x"
| "is_exit_leaf e = None"

definition single_exit :: "gerr list \<Rightarrow> (int \<times> string) option" where
  "single_exit ls = (case ls of [l] \<Rightarrow> is_exit_leaf l | _ \<Rightarrow> None)"

lemma single_exit_append: "xs \<noteq> [] \<Longrightarrow> ys \<noteq> [] \<Longrightarrow> single_exit (xs @ ys) = None"
  by (cases xs; cases "tl xs"; cases ys) (auto simp: single_exit_def)

lemma concat_leaves_Nil: "concat (map gerr_leaves es) = [] \<longleftrightarrow> es = []"
  using gerr_leaves_not_Nil by (cases es) auto

lemma exclusive_leaves:
  "exclusiveSessionExitError e = single_exit (gerr_leaves e)"
  "exclusive_children r es = (case r of
     None \<Rightarrow> (if es = [] then None else single_exit (concat (map gerr_leaves es)))
   | Some x \<Rightarrow> (if es = [] then Some x else None))"
proof (induction e and r es rule: exclusiveSessionExitError_exclusive_children.induct)
  fix result :: "(int \<times> string) option" and child children
  assume 1: "exclusiveSessionExitError child = single_exit (gerr_leaves child)"
    and 2: "\<And>x. exclusiveSessionExitError child = Some x \<Longrightarrow> \<not> result \<noteq> None \<Longrightarrow>
      exclusive_children (Some x) children = (case Some x of None \<Rightarrow> if children = [] then None else single_exit (concat (map gerr_leaves children))
        | Some x \<Rightarrow> if children = [] then Some x else None)"
  show "exclusive_children result (child # children) = (case result of
     None \<Rightarrow> (if child # children = [] then None else single_exit (concat (map gerr_leaves (child # children))))
   | Some x \<Rightarrow> (if child # children = [] then Some x else None))"
  proof (cases "children = []")
    case True
    then show ?thesis using 1 2 by (auto split: option.splits)
  next
    case False
    then have "single_exit (gerr_leaves child @ concat (map gerr_leaves children)) = None"
      by (intro single_exit_append gerr_leaves_not_Nil) (use False concat_leaves_Nil in blast)
    then show ?thesis using False 1 2 by (auto split: option.splits)
  qed
qed (auto simp: single_exit_def split: option.splits)

text \<open>
  A handler's error is an exit request exactly when the tree of wrapped and joined errors has a
  single end and that end is a session exit with its code and message; any other error
  joined to it makes it an ordinary error.
\<close>

theorem exclusive_exit_exact:
  "exclusiveSessionExitError e = Some x \<longleftrightarrow> (\<exists>l. gerr_leaves e = [l] \<and> is_exit_leaf l = Some x)"
  unfolding exclusive_leaves(1) by (auto simp: single_exit_def split: list.splits)

end
