(* ===== verification/SessionContracts.thy ===== *)
theory SessionContracts
  imports Session
begin

text \<open>
  What the error paths of a session promise to an invariant. They log, close, ask for the cause
  of the context and write to the error stream of the channel; an invariant that these effects
  keep is kept by all of them, whatever the user's error handler does. \<open>session_answer\<close> adds
  the reply to a request, which may take one invariant to another.
\<close>

fun squiet :: "effect \<Rightarrow> bool" where
  "squiet (StderrWrite _ _) = True"
| "squiet (ChannelClose _) = True"
| "squiet e = quiet e"

lemma quiet_squiet: "quiet e \<Longrightarrow> squiet e"
  by (cases e) auto

locale session_invariant =
  fixes I :: "'a session_scheme \<Rightarrow> bool"
  assumes squiet_keeps: "I w \<Longrightarrow> squiet e \<Longrightarrow> I (snd (run_state (perform e) w))"

sublocale session_invariant \<subseteq> session_quiet: quiet_invariant I
  by unfold_locales (rule squiet_keeps [OF _ quiet_squiet])

context session_invariant
begin

lemma s_perform: "squiet e \<Longrightarrow> keeps I (perform e)"
  unfolding keeps_def using squiet_keeps by blast

lemma s_emit: "squiet e \<Longrightarrow> keeps I (emit e)"
  by (rule keeps_emit) (rule s_perform)

lemma s_Close: "keeps I (session_Close c)"
  unfolding session_Close_def by (intro keeps_intros s_perform) simp

lemma s_closeQuietly: "keeps I (closeQuietly_session c)"
  unfolding closeQuietly_session_def by (intro keeps_intros s_Close)

lemma s_closeSSH: "keeps I (closeSSHConnection ctx)"
  by (rule session_quiet.q_close)

lemma s_respondWithin: "keeps I (respondToErrorWithin c message close)"
  unfolding respondToErrorWithin_def
  by (intro keeps_intros s_emit)
    (auto split: write_outcome.splits intro!: keeps_intros s_perform s_emit s_closeSSH)

lemma s_respond: "keeps I (session_respondToError c message close)"
  unfolding session_respondToError_def by (rule s_respondWithin)

lemma s_escalate: "keeps I (session_escalate c operation err)"
  unfolding session_escalate_def by (intro keeps_intros session_quiet.q_escalate) simp

lemma s_log: "keeps I (log_response responseErr err)"
  unfolding log_response_def by (intro keeps_intros s_emit) simp

lemma s_closeConnectionOr: "keeps I (closeConnectionOr c closeRequested)"
  unfolding closeConnectionOr_def by (intro keeps_intros s_closeSSH s_closeQuietly)

lemma s_dispatch:
  assumes "\<And>m c. keeps I (respond m c)"
  shows "keeps I (dispatchError cutoff ctx handler scope operation err (Some (newErrorResponse (Some respond)))
    (Some defaultLogAndFailErrorAction))"
proof -
  have "dispatch_invariant I respond defaultLogAndFailErrorAction"
    by (rule session_quiet.standard_dispatch_invariant) (use assms in \<open>auto simp: keeps_def\<close>)
  then show ?thesis by (rule dispatch_invariant.d_dispatch) (simp add: newErrorResponse_def)
qed

lemma s_callbackReplyFailed: "keeps I (callbackReplyFailed c callbackErr filteredErr responseErr closeRequested err)"
  unfolding callbackReplyFailed_def
  by (intro keeps_intros s_escalate s_log s_closeSSH s_closeQuietly s_emit) simp_all

lemma s_handlerFailed: "keeps I (handlerFailed c err)"
  unfolding handlerFailed_def
  by (intro keeps_intros s_dispatch s_respond s_log s_closeQuietly s_emit) simp_all

lemma s_applyExitError:
  assumes "\<And>code. keeps I (session_Exit c code)"
  shows "keeps I (applyExitError c x)"
  unfolding applyExitError_def by (intro keeps_intros s_respond assms)

lemma s_finishHandler:
  assumes "\<And>code. keeps I (session_Exit c code)"
  shows "keeps I (finishHandler c err)"
  unfolding finishHandler_def
  by (intro keeps_intros s_applyExitError s_escalate s_handlerFailed s_closeQuietly assms)

end

section \<open>Answering a request\<close>

locale session_answer = before: session_invariant I + after: session_invariant J
  for I J :: "'a session_scheme \<Rightarrow> bool" +
  fixes rid :: nat
  assumes reply_step: "I w \<Longrightarrow> J (snd (run_state (perform (Reply rid ok [])) w))"
begin

lemma a_reply: "valid I (perform (Reply rid ok [])) (\<lambda>_. J)"
  unfolding valid_def using reply_step by (simp split: prod.splits)

lemma a_session_reply:
  assumes "raw_id req = rid"
  shows "valid I (session_reply c req ok) (\<lambda>_. J)"
  unfolding session_reply_def assms
  by (intro valid_bind [OF a_reply] keeps_valid keeps_intros after.s_escalate after.s_closeSSH)

lemma a_callbackDone:
  "keeps J (case filteredErr of
     Some f \<Rightarrow> do {
       (if only_response f responseErr then do { log_response responseErr callbackErr; closeConnectionOr c close }
        else do {
          emit (LogEscalate f (Some callbackErr) ErrorScopeSession ErrorOperationHandle);
          closeSSHConnection (Some (sc_ctx c)) });
       State_Monad.return False }
   | None \<Rightarrow>
       if relevant_response responseErr then do {
         log_response responseErr callbackErr; closeConnectionOr c close; State_Monad.return False }
       else if close then do { closeSSHConnection (Some (sc_ctx c)); State_Monad.return False }
       else if \<not> canContinue then do { closeQuietly_session c; State_Monad.return False }
       else State_Monad.return True)"
  by (intro keeps_intros after.s_log after.s_closeConnectionOr after.s_emit after.s_closeSSH after.s_closeQuietly) simp_all

lemma a_callbackError:
  assumes "raw_id req = rid"
  shows "valid I (handleCallbackError c req callbackErr) (\<lambda>_. J)"
  unfolding handleCallbackError_def assms
  by (intro valid_bind [OF keeps_valid [OF before.s_dispatch]] valid_prod2 valid_prod valid_Let
      valid_bind [OF a_reply] keeps_valid keeps_option [OF a_callbackDone after.s_callbackReplyFailed] before.s_respond)

end

end
