(* ===== verification/SessionRequests.thy ===== *)
theory SessionRequests
  imports SessionContracts Config
begin

text \<open>
  The request loop of a session channel (\<open>handleRequests\<close> and \<open>waitDeferredSubsystem\<close> of
  \<open>session.go\<close>) together with what runs beside it: the goroutine of the user's handler, the
  request timer and the timer of a deferred subsystem reply. An execution is a sequence of
  events; every event is one iteration of the loop, one wake-up of the select in
  \<open>waitDeferredSubsystem\<close>, one call of a session method by the handler, or the end of the handler.
\<close>

section \<open>Answers\<close>

text \<open>
  Where the loop stands: it reads requests, it waits for the decision on a deferred subsystem
  request (with the later request it has read meanwhile), or it has returned.
\<close>

datatype loop_mode = Serving | Deciding gossh_request "gossh_request option" | Ended

definition endLoop :: "('a session_scheme, loop_mode) state" where
  "endLoop = do {
     modify (\<lambda>w. w\<lparr>ss_winchClosed := (ss_pty w \<noteq> None)\<rparr>);
     State_Monad.return Ended }"

definition answer :: "gossh_request \<Rightarrow> bool \<Rightarrow> ('a session_scheme, loop_mode) state" where
  "answer req ok = do { emit (Reply (raw_id req) ok []); State_Monad.return Serving }"

text \<open>
  A policy callback: \<open>None\<close> when there is none. An error is reported by \<open>handleCallbackError\<close>; a
  refusal undoes what the request has set so far.
\<close>

definition authorized ::
  "session_config \<Rightarrow> gossh_request \<Rightarrow> (bool \<times> gerr option) option \<Rightarrow> (gerr \<Rightarrow> gerr) \<Rightarrow> ('a session_scheme, unit) state
   \<Rightarrow> ('a session_scheme, loop_mode) state \<Rightarrow> ('a session_scheme, loop_mode) state" where
  "authorized c req decision wrap undo go = (case decision of
     None \<Rightarrow> go
   | Some (allowed, Some err) \<Rightarrow> do {
       undo;
       ok \<leftarrow> handleCallbackError c req (wrap err);
       (if ok then State_Monad.return Serving else endLoop) }
   | Some (allowed, None) \<Rightarrow> if allowed then go else do { undo; answer req False })"

text \<open>The first of the request and the request timer takes the session.\<close>

definition resolveRequest :: "('a session_scheme, bool) state" where
  "resolveRequest = do {
     resolved \<leftarrow> gets ss_requestResolved;
     (if resolved then State_Monad.return False
      else do { modify (\<lambda>w. w\<lparr>ss_requestResolved := True\<rparr>); State_Monad.return True }) }"

definition startHandler :: "('a session_scheme, loop_mode) state" where
  "startHandler = do {
     modify (\<lambda>w. w\<lparr>ss_started := ss_started w + 1\<rparr>);
     State_Monad.return Serving }"

definition acceptAndStart :: "session_config \<Rightarrow> gossh_request \<Rightarrow> ('a session_scheme, loop_mode) state" where
  "acceptAndStart c req = do {
     ok \<leftarrow> session_reply c req True;
     (if ok then startHandler else endLoop) }"

definition claim :: "('a session_scheme, loop_mode) state \<Rightarrow> ('a session_scheme, loop_mode) state" where
  "claim go = do {
     won \<leftarrow> resolveRequest;
     (if \<not> won then endLoop
      else do { modify (\<lambda>w. w\<lparr>ss_handled := True\<rparr>); go }) }"

section \<open>Deferred subsystems\<close>

text \<open>\<open>deferredSubsystemResponse.reply\<close>; the write timer closes the connection while the reply is stuck.\<close>

definition deferred_reply :: "session_config \<Rightarrow> gossh_request \<Rightarrow> bool \<Rightarrow> ('a session_scheme, gerr option) state" where
  "deferred_reply c req accepted = do {
     answered \<leftarrow> gets ss_dr_answered;
     (if answered then State_Monad.return (Some (Var ErrSubsystemResponseAlreadySent))
      else do {
        ctxErr \<leftarrow> perform CtxCause;
        (if ctxErr \<noteq> None then do {
           modify (\<lambda>w. w\<lparr>ss_dr_answered := True, ss_deferredState := 2\<rparr>);
           State_Monad.return (Some (Var ErrSubsystemResponseAlreadySent)) }
         else do {
           modify (\<lambda>w. w\<lparr>ss_dr_answered := True, ss_dr_accepted := accepted\<rparr>);
           only_if (\<not> accepted) (modify (\<lambda>w. w\<lparr>ss_deferredState := 2\<rparr>));
           tr \<leftarrow> gets w_trace;
           only_if (sc_replyStalls c tr) (closeSSHConnection (Some (sc_ctx c)));
           err \<leftarrow> perform (Reply (raw_id req) accepted []);
           modify (\<lambda>w. w\<lparr>ss_dr_err := err\<rparr>);
           (if err \<noteq> None then do {
              modify (\<lambda>w. w\<lparr>ss_deferredState := 2\<rparr>);
              closeSSHConnection (Some (sc_ctx c)) }
            else only_if accepted (modify (\<lambda>w. w\<lparr>ss_deferredState := 0\<rparr>)));
           State_Monad.return err }) }) }"

definition deferred_abandon :: "('a session_scheme, unit) state" where
  "deferred_abandon = do {
     answered \<leftarrow> gets ss_dr_answered;
     only_if (\<not> answered) (modify (\<lambda>w. w\<lparr>ss_dr_answered := True, ss_deferredState := 2\<rparr>)) }"

text \<open>\<open>waitDeferredSubsystem\<close> up to its loop: the handler gets its goroutine and the decision is open.\<close>

definition waitDeferredSubsystem :: "gossh_request \<Rightarrow> ('a session_scheme, loop_mode) state" where
  "waitDeferredSubsystem req = do {
     modify (\<lambda>w. w\<lparr>ss_deferredState := 1, ss_dr_answered := False, ss_dr_accepted := False, ss_dr_err := None\<rparr>);
     State_Monad.return (Deciding req None) }"

section \<open>Requests\<close>

definition handleExecRequest :: "session_config \<Rightarrow> gossh_request \<Rightarrow> ('a session_scheme, loop_mode) state" where
  "handleExecRequest c req = do {
     handled \<leftarrow> gets ss_handled;
     (if handled \<or> \<not> sc_hasHandler c then answer req False
      else
        (case (if raw_type req = ''exec'' then sc_unmarshalValue c (raw_payload req) else Some []) of
           None \<Rightarrow> answer req False
         | Some v \<Rightarrow> do {
             modify (\<lambda>w. w\<lparr>ss_rawCmd := v, ss_subsystem := []\<rparr>);
             tr \<leftarrow> gets w_trace;
             authorized c req (map_option (\<lambda>cb. cb tr (raw_type req)) (sc_sessReqCb c))
               (WrapErr ''authorize %s session request: %w'' [AStr (raw_type req)])
               (modify (\<lambda>w. w\<lparr>ss_rawCmd := []\<rparr>))
               (claim (acceptAndStart c req)) })) }"

definition subsystemHandler :: "session_config \<Rightarrow> string \<Rightarrow> bool \<times> bool" where
  "subsystemHandler c name =
     (if \<not> sc_subsystems c name \<and> \<not> sc_deferredSubsystems c name
      then (sc_subsystems c ''default'', sc_deferredSubsystems c ''default'')
      else (sc_subsystems c name, sc_deferredSubsystems c name))"

definition handleSubsystemRequest :: "session_config \<Rightarrow> gossh_request \<Rightarrow> ('a session_scheme, loop_mode) state" where
  "handleSubsystemRequest c req = do {
     handled \<leftarrow> gets ss_handled;
     (if handled then answer req False
      else
        (case sc_unmarshalValue c (raw_payload req) of
           None \<Rightarrow> answer req False
         | Some v \<Rightarrow> do {
             modify (\<lambda>w. w\<lparr>ss_subsystem := v, ss_rawCmd := []\<rparr>);
             tr \<leftarrow> gets w_trace;
             authorized c req (map_option (\<lambda>cb. cb tr (raw_type req)) (sc_sessReqCb c))
               (WrapErr ''authorize subsystem session request: %w'' [])
               (modify (\<lambda>w. w\<lparr>ss_subsystem := []\<rparr>))
               (let (handler, deferred) = subsystemHandler c v
                in if \<not> handler \<and> \<not> deferred
                   then do { modify (\<lambda>w. w\<lparr>ss_subsystem := []\<rparr>); answer req False }
                   else claim (if deferred then waitDeferredSubsystem req else acceptAndStart c req)) })) }"

abbreviation maxSessionEnvVariables :: nat where "maxSessionEnvVariables \<equiv> 128"
abbreviation maxSessionEnvBytes :: int where "maxSessionEnvBytes \<equiv> 65536"

definition addEnv :: "gossh_request \<Rightarrow> string \<Rightarrow> string \<Rightarrow> ('a session_scheme, loop_mode) state" where
  "addEnv req k v = do {
     let envBytes = int (length k) + 1 + int (length v);
     full \<leftarrow> gets (\<lambda>w. length (ss_env w) \<ge> maxSessionEnvVariables \<or> ss_envBytes w + envBytes > maxSessionEnvBytes);
     (if full then answer req False
      else do {
        modify (\<lambda>w. w\<lparr>ss_env := ss_env w @ [k @ ''='' @ v], ss_envBytes := ss_envBytes w + envBytes\<rparr>);
        answer req True }) }"

definition handleEnvRequest :: "session_config \<Rightarrow> gossh_request \<Rightarrow> ('a session_scheme, loop_mode) state" where
  "handleEnvRequest c req = do {
     handled \<leftarrow> gets ss_handled;
     (if handled then answer req False
      else
        (case sc_unmarshalPair c (raw_payload req) of
           None \<Rightarrow> answer req False
         | Some (k, v) \<Rightarrow> addEnv req k v)) }"

definition handleSignalRequest :: "session_config \<Rightarrow> gossh_request \<Rightarrow> ('a session_scheme, loop_mode) state" where
  "handleSignalRequest c req =
     (case sc_unmarshalValue c (raw_payload req) of
        None \<Rightarrow> answer req False
      | Some signal \<Rightarrow> do {
          tr \<leftarrow> gets w_trace;
          (reply, goOn) \<leftarrow> on_signals (handleSignal (sc_signalSend c tr) signal);
          mode \<leftarrow> answer req reply;
          (if goOn then State_Monad.return mode else endLoop) })"

definition handlePtyRequest :: "session_config \<Rightarrow> gossh_request \<Rightarrow> ('a session_scheme, loop_mode) state" where
  "handlePtyRequest c req = do {
     refused \<leftarrow> gets (\<lambda>w. ss_handled w \<or> ss_pty w \<noteq> None);
     (if refused then answer req False
      else
        (case parsePtyRequest (sc_intBits c) (raw_payload req) of
           None \<Rightarrow> answer req False
         | Some pty \<Rightarrow> do {
             tr \<leftarrow> gets w_trace;
             authorized c req (map_option (\<lambda>cb. cb tr pty) (sc_ptyCb c))
               (WrapErr ''authorize PTY request: %w'' []) (State_Monad.return ())
               (do {
                  modify (\<lambda>w. w\<lparr>ss_pty := Some pty, ss_winch := Some (PtyWindow pty)\<rparr>);
                  answer req True }) })) }"

definition mergeWindow :: "Window \<Rightarrow> Window \<Rightarrow> Window" where
  "mergeWindow current update =
     (let c1 = (if Width update \<noteq> 0 then current\<lparr>Width := Width update\<rparr> else current);
          c2 = (if Height update \<noteq> 0 then c1\<lparr>Height := Height update\<rparr> else c1);
          c3 = (if WidthPixels update \<noteq> 0 then c2\<lparr>WidthPixels := WidthPixels update\<rparr> else c2)
      in if HeightPixels update \<noteq> 0 then c3\<lparr>HeightPixels := HeightPixels update\<rparr> else c3)"

text \<open>
  A send on a channel of capacity one that does not wait, and the three selects of the code: send,
  or discard the value that is there and send.
\<close>

definition winch_offer :: "Window \<Rightarrow> Window option \<Rightarrow> bool \<times> Window option" where
  "winch_offer win buffered = (case buffered of None \<Rightarrow> (True, Some win) | Some old \<Rightarrow> (False, Some old))"

definition winch_send :: "Window \<Rightarrow> Window option \<Rightarrow> Window option" where
  "winch_send win buffered =
     (case winch_offer win buffered of
        (True, sent) \<Rightarrow> sent
      | (False, _) \<Rightarrow> snd (winch_offer win None))"

definition handleWindowChange :: "session_config \<Rightarrow> gossh_request \<Rightarrow> ('a session_scheme, loop_mode) state" where
  "handleWindowChange c req = do {
     pty \<leftarrow> gets ss_pty;
     (case pty of
        None \<Rightarrow> answer req False
      | Some p \<Rightarrow>
          (case parseWinchRequest (sc_intBits c) (raw_payload req) of
             None \<Rightarrow> answer req False
           | Some win \<Rightarrow> do {
               let win = mergeWindow (PtyWindow p) win;
               modify (\<lambda>w. w\<lparr>ss_pty := Some (p\<lparr>PtyWindow := win\<rparr>), ss_winch := winch_send win (ss_winch w)\<rparr>);
               answer req True })) }"

definition handleAgentRequest :: "session_config \<Rightarrow> gossh_request \<Rightarrow> ('a session_scheme, loop_mode) state" where
  "handleAgentRequest c req =
     (case sc_agentForwardingCb c of
        None \<Rightarrow> answer req False
      | Some cb \<Rightarrow> do {
          tr \<leftarrow> gets w_trace;
          authorized c req (Some (cb tr)) (WrapErr ''authorize agent forwarding: %w'' []) (State_Monad.return ())
            (do {
               modify (\<lambda>w. w\<lparr>ss_agentRequested := True\<rparr>);
               ok \<leftarrow> session_reply c req True;
               (if ok then State_Monad.return Serving else endLoop) }) })"

definition handleBreakRequest :: "session_config \<Rightarrow> gossh_request \<Rightarrow> ('a session_scheme, loop_mode) state" where
  "handleBreakRequest c req = do {
     tr \<leftarrow> gets w_trace;
     delivered \<leftarrow> on_signals (deliverBreak (sc_breakSend c tr));
     answer req delivered }"

definition session_request :: "session_config \<Rightarrow> gossh_request \<Rightarrow> ('a session_scheme, loop_mode) state" where
  "session_request c req =
     (if raw_type req \<in> {''shell'', ''exec''} then handleExecRequest c req
      else if raw_type req = ''subsystem'' then handleSubsystemRequest c req
      else if raw_type req = ''env'' then handleEnvRequest c req
      else if raw_type req = ''signal'' then handleSignalRequest c req
      else if raw_type req = ''pty-req'' then handlePtyRequest c req
      else if raw_type req = ''window-change'' then handleWindowChange c req
      else if raw_type req = ''auth-agent-req@openssh.com'' then handleAgentRequest c req
      else if raw_type req = ''break'' then handleBreakRequest c req
      else answer req False)"

section \<open>Events\<close>

text \<open>
  After every wake-up of \<open>waitDeferredSubsystem\<close>: it goes on waiting, rejects, or starts the
  handler and goes back to the loop, which takes the later request first. \<open>returned\<close> is the
  error with which the handler returned, reported when the request was not accepted.
\<close>

definition checkDecision ::
  "session_config \<Rightarrow> gossh_request \<Rightarrow> gossh_request option \<Rightarrow> gerr option \<Rightarrow> ('a session_scheme, loop_mode) state" where
  "checkDecision c req next returned = do {
     (answered, accepted, err) \<leftarrow> gets (\<lambda>w. (ss_dr_answered w, ss_dr_accepted w, ss_dr_err w));
     (if \<not> answered then State_Monad.return (Deciding req next)
      else if \<not> accepted \<or> err \<noteq> None then do {
        emit (ChannelClose (sc_chan c));
        (case returned of
           Some e \<Rightarrow> only_if (\<not> accepted) (session_escalate c ErrorOperationHandle e)
         | None \<Rightarrow> State_Monad.return ());
        endLoop }
      else do {
        mode \<leftarrow> startHandler;
        (case next of None \<Rightarrow> State_Monad.return mode | Some later \<Rightarrow> session_request c later) }) }"

text \<open>What the user's handler does with the session, and the goroutine that drains signals for it.\<close>

datatype handler_call =
    CallWrite bytes nat
  | CallExit int
  | CallClose
  | CallSignals "nat option"
  | CallBreak "nat option"
  | CallReadWinch
  | DrainTake
  | DrainSend send_outcome

fun session_call :: "session_config \<Rightarrow> handler_call \<Rightarrow> ('a session_scheme, unit) state" where
  "session_call c (CallWrite p n) = do { _ \<leftarrow> session_Write c (\<lambda>_. n) p; State_Monad.return () }"
| "session_call c (CallExit code) = do { _ \<leftarrow> session_Exit c code; State_Monad.return () }"
| "session_call c CallClose = closeQuietly_session c"
| "session_call c (CallSignals ch) = on_signals (\<lambda>s. ((), if sg_exiting s then s else Signals ch (stop_drain s)))"
| "session_call c (CallBreak ch) = on_signals (\<lambda>s. ((), Break ch s))"
| "session_call c CallReadWinch = modify (\<lambda>w. w\<lparr>ss_winch := None\<rparr>)"
| "session_call c DrainTake = on_signals (\<lambda>s. ((), drain_take s))"
| "session_call c (DrainSend outcome) = on_signals (\<lambda>s. ((), drain_send outcome s))"

datatype session_event =
    InRequest gossh_request
  | RequestsClosed
  | RequestTimeout
  | ReplyDecision bool
  | DecisionSeen
  | HandlerReturned "gerr option"
  | ReplyTimeout
  | SessionContextDone
  | HandlerCall handler_call
  | HandlerEnded "gerr option"

definition requestTimeout :: "session_config \<Rightarrow> ('a session_scheme, unit) state" where
  "requestTimeout c = do {
     won \<leftarrow> resolveRequest;
     only_if won (closeQuietly_session c) }"

definition handlerEnded :: "session_config \<Rightarrow> gerr option \<Rightarrow> ('a session_scheme, unit) state" where
  "handlerEnded c err = do {
     running \<leftarrow> gets (\<lambda>w. ss_started w > 0 \<and> \<not> ss_finished w);
     only_if running (do { finishHandler c err; modify (\<lambda>w. w\<lparr>ss_finished := True\<rparr>) }) }"

definition deciding_event ::
  "session_config \<Rightarrow> gossh_request \<Rightarrow> gossh_request option \<Rightarrow> session_event \<Rightarrow> ('a session_scheme, loop_mode) state" where
  "deciding_event c req next ev = (case ev of
     InRequest later \<Rightarrow> checkDecision c req (Some later) None
   | RequestsClosed \<Rightarrow> do { deferred_abandon; checkDecision c req next None }
   | ReplyDecision accepted \<Rightarrow> do { _ \<leftarrow> deferred_reply c req accepted; State_Monad.return (Deciding req next) }
   | DecisionSeen \<Rightarrow> checkDecision c req next None
   | HandlerReturned err \<Rightarrow> do { _ \<leftarrow> deferred_reply c req False; checkDecision c req next err }
   | ReplyTimeout \<Rightarrow> do { _ \<leftarrow> deferred_reply c req False; checkDecision c req next None }
   | SessionContextDone \<Rightarrow> do { deferred_abandon; checkDecision c req next None }
   | _ \<Rightarrow> State_Monad.return (Deciding req next))"

text \<open>
  An event that does not apply where the loop stands changes nothing; the request timer is
  stopped when the loop returns.
\<close>

definition session_event :: "session_config \<Rightarrow> loop_mode \<Rightarrow> session_event \<Rightarrow> ('a session_scheme, loop_mode) state" where
  "session_event c mode ev = (case ev of
     HandlerCall call \<Rightarrow> do { session_call c call; State_Monad.return mode }
   | HandlerEnded err \<Rightarrow> do { handlerEnded c err; State_Monad.return mode }
   | RequestTimeout \<Rightarrow> do {
       only_if (mode \<noteq> Ended \<and> sc_requestTimeout c > 0) (requestTimeout c);
       State_Monad.return mode }
   | _ \<Rightarrow>
       (case mode of
          Ended \<Rightarrow> State_Monad.return Ended
        | Deciding req next \<Rightarrow> deciding_event c req next ev
        | Serving \<Rightarrow>
            (case ev of
               InRequest req \<Rightarrow> session_request c req
             | RequestsClosed \<Rightarrow> endLoop
             | _ \<Rightarrow> State_Monad.return Serving)))"

primrec session_events :: "session_config \<Rightarrow> loop_mode \<Rightarrow> session_event list \<Rightarrow> ('a session_scheme, loop_mode) state" where
  "session_events c mode [] = State_Monad.return mode"
| "session_events c mode (ev # evs) = do { mode' \<leftarrow> session_event c mode ev; session_events c mode' evs }"

text \<open>
  \<open>DefaultSessionHandler\<close>: accept the channel, make the session, run its loop. \<open>subsystemReplyTimeout\<close>
  is the configured time for the decision on a deferred subsystem.
\<close>

definition subsystemReplyTimeout :: "int option \<Rightarrow> int" where
  "subsystemReplyTimeout configured =
     (case configured of Some d \<Rightarrow> if d > 0 then d else DefaultSubsystemReplyTimeout | None \<Rightarrow> DefaultSubsystemReplyTimeout)"

definition newSession :: "('a session_scheme, unit) state" where
  "newSession = modify (\<lambda>w. w\<lparr>ss_handled := False, ss_exited := False, ss_pty := None, ss_winch := None,
     ss_winchClosed := False, ss_env := [], ss_envBytes := 0, ss_rawCmd := [], ss_subsystem := [],
     ss_signals := no_signals, ss_requestResolved := False, ss_started := 0, ss_finished := False,
     ss_agentRequested := False, ss_deferredState := 0, ss_dr_answered := False, ss_dr_accepted := False,
     ss_dr_err := None\<rparr>)"

definition DefaultSessionHandler ::
  "session_config \<Rightarrow> session_event list \<Rightarrow> ('a session_scheme, gerr option \<times> loop_mode option) state" where
  "DefaultSessionHandler c evs = do {
     err \<leftarrow> perform (AcceptChannel (sc_chan c));
     (case err of
        Some e \<Rightarrow> State_Monad.return (Some (locateError ErrorScopeChannel ErrorOperationAccept e), None)
      | None \<Rightarrow> do {
          newSession;
          mode \<leftarrow> session_events c Serving evs;
          State_Monad.return (None, Some mode) }) }"

text \<open>
  Whether \<open>DefaultSessionHandler\<close> returns, and gives the session's slot back, or waits: for the handler it has started
  (\<open>handlerDone\<close>), or for the goroutine of a deferred subsystem that was not accepted (\<open>deferredDone\<close>, set exactly when
  the deferred state is not 0 then), unless the connection ends.
\<close>

definition session_returns :: "bool \<Rightarrow> bool \<Rightarrow> loop_mode \<Rightarrow> 'a session_scheme \<Rightarrow> bool" where
  "session_returns deferredEnded ctxDone mode w \<longleftrightarrow> mode = Ended
     \<and> (if ss_started w > 0 then ss_finished w
        else if ss_deferredState w \<noteq> 0 then deferredEnded \<or> ctxDone
        else True)"

section \<open>Invariants of the loop\<close>

text \<open>
  The contract of an invariant of the loop and its surroundings: it may depend on the requests
  read so far, on the mode and on the state. The steps of the decision on a deferred
  subsystem are listed one by one.
\<close>

fun request_ids :: "session_event \<Rightarrow> nat list" where
  "request_ids (InRequest req) = [raw_id req]"
| "request_ids _ = []"

locale loop_invariant =
  fixes c :: session_config
    and K :: "nat list \<Rightarrow> loop_mode \<Rightarrow> 'a session_scheme \<Rightarrow> bool"
  assumes call_keeps: "keeps (K ids mode) (session_call c call)"
    and ended_keeps: "keeps (K ids mode) (handlerEnded c err)"
    and timeout_keeps: "keeps (K ids mode) (requestTimeout c)"
    and request_step: "K ids Serving w \<Longrightarrow> run_state (session_request c req) w = (mode, w') \<Longrightarrow> K (ids @ [raw_id req]) mode w'"
    and close_step: "K ids Serving w \<Longrightarrow> run_state endLoop w = (mode, w') \<Longrightarrow> K ids mode w'"
    and reply_keeps: "K ids (Deciding req next) w \<Longrightarrow> run_state (deferred_reply c req accepted) w = (x, w') \<Longrightarrow> K ids (Deciding req next) w'"
    and abandon_keeps: "K ids (Deciding req next) w \<Longrightarrow> run_state deferred_abandon w = (y, w') \<Longrightarrow> K ids (Deciding req next) w'"
    and later_step: "K ids (Deciding req next) w \<Longrightarrow> K (ids @ [raw_id later]) (Deciding req (Some later)) w"
    and check_step: "K ids (Deciding req next) w \<Longrightarrow> run_state (checkDecision c req next returned) w = (mode, w') \<Longrightarrow> K ids mode w'"
    and over_step: "K ids Ended w \<Longrightarrow> K (ids @ [i]) Ended w"
begin

lemma refused_step:
  assumes "K ids (Deciding req next) w"
    "run_state (do { _ \<leftarrow> deferred_reply c req False; checkDecision c req next err }) w = (mode, w')"
  shows "K ids mode w'"
proof -
  obtain x w1 where "run_state (deferred_reply c req False) w = (x, w1)" by fastforce
  with assms check_step [of ids req "next" w1 err mode w'] reply_keeps [OF assms(1)] show ?thesis by simp
qed

lemma abandoned_step:
  assumes "K ids (Deciding req next) w"
    "run_state (do { deferred_abandon; checkDecision c req next err }) w = (mode, w')"
  shows "K ids mode w'"
proof -
  obtain x w1 where "run_state deferred_abandon w = (x, w1)" by (metis surj_pair)
  with assms check_step [of ids req "next" w1 err mode w'] abandon_keeps [OF assms(1)] show ?thesis by simp
qed

lemma deciding_step:
  assumes "K ids (Deciding req next) w" "run_state (deciding_event c req next ev) w = (mode, w')"
  shows "K (ids @ request_ids ev) mode w'"
proof (cases ev)
  case (InRequest later)
  then show ?thesis using check_step [OF later_step [OF assms(1)]] assms(2) by (simp add: deciding_event_def)
next
  case DecisionSeen
  then show ?thesis using check_step [OF assms(1)] assms(2) by (simp add: deciding_event_def)
next
  case RequestsClosed
  then show ?thesis using abandoned_step [OF assms(1)] assms(2) by (simp add: deciding_event_def)
next
  case SessionContextDone
  then show ?thesis using abandoned_step [OF assms(1)] assms(2) by (simp add: deciding_event_def)
next
  case (ReplyDecision accepted)
  then show ?thesis using reply_keeps [OF assms(1)] assms(2) by (auto simp: deciding_event_def split: prod.splits)
next
  case (HandlerReturned err)
  then show ?thesis using refused_step [OF assms(1)] assms(2) by (simp add: deciding_event_def)
next
  case ReplyTimeout
  then show ?thesis using refused_step [OF assms(1)] assms(2) by (simp add: deciding_event_def)
qed (use assms in \<open>simp_all add: deciding_event_def\<close>)

lemma beside_step:
  assumes "K ids mode w" "run_state (session_event c mode ev) w = (mode', w')"
    and "ev = HandlerCall call \<or> ev = HandlerEnded err \<or> ev = RequestTimeout"
  shows "K (ids @ request_ids ev) mode' w'"
  using assms
  by (auto simp: session_event_def split: prod.splits if_splits
      dest: keepsD [OF call_keeps] keepsD [OF ended_keeps] keepsD [OF timeout_keeps])

lemma event_step:
  assumes "K ids mode w" "run_state (session_event c mode ev) w = (mode', w')"
  shows "K (ids @ request_ids ev) mode' w'"
proof (cases "\<exists>call err. ev = HandlerCall call \<or> ev = HandlerEnded err \<or> ev = RequestTimeout")
  case True
  then show ?thesis using beside_step [OF assms] by blast
next
  case other: False
  show ?thesis
  proof (cases mode)
    case Serving
    show ?thesis using assms other request_step [of ids w] close_step [of ids w]
      by (cases ev) (auto simp: session_event_def Serving)
  next
    case (Deciding req "next")
    then have "run_state (deciding_event c req next ev) w = (mode', w')"
      using other assms(2) by (cases ev) (auto simp: session_event_def)
    then show ?thesis using deciding_step assms(1) Deciding by blast
  next
    case Ended
    then show ?thesis using other over_step assms by (cases ev) (auto simp: session_event_def)
  qed
qed

lemma events_step:
  "K ids mode w \<Longrightarrow> run_state (session_events c mode evs) w = (mode', w') \<Longrightarrow>
   K (ids @ concat (map request_ids evs)) mode' w'"
proof (induction evs arbitrary: ids mode w)
  case (Cons ev evs)
  obtain m1 w1 where 1: "run_state (session_event c mode ev) w = (m1, w1)" by fastforce
  with Cons.prems(2) have "run_state (session_events c m1 evs) w1 = (mode', w')" by simp
  from Cons.IH [OF event_step [OF Cons.prems(1) 1] this] show ?case by simp
qed simp

end

section \<open>Replies\<close>

text \<open>The requests that have been replied to since the trace was \<open>tr\<close>.\<close>

fun reply_id :: "effect \<Rightarrow> nat list" where
  "reply_id (Reply i _ _) = [i]"
| "reply_id _ = []"

definition replied :: "event list \<Rightarrow> nat list \<Rightarrow> 'a world_scheme \<Rightarrow> bool" where
  "replied tr rs w \<longleftrightarrow> (\<exists>new. w_trace w = tr @ new \<and> concat (map (reply_id \<circ> fst) new) = rs)"

lemma replied_perform: "replied tr rs w \<Longrightarrow> replied tr (rs @ reply_id e) (snd (run_state (perform e) w))"
  by (auto simp: replied_def)

lemma replied_other: "replied tr rs w \<Longrightarrow> reply_id e = [] \<Longrightarrow> replied tr rs (snd (run_state (perform e) w))"
  using replied_perform [of tr rs w e] by simp

lemma keeps_replied_perform: "reply_id e = [] \<Longrightarrow> keeps (replied tr rs) (perform e)"
  unfolding keeps_def using replied_other by blast

lemma keeps_replied_emit: "reply_id e = [] \<Longrightarrow> keeps (replied tr rs) (emit e)"
  by (rule keeps_emit) (rule keeps_replied_perform)

lemma keeps_replied_modify: "(\<And>w. w_trace (f w) = w_trace w) \<Longrightarrow> keeps (replied tr rs) (modify f)"
  by (simp add: keeps_def replied_def)

lemma keeps_replied_signals: "keeps (replied tr rs) (on_signals f)"
  by (simp add: keeps_def replied_def on_signals_def split: prod.splits)

lemma squiet_no_reply: "squiet e \<Longrightarrow> reply_id e = []"
  by (cases e) auto

interpretation replies: session_answer "replied tr rs" "replied tr (rs @ [rid])" rid for tr rs rid
proof
  fix w :: "'a session_scheme" and e
  assume "replied tr rs w" "squiet e"
  then show "replied tr rs (snd (run_state (perform e) w))" by (rule replied_other [OF _ squiet_no_reply])
next
  fix w :: "'a session_scheme" and e
  assume "replied tr (rs @ [rid]) w" "squiet e"
  then show "replied tr (rs @ [rid]) (snd (run_state (perform e) w))" by (rule replied_other [OF _ squiet_no_reply])
next
  fix w :: "'a session_scheme" and ok
  assume "replied tr rs w"
  then show "replied tr (rs @ [rid]) (snd (run_state (perform (Reply rid ok [])) w))"
    using replied_perform [of tr rs w "Reply rid ok []"] by simp
qed

text \<open>What one request leaves behind, by the mode in which the loop goes on.\<close>

definition served :: "session_config \<Rightarrow> event list \<Rightarrow> nat list \<Rightarrow> gossh_request \<Rightarrow> loop_mode \<Rightarrow> 'a session_scheme \<Rightarrow> bool" where
  "served c tr rs req mode w = (case mode of
     Serving \<Rightarrow> replied tr (rs @ [raw_id req]) w
   | Deciding r next \<Rightarrow> r = req \<and> next = None \<and> \<not> ss_dr_answered w \<and> replied tr rs w \<and> (\<exists>n. sc_deferredSubsystems c n)
   | Ended \<Rightarrow> replied tr rs w \<or> replied tr (rs @ [raw_id req]) w)"

lemma keeps_endLoop: "keeps (replied tr rs) endLoop"
  unfolding endLoop_def by (intro keeps_intros keeps_replied_modify) simp

lemma endLoop_mode: "fst (run_state endLoop w) = Ended"
  by (simp add: endLoop_def)

lemma valid_endLoop:
  assumes "\<And>w. P w \<Longrightarrow> replied tr rs w \<or> replied tr (rs @ [raw_id req]) w"
  shows "valid P endLoop (served c tr rs req)"
proof (rule validI)
  fix w x w'
  assume "P w" and run: "run_state endLoop w = (x, w')"
  with assms [OF this(1)] keepsD [OF keeps_endLoop, of _ _ w x w'] endLoop_mode [of w]
  show "served c tr rs req x w'" by (auto simp: served_def)
qed

lemma valid_answer: "valid (replied tr rs) (answer req ok) (served c tr rs req)"
proof (rule validI)
  fix w x w'
  assume "replied tr rs w" "run_state (answer req ok) w = (x, w')"
  with replied_perform [of tr rs w "Reply (raw_id req) ok []"] show "served c tr rs req x w'"
    by (auto simp: answer_def served_def)
qed

lemma valid_ended_or:
  "(\<And>w. P w \<Longrightarrow> replied tr (rs @ [raw_id req]) w) \<Longrightarrow>
   valid P (if ok then State_Monad.return Serving else endLoop) (served c tr rs req)"
  by (cases ok) (auto intro: valid_endLoop valid_pre [OF valid_return] simp: served_def)

lemma valid_authorized:
  assumes "valid (replied tr rs) go (served c tr rs req)" "keeps (replied tr rs) undo"
  shows "valid (replied tr rs) (authorized c req decision wrap undo go) (served c tr rs req)"
proof -
  have "valid (replied tr rs) (do { undo; ok \<leftarrow> handleCallbackError c req e; (if ok then State_Monad.return Serving else endLoop) })
    (served c tr rs req)" for e
    by (rule valid_bind [OF keeps_valid [OF assms(2)]], rule valid_bind [OF replies.a_callbackError [OF refl]])
      (rule valid_ended_or)
  moreover have "valid (replied tr rs) (do { undo; answer req False }) (served c tr rs req)"
    by (rule valid_bind [OF keeps_valid [OF assms(2)]]) (rule valid_answer)
  ultimately show ?thesis using assms(1) unfolding authorized_def
    by (auto split: option.splits)
qed

lemma valid_acceptAndStart: "valid (replied tr rs) (acceptAndStart c req) (served c tr rs req)"
proof -
  have "valid (replied tr (rs @ [raw_id req])) startHandler (served c tr rs req)"
    by (rule validI) (auto simp: startHandler_def served_def replied_def)
  then show ?thesis unfolding acceptAndStart_def
    by (intro valid_bind [OF replies.a_session_reply [OF refl]] valid_if valid_endLoop) auto
qed

lemma keeps_resolveRequest: "keeps (replied tr rs) resolveRequest"
  unfolding resolveRequest_def by (intro keeps_intros keeps_replied_modify) simp

lemma valid_claim:
  assumes "valid (replied tr rs) go (served c tr rs req)"
  shows "valid (replied tr rs) (claim go) (served c tr rs req)"
  unfolding claim_def
  by (intro valid_bind [OF keeps_valid [OF keeps_resolveRequest]] valid_if valid_endLoop
      valid_bind [OF keeps_valid [OF keeps_replied_modify]] assms) auto

lemma valid_waitDeferred:
  "sc_deferredSubsystems c n \<Longrightarrow> valid (replied tr rs) (waitDeferredSubsystem req) (served c tr rs req)"
  by (rule validI) (auto simp: waitDeferredSubsystem_def served_def replied_def)

text \<open>One request of each kind.\<close>

lemmas valid_steps = valid_bind [OF keeps_valid [OF keeps_gets]] valid_bind [OF keeps_valid [OF keeps_replied_modify]]
  valid_bind [OF keeps_valid [OF keeps_replied_signals]] valid_if valid_option valid_prod valid_prod2 valid_Let
  valid_authorized valid_claim valid_answer valid_acceptAndStart keeps_replied_modify keeps_return

lemma valid_exec: "valid (replied tr rs) (handleExecRequest c req) (served c tr rs req)"
  unfolding handleExecRequest_def by (intro valid_steps) simp_all

lemma valid_subsystem: "valid (replied tr rs) (handleSubsystemRequest c req) (served c tr rs req)"
proof -
  have d: "\<exists>n. sc_deferredSubsystems c n" if "subsystemHandler c v = (h, True)" for v h
    using that by (auto simp: subsystemHandler_def split: if_splits)
  have go: "valid (replied tr rs) (let (handler, deferred) = subsystemHandler c v
      in if \<not> handler \<and> \<not> deferred
         then do { modify (\<lambda>w. w\<lparr>ss_subsystem := []\<rparr>); answer req False }
         else claim (if deferred then waitDeferredSubsystem req else acceptAndStart c req)) (served c tr rs req)" for v
    using d [of v] valid_waitDeferred
    by (cases "subsystemHandler c v") (auto simp: Let_def intro!: valid_steps)
  show ?thesis unfolding handleSubsystemRequest_def by (intro valid_steps go) simp_all
qed

lemma valid_env: "valid (replied tr rs) (handleEnvRequest c req) (served c tr rs req)"
  unfolding handleEnvRequest_def addEnv_def by (intro valid_steps) simp_all

lemma valid_signal: "valid (replied tr rs) (handleSignalRequest c req) (served c tr rs req)"
proof -
  have "valid (replied tr rs) (do { mode \<leftarrow> answer req ok; (if goOn then State_Monad.return mode else endLoop) })
    (served c tr rs req)" for ok goOn
    using replied_perform [of tr rs _ "Reply (raw_id req) ok []"]
    by (intro validI) (auto simp: answer_def endLoop_def served_def replied_def split: if_splits)
  then show ?thesis unfolding handleSignalRequest_def by (intro valid_steps) simp_all
qed

lemma valid_pty: "valid (replied tr rs) (handlePtyRequest c req) (served c tr rs req)"
  unfolding handlePtyRequest_def by (intro valid_steps) simp_all

lemma valid_window: "valid (replied tr rs) (handleWindowChange c req) (served c tr rs req)"
  unfolding handleWindowChange_def by (intro valid_steps) simp_all

lemma valid_agent: "valid (replied tr rs) (handleAgentRequest c req) (served c tr rs req)"
  unfolding handleAgentRequest_def
  by (intro valid_steps valid_bind [OF replies.a_session_reply [OF refl]] valid_ended_or) simp_all

lemma valid_break: "valid (replied tr rs) (handleBreakRequest c req) (served c tr rs req)"
  unfolding handleBreakRequest_def by (intro valid_steps)

lemma valid_request: "valid (replied tr rs) (session_request c req) (served c tr rs req)"
  unfolding session_request_def
  by (intro valid_if valid_exec valid_subsystem valid_env valid_signal valid_pty valid_window valid_agent valid_break valid_answer)


text \<open>The handler's calls and its end reply to no request.\<close>

lemma keeps_session_Exit: "keeps (replied tr rs) (session_Exit c code)"
  unfolding session_Exit_def sendExitStatus_def
  by (intro keeps_intros keeps_replied_modify keeps_replied_signals keeps_replied_perform replies.before.s_Close) simp_all

lemma keeps_session_call: "keeps (replied tr rs) (session_call c call)"
  by (cases call)
    (auto intro!: keeps_intros keeps_session_Exit keeps_replied_signals keeps_replied_modify keeps_replied_perform
      replies.before.s_closeQuietly simp: session_Write_def)

lemma keeps_handlerEnded: "keeps (replied tr rs) (handlerEnded c err)"
  unfolding handlerEnded_def
  by (intro keeps_intros replies.before.s_finishHandler keeps_session_Exit keeps_replied_modify) simp

lemma keeps_requestTimeout: "keeps (replied tr rs) (requestTimeout c)"
  unfolding requestTimeout_def by (intro keeps_intros keeps_resolveRequest replies.before.s_closeQuietly)

section \<open>Control state\<close>

text \<open>
  The fields that say where the session stands. The error paths, the calls of the handler and
  the replies leave them alone, so they keep every predicate on them.
\<close>

type_synonym control = "bool \<times> bool \<times> nat \<times> bool \<times> nat \<times> bool \<times> bool \<times> gerr option"

definition control_of :: "'a session_scheme \<Rightarrow> control" where
  "control_of w = (ss_handled w, ss_requestResolved w, ss_started w, ss_finished w, ss_deferredState w,
     ss_dr_answered w, ss_dr_accepted w, ss_dr_err w)"

definition about :: "(control \<Rightarrow> bool) \<Rightarrow> 'a session_scheme \<Rightarrow> bool" where
  "about F w \<longleftrightarrow> F (control_of w)"

lemma about_modify: "(\<And>w. control_of (f w) = control_of w) \<Longrightarrow> keeps (about F) (modify f)"
  by (simp add: keeps_def about_def)

lemma about_signals: "keeps (about F) (on_signals f)"
  by (simp add: keeps_def about_def control_of_def on_signals_def split: prod.splits)

lemma about_perform: "keeps (about F) (perform e)"
  by (simp add: keeps_def about_def control_of_def)

interpretation control: session_answer "about F" "about F" rid for F rid
  by unfold_locales (simp_all add: about_def control_of_def)

lemmas keeps_about = about_modify about_signals about_perform control.before.s_Close control.before.s_closeQuietly

lemma about_Exit: "keeps (about F) (session_Exit c code)"
  unfolding session_Exit_def sendExitStatus_def by (intro keeps_intros keeps_about) (simp add: control_of_def)

lemma about_call: "keeps (about F) (session_call c call)"
  by (cases call) (auto intro!: keeps_intros about_Exit keeps_about simp: session_Write_def control_of_def)

lemma about_finishHandler: "keeps (about F) (finishHandler c err)"
  by (intro control.before.s_finishHandler about_Exit)

lemma control_kept: "(\<And>F. keeps (about F) m) \<Longrightarrow> run_state m w = (x, w') \<Longrightarrow> control_of w' = control_of w"
  using keepsD [of "about (\<lambda>k. k = control_of w)" m w] by (simp add: about_def)

section \<open>Replies over an execution\<close>

text \<open>
  The replies that are still to come: those of the request that waits for its decision and of the
  one read meanwhile.
\<close>

definition open_requests :: "loop_mode \<Rightarrow> 'a session_scheme \<Rightarrow> nat list" where
  "open_requests mode w = (case mode of
     Deciding req next \<Rightarrow> (if ss_dr_answered w then [] else [raw_id req]) @ (case next of None \<Rightarrow> [] | Some l \<Rightarrow> [raw_id l])
   | _ \<Rightarrow> [])"

definition in_order :: "session_config \<Rightarrow> event list \<Rightarrow> nat list \<Rightarrow> loop_mode \<Rightarrow> 'a session_scheme \<Rightarrow> bool" where
  "in_order c tr ids mode w \<longleftrightarrow>
     (\<exists>rs. replied tr rs w \<and> subseq (rs @ open_requests mode w) ids
       \<and> ((\<nexists>n. sc_deferredSubsystems c n) \<longrightarrow> (mode = Serving \<longrightarrow> rs = ids) \<and> mode \<in> {Serving, Ended}))"

lemma subseq_appendD: "subseq (xs @ ys) zs \<Longrightarrow> subseq xs zs"
  by (rule subseq_order.trans [OF prefix_imp_subseq]) auto

lemma served_in_order:
  assumes "served c tr rs req mode w" "subseq (rs @ [raw_id req]) ids" "(\<nexists>n. sc_deferredSubsystems c n) \<Longrightarrow> rs @ [raw_id req] = ids"
  shows "in_order c tr ids mode w"
proof -
  have "subseq rs ids" using assms(2) by (rule subseq_appendD)
  with assms show ?thesis
    by (cases mode) (auto simp: served_def in_order_def open_requests_def)
qed

lemma in_order_request:
  assumes "in_order c tr ids Serving w" "run_state (session_request c req) w = (mode, w')"
  shows "in_order c tr (ids @ [raw_id req]) mode w'"
proof -
  obtain rs where rs: "replied tr rs w" "subseq rs ids" "(\<nexists>n. sc_deferredSubsystems c n) \<Longrightarrow> rs = ids"
    using assms(1) by (auto simp: in_order_def open_requests_def)
  show ?thesis
    by (rule served_in_order [OF validD [OF valid_request rs(1) assms(2)]]) (use rs in \<open>auto intro: list_emb_append_mono\<close>)
qed

lemma in_order_endLoop:
  assumes "replied tr rs w" "subseq rs ids" "run_state endLoop w = (mode, w')"
  shows "in_order c tr ids mode w'"
  using keepsD [OF keeps_endLoop assms(1,3)] endLoop_mode [of w] assms
  by (auto simp: in_order_def open_requests_def)

lemma valid_deferred_reply:
  "valid (\<lambda>w. replied tr rs w \<and> \<not> ss_dr_answered w) (deferred_reply c req accepted)
     (\<lambda>_ w. ss_dr_answered w \<and> (replied tr rs w \<or> replied tr (rs @ [raw_id req]) w))"
  by (rule validI)
    (auto simp: deferred_reply_def closeSSHConnection_def replied_def Let_def split: if_splits)

lemma in_order_reply:
  assumes "in_order c tr ids (Deciding req next) w" "run_state (deferred_reply c req accepted) w = (x, w')"
  shows "in_order c tr ids (Deciding req next) w' \<and> ss_dr_answered w'"
proof (cases "ss_dr_answered w")
  case True
  then show ?thesis using assms by (auto simp: deferred_reply_def)
next
  case False
  obtain rs where rs: "replied tr rs w" "subseq (rs @ raw_id req # (case next of None \<Rightarrow> [] | Some l \<Rightarrow> [raw_id l])) ids"
    "\<exists>n. sc_deferredSubsystems c n"
    using assms(1) False by (auto simp: in_order_def open_requests_def)
  have "subseq (rs @ (case next of None \<Rightarrow> [] | Some l \<Rightarrow> [raw_id l])) (rs @ raw_id req # (case next of None \<Rightarrow> [] | Some l \<Rightarrow> [raw_id l]))"
    by (intro list_emb_append_mono list_emb_Cons) auto
  with rs(2) have drop: "subseq (rs @ (case next of None \<Rightarrow> [] | Some l \<Rightarrow> [raw_id l])) ids"
    using subseq_order.trans by blast
  have "ss_dr_answered w' \<and> (replied tr rs w' \<or> replied tr (rs @ [raw_id req]) w')"
    using validD [OF valid_deferred_reply _ assms(2)] rs(1) False by blast
  then show ?thesis
  proof (elim conjE disjE)
    assume "ss_dr_answered w'" "replied tr rs w'"
    then show ?thesis using rs drop by (auto simp: in_order_def open_requests_def)
  next
    assume a: "ss_dr_answered w'" "replied tr (rs @ [raw_id req]) w'"
    have "in_order c tr ids (Deciding req next) w'"
      unfolding in_order_def using a rs by (intro exI [of _ "rs @ [raw_id req]"]) (auto simp: open_requests_def)
    with a(1) show ?thesis by simp
  qed
qed

lemma in_order_abandon:
  assumes "in_order c tr ids (Deciding req next) w" "run_state deferred_abandon w = (x, w')"
  shows "in_order c tr ids (Deciding req next) w'"
proof -
  obtain rs where rs: "replied tr rs w" "subseq (rs @ open_requests (Deciding req next) w) ids"
    "\<exists>n. sc_deferredSubsystems c n"
    using assms(1) by (auto simp: in_order_def)
  have "subseq (open_requests (Deciding req next) w') (open_requests (Deciding req next) w)"
    using assms(2) by (auto simp: open_requests_def deferred_abandon_def split: if_splits option.splits)
  then have "subseq (rs @ open_requests (Deciding req next) w') ids"
    using rs(2) by (meson subseq_order.trans list_emb_append_mono subseq_order.refl)
  moreover have "replied tr rs w'"
    using assms(2) rs(1) by (auto simp: deferred_abandon_def replied_def split: if_splits)
  ultimately show ?thesis using rs(3) by (auto simp: in_order_def)
qed

lemma in_order_later:
  assumes "in_order c tr ids (Deciding req next) w"
  shows "in_order c tr (ids @ [raw_id later]) (Deciding req (Some later)) w"
proof -
  obtain rs where rs: "replied tr rs w" "subseq (rs @ open_requests (Deciding req next) w) ids"
    "\<exists>n. sc_deferredSubsystems c n"
    using assms by (auto simp: in_order_def)
  have "subseq (rs @ open_requests (Deciding req None) w) ids"
    by (rule subseq_order.trans [OF _ rs(2)]) (auto simp: open_requests_def)
  then have "subseq ((rs @ open_requests (Deciding req None) w) @ [raw_id later]) (ids @ [raw_id later])"
    by (rule list_emb_append_mono) simp
  with rs(1,3) show ?thesis by (auto simp: in_order_def open_requests_def)
qed

lemma in_order_check:
  assumes "in_order c tr ids (Deciding req next) w" "run_state (checkDecision c req next returned) w = (mode, w')"
  shows "in_order c tr ids mode w'"
proof -
  obtain rs where rs: "replied tr rs w" "subseq (rs @ open_requests (Deciding req next) w) ids"
    "\<exists>n. sc_deferredSubsystems c n"
    using assms(1) by (auto simp: in_order_def)
  have prefix: "subseq rs ids" using rs(2) by (rule subseq_appendD)
  let ?reject = "do {
    emit (ChannelClose (sc_chan c));
    (case returned of Some e \<Rightarrow> only_if (\<not> ss_dr_accepted w) (session_escalate c ErrorOperationHandle e)
     | None \<Rightarrow> State_Monad.return ());
    endLoop }"
  consider "\<not> ss_dr_answered w" | "ss_dr_answered w" "\<not> ss_dr_accepted w \<or> ss_dr_err w \<noteq> None"
    | "ss_dr_answered w" "ss_dr_accepted w" "ss_dr_err w = None" by blast
  then show ?thesis
  proof cases
    case 1
    then show ?thesis using assms by (simp add: checkDecision_def)
  next
    case 2
    then have run: "run_state ?reject w = (mode, w')" using assms(2) by (simp add: checkDecision_def)
    have "valid (replied tr rs) ?reject (\<lambda>m v. in_order c tr ids m v)"
      by (intro valid_bind [OF keeps_valid [OF replies.before.s_emit]]
          valid_bind [OF keeps_valid [OF keeps_option [OF keeps_return keeps_only_if [OF replies.before.s_escalate]]]])
        (auto intro: validI in_order_endLoop [OF _ prefix])
    from validD [OF this rs(1) run] show ?thesis .
  next
    case 3
    show ?thesis
    proof (cases "next")
      case None
      then show ?thesis using 3 assms(2) rs prefix
        by (auto simp: checkDecision_def startHandler_def in_order_def open_requests_def replied_def)
    next
      case (Some later)
      then have "run_state (session_request c later) (w\<lparr>ss_started := ss_started w + 1\<rparr>) = (mode, w')"
        using 3 assms(2) by (simp add: checkDecision_def startHandler_def)
      moreover have "replied tr rs (w\<lparr>ss_started := ss_started w + 1\<rparr>)" using rs(1) by (simp add: replied_def)
      ultimately have "served c tr rs later mode w'" using validD [OF valid_request] by blast
      then show ?thesis by (rule served_in_order) (use rs 3 Some in \<open>auto simp: open_requests_def\<close>)
    qed
  qed
qed


lemma in_order_kept:
  assumes "\<And>rs. keeps (replied tr rs) m" "\<And>w x w'. run_state m w = (x, w') \<Longrightarrow> ss_dr_answered w' = ss_dr_answered w"
  shows "keeps (in_order c tr ids mode) m"
proof (rule keepsI)
  fix w x w'
  assume i: "in_order c tr ids mode w" and run: "run_state m w = (x, w')"
  have "open_requests mode w' = open_requests mode w"
    using assms(2) [OF run] by (cases mode) (simp_all add: open_requests_def)
  then show "in_order c tr ids mode w'" using i keepsD [OF assms(1) _ run] unfolding in_order_def by metis
qed

lemma answered_call: "run_state (session_call c call) w = (x, w') \<Longrightarrow> ss_dr_answered w' = ss_dr_answered w"
  using control_kept [OF about_call] by (auto simp: control_of_def)

lemma answered_handlerEnded: "run_state (handlerEnded c err) w = (x, w') \<Longrightarrow> ss_dr_answered w' = ss_dr_answered w"
  using control_kept [OF about_finishHandler]
  by (fastforce simp: control_of_def handlerEnded_def split: if_splits prod.splits)

lemma answered_requestTimeout: "run_state (requestTimeout c) w = (x, w') \<Longrightarrow> ss_dr_answered w' = ss_dr_answered w"
  using control_kept [OF control.before.s_closeQuietly]
  by (fastforce simp: control_of_def requestTimeout_def resolveRequest_def split: if_splits prod.splits)

lemma in_order_call: "keeps (in_order c tr ids mode) (session_call c call)"
  by (rule in_order_kept [OF keeps_session_call]) (rule answered_call)

lemma in_order_handlerEnded: "keeps (in_order c tr ids mode) (handlerEnded c err)"
  by (rule in_order_kept [OF keeps_handlerEnded]) (rule answered_handlerEnded)

lemma in_order_timeout: "keeps (in_order c tr ids mode) (requestTimeout c)"
  by (rule in_order_kept [OF keeps_requestTimeout]) (rule answered_requestTimeout)

lemma in_order_ended: "in_order c tr ids Ended w \<Longrightarrow> in_order c tr (ids @ ids') Ended w"
  unfolding in_order_def open_requests_def by (auto intro: subseq_rev_drop_many)

interpretation ordered: loop_invariant c "in_order c tr" for c tr
proof
  show "in_order c tr ids (Deciding req next) w'"
    if "in_order c tr ids (Deciding req next) w" "run_state (deferred_reply c req accepted) w = (x, w')"
    for ids req "next" and w :: "'a session_scheme" and accepted x w'
    using in_order_reply [OF that] by simp
  show "in_order c tr ids mode w'"
    if "in_order c tr ids Serving w" "run_state endLoop w = (mode, w')" for ids and w :: "'a session_scheme" and mode w'
    using that in_order_endLoop [of tr _ w ids mode w' c] by (auto simp: in_order_def [of c tr ids Serving] open_requests_def)
qed (fact in_order_call in_order_handlerEnded in_order_timeout in_order_request in_order_abandon in_order_later
    in_order_check in_order_ended)+

text \<open>
  C15. Over any sequence of events of a session, with any calls of the handler between them, every
  request is replied to at most once and in the order of arrival. Without deferred subsystem
  handlers a loop that is still running has replied to every request it has read, exactly
  once each.
\<close>

theorem session_requests_answered_in_order:
  "case run_state (session_events c Serving evs) w of (mode, w') \<Rightarrow>
     \<exists>new. w_trace w' = w_trace w @ new
       \<and> subseq (concat (map (reply_id \<circ> fst) new)) (concat (map request_ids evs))
       \<and> (if mode = Serving \<and> (\<nexists>n. sc_deferredSubsystems c n)
          then concat (map (reply_id \<circ> fst) new) = concat (map request_ids evs) else True)"
proof -
  have "in_order c (w_trace w) [] Serving w" by (auto simp: in_order_def open_requests_def replied_def)
  from ordered.events_step [OF this] show ?thesis
    by (fastforce simp: in_order_def replied_def open_requests_def split: prod.splits dest: subseq_appendD)
qed

end
