(* ===== verification/SessionSafety.thy ===== *)
theory SessionSafety
  imports SessionRequests
begin

text \<open>
  What holds of a session under any sequence of events: one handler and one exit status, bounded
  and well-formed data, a loop that ends when the channel closes, and a channel that is closed when
  the handler has returned.
\<close>

section \<open>One handler\<close>

text \<open>What the control fields say in each mode of the loop.\<close>

fun mode_inv :: "loop_mode \<Rightarrow> control \<Rightarrow> bool" where
  "mode_inv Serving (h, r, n, f, d, a, acc, e) \<longleftrightarrow> d = 0 \<and> (if h then r \<and> n = 1 else n = 0) \<and> (f \<longrightarrow> n = 1)"
| "mode_inv (Deciding req next) (h, r, n, f, d, a, acc, e) \<longleftrightarrow> h \<and> r \<and> n = 0 \<and> \<not> f \<and>
     (if \<not> a then d = 1 \<and> \<not> acc \<and> e = None else if acc \<and> e = None then d = 0 else d = 2)"
| "mode_inv Ended (h, r, n, f, d, a, acc, e) \<longleftrightarrow> n \<le> 1 \<and> (n = 1 \<longrightarrow> h \<and> r \<and> d = 0) \<and> (f \<longrightarrow> n = 1)"

definition mode_ok :: "loop_mode \<Rightarrow> 'a session_scheme \<Rightarrow> bool" where
  "mode_ok mode = about (mode_inv mode)"

lemma mode_ok_endLoop: "valid (mode_ok Serving) endLoop mode_ok"
  by (rule validI) (auto simp: endLoop_def mode_ok_def about_def control_of_def split: if_splits)

lemma mode_ok_answer: "valid (mode_ok Serving) (answer req ok) mode_ok"
  by (rule validI) (auto simp: answer_def mode_ok_def about_def control_of_def split: if_splits)

lemma mode_ok_ended_or: "valid (mode_ok Serving) (if ok then State_Monad.return Serving else endLoop) mode_ok"
  by (intro valid_if mode_ok_endLoop) (rule validI, simp)

text \<open>A session without a handler, and one that has been claimed and has none yet.\<close>

abbreviation unclaimed :: "control \<Rightarrow> bool" where
  "unclaimed \<equiv> \<lambda>(h, r, n, f, d, a, acc, e). \<not> h \<and> n = 0 \<and> \<not> f \<and> d = 0"

abbreviation claimed :: "control \<Rightarrow> bool" where
  "claimed \<equiv> \<lambda>(h, r, n, f, d, a, acc, e). h \<and> r \<and> n = 0 \<and> \<not> f \<and> d = 0"

lemma unclaimed_ok: "about unclaimed w \<Longrightarrow> mode_ok Serving w"
  by (auto simp: about_def mode_ok_def split: prod.splits)

lemma mode_ok_unclaimed: "mode_ok Serving w \<Longrightarrow> \<not> ss_handled w \<Longrightarrow> about unclaimed w"
  by (auto simp: about_def mode_ok_def control_of_def)

lemma mode_ok_authorized:
  fixes go :: "('a session_scheme, loop_mode) state"
  assumes "valid (about F) go mode_ok" "keeps (about F) undo" "\<And>w :: 'a session_scheme. about F w \<Longrightarrow> mode_ok Serving w"
  shows "valid (about F) (authorized c req decision wrap undo go) mode_ok"
proof -
  have "valid (about F) (do { undo; ok \<leftarrow> handleCallbackError c req e; (if ok then State_Monad.return Serving else endLoop) })
    mode_ok" for e
    by (intro valid_bind [OF keeps_valid [OF assms(2)]] valid_bind [OF control.a_callbackError [OF refl]])
      (rule valid_pre [OF mode_ok_ended_or], rule assms(3))
  moreover have "valid (about F) (do { undo; answer req False }) mode_ok"
    by (rule valid_bind [OF keeps_valid [OF assms(2)] valid_pre [OF mode_ok_answer assms(3)]])
  ultimately show ?thesis using assms(1) unfolding authorized_def by (auto split: option.splits)
qed

lemma mode_ok_claim:
  assumes "valid (about claimed) go mode_ok"
  shows "valid (about unclaimed) (claim go) mode_ok"
proof (rule validI)
  fix w x w'
  assume i: "about unclaimed w" and run: "run_state (claim go) w = (x, w')"
  show "mode_ok x w'"
  proof (cases "ss_requestResolved w")
    case True
    then have "run_state endLoop w = (x, w')" using run by (simp add: claim_def resolveRequest_def)
    with validD [OF mode_ok_endLoop unclaimed_ok [OF i]] show ?thesis .
  next
    case False
    then have "run_state go (w\<lparr>ss_requestResolved := True, ss_handled := True\<rparr>) = (x, w')"
      using run by (simp add: claim_def resolveRequest_def)
    then show ?thesis by (rule validD [OF assms, rotated]) (use i in \<open>auto simp: about_def control_of_def\<close>)
  qed
qed

lemma mode_ok_acceptAndStart: "valid (about claimed) (acceptAndStart c req) mode_ok"
proof -
  have "valid (about claimed) startHandler mode_ok" "valid (about claimed) endLoop mode_ok"
    by (rule validI, auto simp: startHandler_def endLoop_def mode_ok_def about_def control_of_def)+
  then show ?thesis unfolding acceptAndStart_def
    by (intro valid_bind [OF control.a_session_reply [OF refl]] valid_if)
qed

lemma mode_ok_waitDeferred: "valid (about claimed) (waitDeferredSubsystem req) mode_ok"
  by (rule validI) (auto simp: waitDeferredSubsystem_def mode_ok_def about_def control_of_def)

lemma mode_ok_guard:
  assumes "\<And>w. \<not> P (g w) \<Longrightarrow> \<not> ss_handled w" "valid (about unclaimed) m mode_ok"
  shows "valid (mode_ok Serving) (do { x \<leftarrow> gets g; (if P x then answer req False else m) }) mode_ok"
proof (rule validI)
  fix w x w'
  assume i: "mode_ok Serving w" and run: "run_state (do { x \<leftarrow> gets g; (if P x then answer req False else m) }) w = (x, w')"
  show "mode_ok x w'"
  proof (cases "P (g w)")
    case True
    then have "run_state (answer req False) w = (x, w')" using run by simp
    with validD [OF mode_ok_answer i] show ?thesis .
  next
    case False
    then have "run_state m w = (x, w')" using run by simp
    with validD [OF assms(2) mode_ok_unclaimed [OF i assms(1) [OF False]]] show ?thesis .
  qed
qed

text \<open>One request of each kind.\<close>

lemmas mode_ok_steps = valid_bind [OF keeps_valid [OF keeps_gets]] valid_bind [OF keeps_valid [OF about_modify]]
  valid_bind [OF keeps_valid [OF about_signals]] valid_if valid_option valid_prod valid_prod2 valid_Let
  mode_ok_authorized mode_ok_claim mode_ok_acceptAndStart mode_ok_waitDeferred about_modify keeps_return
  valid_pre [OF mode_ok_answer unclaimed_ok] unclaimed_ok

lemma mode_ok_exec: "valid (mode_ok Serving) (handleExecRequest c req) mode_ok"
  unfolding handleExecRequest_def
  by (rule mode_ok_guard) (simp, intro mode_ok_steps, simp_all add: control_of_def)

lemma mode_ok_subsystem: "valid (mode_ok Serving) (handleSubsystemRequest c req) mode_ok"
  unfolding handleSubsystemRequest_def
  by (rule mode_ok_guard) (simp, intro mode_ok_steps, simp_all add: control_of_def)

lemma mode_ok_env: "valid (mode_ok Serving) (handleEnvRequest c req) mode_ok"
  unfolding handleEnvRequest_def addEnv_def
  by (rule mode_ok_guard) (simp, intro mode_ok_steps, simp_all add: control_of_def)

lemma mode_ok_pty: "valid (mode_ok Serving) (handlePtyRequest c req) mode_ok"
  unfolding handlePtyRequest_def
  by (rule mode_ok_guard) (simp, intro mode_ok_steps, simp_all add: control_of_def)

text \<open>The requests that are served with and without a handler.\<close>

lemma serving_about: "mode_ok Serving = about (mode_inv Serving)"
  by (simp add: mode_ok_def)

lemmas serving_answer = mode_ok_answer [unfolded serving_about]

lemma mode_ok_signal: "valid (mode_ok Serving) (handleSignalRequest c req) mode_ok"
proof -
  have "valid (about (mode_inv Serving)) (do { mode \<leftarrow> answer req ok; (if goOn then State_Monad.return mode else endLoop) }) mode_ok" for ok goOn
    by (rule validI) (auto simp: answer_def endLoop_def mode_ok_def about_def control_of_def split: if_splits)
  then show ?thesis unfolding handleSignalRequest_def serving_about by (intro serving_answer mode_ok_steps)
qed

lemma mode_ok_window: "valid (mode_ok Serving) (handleWindowChange c req) mode_ok"
  unfolding handleWindowChange_def serving_about
  by (intro serving_answer mode_ok_steps) (simp_all add: control_of_def)

lemma mode_ok_agent: "valid (mode_ok Serving) (handleAgentRequest c req) mode_ok"
  unfolding handleAgentRequest_def serving_about
  by (intro valid_option serving_answer mode_ok_authorized valid_bind [OF keeps_valid [OF keeps_gets]]
      valid_bind [OF keeps_valid [OF about_modify]] valid_bind [OF control.a_session_reply [OF refl]]
      mode_ok_ended_or [unfolded serving_about] keeps_return) (simp_all add: control_of_def serving_about)

lemma mode_ok_break: "valid (mode_ok Serving) (handleBreakRequest c req) mode_ok"
  unfolding handleBreakRequest_def serving_about by (intro serving_answer mode_ok_steps)

lemma mode_ok_request: "valid (mode_ok Serving) (session_request c req) mode_ok"
  unfolding session_request_def
  by (intro valid_if mode_ok_exec mode_ok_subsystem mode_ok_env mode_ok_signal mode_ok_pty mode_ok_window
      mode_ok_agent mode_ok_break mode_ok_answer)

text \<open>The decision on a deferred subsystem.\<close>

definition close_trace :: "goctx option \<Rightarrow> 'a world_scheme \<Rightarrow> event list" where
  "close_trace ctx w = w_trace (snd (run_state (closeSSHConnection ctx) w))"

lemma run_closeSSHConnection: "run_state (closeSSHConnection ctx) w = ((), w\<lparr>w_trace := close_trace ctx w\<rparr>)"
  by (cases ctx) (simp_all add: close_trace_def closeSSHConnection_def)

lemma mode_ok_reply:
  assumes "mode_ok (Deciding req next) w" "run_state (deferred_reply c req accepted) w = (x, w')"
  shows "mode_ok (Deciding req next) w' \<and> ss_dr_answered w'"
  using assms
  by (auto simp: deferred_reply_def run_closeSSHConnection mode_ok_def about_def control_of_def split: if_splits)

lemma mode_ok_abandon:
  assumes "mode_ok (Deciding req next) w" "run_state deferred_abandon w = (x, w')"
  shows "mode_ok (Deciding req next) w' \<and> ss_dr_answered w'"
  using assms by (auto simp: deferred_abandon_def mode_ok_def about_def control_of_def split: if_splits)

lemma mode_ok_check:
  assumes "mode_ok (Deciding req next) w" "run_state (checkDecision c req next returned) w = (mode, w')"
  shows "mode_ok mode w'"
proof -
  let ?reject = "do {
    emit (ChannelClose (sc_chan c));
    (case returned of Some e \<Rightarrow> only_if (\<not> ss_dr_accepted w) (session_escalate c ErrorOperationHandle e)
     | None \<Rightarrow> State_Monad.return ());
    endLoop }"
  consider "\<not> ss_dr_answered w" | "ss_dr_answered w" "\<not> ss_dr_accepted w \<or> ss_dr_err w \<noteq> None"
    | "ss_dr_answered w" "ss_dr_accepted w" "ss_dr_err w = None" by blast
  then show ?thesis
  proof cases
    case 1
    then show ?thesis using assms by (auto simp: checkDecision_def)
  next
    case 2
    then have run: "run_state ?reject w = (mode, w')" using assms(2) by (simp add: checkDecision_def)
    have "valid (about (\<lambda>k. k = control_of w)) endLoop mode_ok"
      by (rule validI) (use assms(1) in \<open>auto simp: endLoop_def mode_ok_def about_def control_of_def\<close>)
    then have "valid (about (\<lambda>k. k = control_of w)) ?reject mode_ok"
      by (intro valid_bind [OF keeps_valid [OF control.before.s_emit]]
          valid_bind [OF keeps_valid [OF keeps_option [OF keeps_return keeps_only_if [OF control.before.s_escalate]]]]) auto
    from validD [OF this _ run] show ?thesis by (simp add: about_def)
  next
    case 3
    let ?w = "w\<lparr>ss_started := ss_started w + 1\<rparr>"
    have ok: "mode_ok Serving ?w"
      using assms(1) 3 by (auto simp: mode_ok_def about_def control_of_def)
    show ?thesis
    proof (cases "next")
      case None
      then show ?thesis using 3 assms(2) ok by (simp add: checkDecision_def startHandler_def)
    next
      case (Some later)
      then have "run_state (session_request c later) ?w = (mode, w')"
        using 3 assms(2) by (simp add: checkDecision_def startHandler_def)
      with validD [OF mode_ok_request ok] show ?thesis .
    qed
  qed
qed


lemma mode_ok_handlerEnded: "keeps (mode_ok mode) (handlerEnded c err)"
proof (rule keepsI)
  fix w :: "'a session_scheme" and x w'
  assume i: "mode_ok mode w" and run: "run_state (handlerEnded c err) w = (x, w')"
  show "mode_ok mode w'"
  proof (cases "ss_started w > 0 \<and> \<not> ss_finished w")
    case True
    obtain w1 where 1: "run_state (finishHandler c err) w = ((), w1)" by (metis old.unit.exhaust surj_pair)
    with run True have w': "w' = w1\<lparr>ss_finished := True\<rparr>" by (simp add: handlerEnded_def)
    have "control_of w1 = control_of w" by (rule control_kept [OF about_finishHandler 1])
    with i True show ?thesis by (cases mode) (auto simp: w' mode_ok_def about_def control_of_def split: if_splits)
  next
    case False
    with run i show ?thesis by (auto simp: handlerEnded_def)
  qed
qed

lemma mode_ok_timeout: "keeps (mode_ok mode) (requestTimeout c)"
proof (rule keepsI)
  fix w :: "'a session_scheme" and x w'
  assume i: "mode_ok mode w" and run: "run_state (requestTimeout c) w = (x, w')"
  show "mode_ok mode w'"
  proof (cases "ss_requestResolved w")
    case True
    with run i show ?thesis by (simp add: requestTimeout_def resolveRequest_def)
  next
    case False
    let ?w = "w\<lparr>ss_requestResolved := True\<rparr>"
    have "run_state (closeQuietly_session c) ?w = (x, w')" using run False by (simp add: requestTimeout_def resolveRequest_def)
    then have "control_of w' = control_of ?w" by (rule control_kept [OF control.before.s_closeQuietly])
    with i False show ?thesis by (cases mode) (auto simp: mode_ok_def about_def control_of_def split: if_splits)
  qed
qed

interpretation control_mode: loop_invariant c "\<lambda>_. mode_ok" for c
proof
  show "keeps (mode_ok mode) (session_call c call)" for mode and call :: handler_call
    unfolding mode_ok_def by (rule about_call)
  show "mode_ok (Deciding req next) w'"
    if "mode_ok (Deciding req next) w" "run_state (deferred_reply c req accepted) w = (x, w')"
    for req "next" and w :: "'a session_scheme" and accepted x w'
    using mode_ok_reply [OF that] by simp
  show "mode_ok (Deciding req next) w'"
    if "mode_ok (Deciding req next) w" "run_state deferred_abandon w = (y, w')"
    for req "next" and w :: "'a session_scheme" and y w'
    using mode_ok_abandon [OF that] by simp
  show "mode_ok (Deciding req (Some later)) w" if "mode_ok (Deciding req next) w"
    for req "next" later and w :: "'a session_scheme"
    using that by (simp add: mode_ok_def about_def control_of_def)
qed (fact mode_ok_handlerEnded mode_ok_timeout validD [OF mode_ok_request] validD [OF mode_ok_endLoop] mode_ok_check | assumption)+


section \<open>Exit status, environment and window\<close>

text \<open>What a session does to its signals are steps of \<open>SessionSignals\<close>.\<close>

lemma signal_once: "signal_step s t \<Longrightarrow> signal_step\<^sup>*\<^sup>* s t"
  by (rule r_into_rtranclp)

lemma requeue_between: "drain_send Canceled (s\<lparr>sg_sigBuf := [], sg_drain := Some (t, sg_sigBuf s)\<rparr>) = requeueSignals [] s"
  if "sg_sigBuf s \<noteq> []"
  using that by (cases "sg_sigBuf s") (simp_all add: drain_send_def requeueSignals_def Let_def)

lemma stop_drain_steps: "signal_step\<^sup>*\<^sup>* s (setSignalChannelLocked ch (stop_drain s))"
proof -
  have register: "signal_step\<^sup>*\<^sup>* s (setSignalChannelLocked ch v)" if "signal_step\<^sup>*\<^sup>* s v" "sg_drain v = None" for v
    using that sig_register [of v ch] by (meson rtranclp.rtrancl_into_rtrancl)
  have idle: "sg_drain (requeueSignals batch v) = None" for batch v by (simp add: requeueSignals_def Let_def)
  show ?thesis
  proof (cases "sg_drain s")
    case None
    then show ?thesis using register [of s] by (simp add: stop_drain_def)
  next
    case (Some d)
    obtain t batch where d: "d = (t, batch)" by fastforce
    consider sig rest where "batch = sig # rest" | "batch = []" "sg_sigBuf s = []" | "batch = []" "sg_sigBuf s \<noteq> []"
      by (cases batch) auto
    then show ?thesis
    proof cases
      case 1
      then have "signal_step s (requeueSignals batch s)" using sig_send [of s Canceled] Some d by (simp add: drain_send_def)
      with register [OF signal_once idle, of batch s] show ?thesis using Some d by (simp add: stop_drain_def)
    next
      case 2
      have "signal_step\<^sup>*\<^sup>* s (drain_take s)" by (rule signal_once [OF sig_take])
      with register [of "drain_take s"] have "signal_step\<^sup>*\<^sup>* s (setSignalChannelLocked ch (drain_take s))"
        using 2 Some d by (simp add: drain_take_def Let_def)
      moreover have "setSignalChannelLocked ch (drain_take s) = setSignalChannelLocked ch (stop_drain s)"
        using 2 Some d by (auto simp: drain_take_def stop_drain_def requeueSignals_def setSignalChannelLocked_def Let_def split: option.splits)
      ultimately show ?thesis by simp
    next
      case 3
      have "signal_step s (s\<lparr>sg_sigBuf := [], sg_drain := Some (t, sg_sigBuf s)\<rparr>)"
        using sig_take [of s] 3 Some d by (simp add: drain_take_def Let_def)
      moreover have "signal_step (s\<lparr>sg_sigBuf := [], sg_drain := Some (t, sg_sigBuf s)\<rparr>) (requeueSignals [] s)"
        using sig_send [of "s\<lparr>sg_sigBuf := [], sg_drain := Some (t, sg_sigBuf s)\<rparr>" Canceled] requeue_between 3 by simp
      ultimately have "signal_step\<^sup>*\<^sup>* s (requeueSignals [] s)" by simp
      with register [OF _ idle] show ?thesis using 3 Some d by (simp add: stop_drain_def)
    qed
  qed
qed

lemma Signals_steps: "signal_step\<^sup>*\<^sup>* s (Signals ch (stop_drain s))" if "\<not> sg_exiting s"
proof -
  have "sg_exiting (stop_drain s) = sg_exiting s" by (simp add: stop_drain_def requeueSignals_def Let_def split: option.splits)
  then show ?thesis using stop_drain_steps [of s ch] that by (simp add: Signals_def)
qed

lemma Break_steps: "signal_step\<^sup>*\<^sup>* s (Break c s)" "signal_step\<^sup>*\<^sup>* s (stopBreakDeliveryForExit s)"
  using sig_break [of s c] sig_break_stop [of s] by (auto simp: Break_def)

text \<open>
  The exit statuses sent since \<open>tr\<close> agree with \<open>exited\<close>; the environment is within its bounds and
  \<open>envBytes\<close> is its size; a buffered window size is the current one; the signals are in a reachable state.
\<close>

fun is_exit_status :: "effect \<Rightarrow> bool" where
  "is_exit_status (SendExitStatus _ _) = True"
| "is_exit_status _ = False"

definition exits :: "event list \<Rightarrow> nat" where
  "exits tr = length (filter (is_exit_status \<circ> fst) tr)"

definition env_size :: "string list \<Rightarrow> int" where
  "env_size env = sum_list (map (int \<circ> length) env)"

fun window_ok :: "Pty option \<Rightarrow> Window option \<Rightarrow> bool" where
  "window_ok None winch \<longleftrightarrow> winch = None"
| "window_ok (Some p) winch \<longleftrightarrow> winch \<in> {None, Some (PtyWindow p)}"

lemma window_ok_None [simp]: "window_ok pty None"
  by (cases pty) simp_all

definition session_data :: "event list \<Rightarrow> 'a session_scheme \<Rightarrow> bool" where
  "session_data tr w \<longleftrightarrow>
     (\<exists>new. w_trace w = tr @ new \<and> exits new = (if ss_exited w then 1 else 0))
     \<and> length (ss_env w) \<le> maxSessionEnvVariables
     \<and> ss_envBytes w = env_size (ss_env w) \<and> ss_envBytes w \<le> maxSessionEnvBytes
     \<and> window_ok (ss_pty w) (ss_winch w)
     \<and> signal_step\<^sup>*\<^sup>* no_signals (ss_signals w)"

lemma data_perform: "\<not> is_exit_status e \<Longrightarrow> keeps (session_data tr) (perform e)"
  by (auto simp: keeps_def session_data_def exits_def)

lemma data_emit: "\<not> is_exit_status e \<Longrightarrow> keeps (session_data tr) (emit e)"
  by (rule keeps_emit) (rule data_perform)

lemma data_modify:
  "(\<And>w. session_data tr w \<Longrightarrow> session_data tr (f w)) \<Longrightarrow> keeps (session_data tr) (modify f)"
  by (simp add: keeps_def)

lemma data_signals:
  assumes "\<And>s. signal_step\<^sup>*\<^sup>* s (snd (f s))"
  shows "keeps (session_data tr) (on_signals f :: ('a session_scheme, 'b) state)"
proof (rule keepsI)
  fix w :: "'a session_scheme" and x w'
  assume w: "session_data tr w" and run: "run_state (on_signals f) w = (x, w')"
  have "signal_step\<^sup>*\<^sup>* no_signals (snd (f (ss_signals w)))" using w assms [of "ss_signals w"] by (auto simp: session_data_def)
  then show "session_data tr w'" using w run by (auto simp: session_data_def on_signals_def split: prod.splits)
qed

lemmas signals_steps = sig_request [THEN signal_once] sig_take [THEN signal_once] sig_send [THEN signal_once]
  sig_exiting [THEN signal_once] sig_break_sent [THEN signal_once] stop_drain_steps Signals_steps Break_steps

lemma squiet_no_exit: "squiet e \<Longrightarrow> \<not> is_exit_status e"
  by (cases e) auto

interpretation data: session_answer "session_data tr" "session_data tr" rid for tr rid
proof
  fix w :: "'a session_scheme" and e
  assume "session_data tr w" "squiet e"
  then show "session_data tr (snd (run_state (perform e) w))"
    using data_perform [OF squiet_no_exit] by (auto simp: keeps_def)
next
  fix w :: "'a session_scheme" and ok
  assume "session_data tr w"
  then show "session_data tr (snd (run_state (perform (Reply rid ok [])) w))"
    using data_perform [of "Reply rid ok []" tr] by (auto simp: keeps_def)
qed

lemma data_sendExitStatus: "keeps (session_data tr) (sendExitStatus c code)"
  by (rule keepsI) (auto simp: sendExitStatus_def session_Close_def session_data_def exits_def split: if_splits)

lemma data_Exit: "keeps (session_data tr) (session_Exit c code)"
  unfolding session_Exit_def
  by (intro keeps_intros data_signals data_sendExitStatus)
    (simp_all add: stopSignalDeliveryForExit_def signals_steps)

lemma data_call: "keeps (session_data tr) (session_call c call)"
  by (cases call)
    (auto intro!: keeps_intros data_Exit data_signals data_modify data_perform data.before.s_closeQuietly
      simp: signals_steps session_Write_def session_data_def split: option.splits)

lemma data_handlerEnded: "keeps (session_data tr) (handlerEnded c err)"
  unfolding handlerEnded_def
  by (intro keeps_intros data.before.s_finishHandler data_Exit data_modify) (simp add: session_data_def)

lemma data_resolve: "keeps (session_data tr) resolveRequest"
  unfolding resolveRequest_def by (intro keeps_intros data_modify) (simp add: session_data_def)

lemma data_timeout: "keeps (session_data tr) (requestTimeout c)"
  unfolding requestTimeout_def by (intro keeps_intros data_resolve data.before.s_closeQuietly)

lemma data_endLoop: "keeps (session_data tr) endLoop"
  unfolding endLoop_def by (intro keeps_intros data_modify) (simp add: session_data_def)

lemma data_answer: "keeps (session_data tr) (answer req ok)"
  unfolding answer_def by (intro keeps_intros data_emit) simp

lemma data_session_reply: "keeps (session_data tr) (session_reply c req ok)"
  by (rule valid_keeps) (rule data.a_session_reply [OF refl])

lemma data_callbackError: "keeps (session_data tr) (handleCallbackError c req err)"
  by (rule valid_keeps) (rule data.a_callbackError [OF refl])

lemma data_authorized:
  "keeps (session_data tr) go \<Longrightarrow> keeps (session_data tr) undo \<Longrightarrow>
   keeps (session_data tr) (authorized c req decision wrap undo go)"
  unfolding authorized_def
  by (intro keeps_intros data_answer data_callbackError data_endLoop)

lemma data_start: "keeps (session_data tr) startHandler"
  unfolding startHandler_def by (intro keeps_intros data_modify) (simp add: session_data_def)

lemma data_acceptAndStart: "keeps (session_data tr) (acceptAndStart c req)"
  unfolding acceptAndStart_def by (intro keeps_intros data_session_reply data_start data_endLoop)

lemma data_claim: "keeps (session_data tr) go \<Longrightarrow> keeps (session_data tr) (claim go)"
  unfolding claim_def by (intro keeps_intros data_resolve data_endLoop data_modify) (simp_all add: session_data_def)

lemma data_waitDeferred: "keeps (session_data tr) (waitDeferredSubsystem req)"
  unfolding waitDeferredSubsystem_def by (intro keeps_intros data_modify) (simp add: session_data_def)

lemmas data_steps = keeps_intros data_authorized data_claim data_answer data_acceptAndStart data_waitDeferred
  data_endLoop data_signals data_modify

lemma data_exec: "keeps (session_data tr) (handleExecRequest c req)"
  unfolding handleExecRequest_def by (intro data_steps) (simp_all add: session_data_def)

lemma data_subsystem: "keeps (session_data tr) (handleSubsystemRequest c req)"
  unfolding handleSubsystemRequest_def by (intro data_steps) (simp_all add: session_data_def)

lemma data_addEnv: "keeps (session_data tr) (addEnv req k v)"
proof (rule keepsI)
  fix w :: "'a session_scheme" and x w'
  let ?n = "int (length k) + 1 + int (length v)"
  let ?w = "w\<lparr>ss_env := ss_env w @ [k @ ''='' @ v], ss_envBytes := ss_envBytes w + ?n\<rparr>"
  assume i: "session_data tr w" and run: "run_state (addEnv req k v) w = (x, w')"
  show "session_data tr w'"
  proof (cases "length (ss_env w) \<ge> maxSessionEnvVariables \<or> ss_envBytes w + ?n > maxSessionEnvBytes")
    case True
    then have "run_state (answer req False) w = (x, w')" using run by (simp add: addEnv_def Let_def)
    then show ?thesis by (rule keepsD [OF data_answer i])
  next
    case False
    then have "session_data tr ?w" using i by (simp add: session_data_def env_size_def)
    moreover have "run_state (answer req True) ?w = (x, w')" using run False by (simp add: addEnv_def Let_def)
    ultimately show ?thesis by (rule keepsD [OF data_answer])
  qed
qed

lemma data_env: "keeps (session_data tr) (handleEnvRequest c req)"
  unfolding handleEnvRequest_def by (intro data_steps data_addEnv)

lemma data_signal: "keeps (session_data tr) (handleSignalRequest c req)"
  unfolding handleSignalRequest_def by (intro data_steps) (simp add: signals_steps)

lemma data_pty: "keeps (session_data tr) (handlePtyRequest c req)"
  unfolding handlePtyRequest_def by (intro data_steps) (simp_all add: session_data_def)

lemma winch_send_latest: "winch_send win buffered = Some win"
  by (cases buffered) (simp_all add: winch_send_def winch_offer_def)

lemma data_window: "keeps (session_data tr) (handleWindowChange c req)"
  unfolding handleWindowChange_def Let_def
  by (intro data_steps) (simp_all add: session_data_def winch_send_latest)

lemma data_agent: "keeps (session_data tr) (handleAgentRequest c req)"
  unfolding handleAgentRequest_def by (intro data_steps data_session_reply) (simp_all add: session_data_def)

lemma data_break: "keeps (session_data tr) (handleBreakRequest c req)"
  unfolding handleBreakRequest_def by (intro data_steps) (simp add: signals_steps)

lemma data_request: "keeps (session_data tr) (session_request c req)"
  unfolding session_request_def
  by (intro keeps_if data_exec data_subsystem data_env data_signal data_pty data_window data_agent data_break data_answer)

lemma data_reply: "keeps (session_data tr) (deferred_reply c req accepted)"
  unfolding deferred_reply_def
  by (intro keeps_intros data_modify data_perform data.before.s_closeSSH) (simp_all add: session_data_def)

lemma data_abandon: "keeps (session_data tr) deferred_abandon"
  unfolding deferred_abandon_def by (intro keeps_intros data_modify) (simp add: session_data_def)

lemma data_check: "keeps (session_data tr) (checkDecision c req next returned)"
  unfolding checkDecision_def
  by (intro keeps_intros data_endLoop data_start data_request data.before.s_escalate data_emit) simp

interpretation session_values: loop_invariant c "\<lambda>_ _. session_data tr" for c tr
  by unfold_locales
    (fact data_call data_handlerEnded data_timeout data_request [THEN keepsD] data_endLoop [THEN keepsD]
      data_reply [THEN keepsD] data_abandon [THEN keepsD] data_check [THEN keepsD] | assumption)+


section \<open>The theorems over all executions\<close>

definition fresh_session :: "'a session_scheme \<Rightarrow> 'a session_scheme" where
  "fresh_session w = snd (run_state newSession w)"

lemma fresh_session_start:
  "mode_ok Serving (fresh_session w)" "session_data (w_trace w) (fresh_session w)" "w_trace (fresh_session w) = w_trace w"
  by (simp_all add: fresh_session_def newSession_def mode_ok_def about_def control_of_def session_data_def exits_def
      env_size_def)

lemma session_reachable:
  assumes "run_state (session_events c Serving evs) (fresh_session w) = (mode, w')"
  shows "mode_ok mode w'" "session_data (w_trace w) w'"
  using control_mode.events_step [OF fresh_session_start(1) assms] session_values.events_step [OF fresh_session_start(2) assms]
  by auto

text \<open>
  C19. Whatever the client, the handler and the user's callbacks do, a session has at most 128
  environment variables of at most 65536 bytes together, of which \<open>envBytes\<close> is the exact size; a
  buffered window size is the current size of the PTY; the deferred decision is pending
  exactly while the loop waits for it without an answer; and the session holds at most two buffers of 128 signals, and the
  handler has got signals in the order in which the client got its replies.
\<close>

theorem session_state_well_formed:
  "case run_state (session_events c Serving evs) (fresh_session w) of (mode, w') \<Rightarrow>
     length (ss_env w') \<le> 128 \<and> ss_envBytes w' \<le> 65536 \<and> ss_envBytes w' = sum_list (map (int \<circ> length) (ss_env w'))
     \<and> (case ss_winch w' of None \<Rightarrow> True | Some win \<Rightarrow> \<exists>p. ss_pty w' = Some p \<and> win = PtyWindow p)
     \<and> length (held_signals (ss_signals w')) \<le> 256 \<and> subseq (sg_delivered (ss_signals w')) (sg_accepted (ss_signals w'))
     \<and> (case mode of
          Serving \<Rightarrow> ss_deferredState w' = 0
        | Deciding _ _ \<Rightarrow> ss_deferredState w' \<le> 2 \<and> (ss_deferredState w' = 1 \<longleftrightarrow> \<not> ss_dr_answered w')
        | Ended \<Rightarrow> True)"
proof -
  obtain mode w' where run: "run_state (session_events c Serving evs) (fresh_session w) = (mode, w')" by fastforce
  have "case ss_winch w' of None \<Rightarrow> True | Some win \<Rightarrow> \<exists>p. ss_pty w' = Some p \<and> win = PtyWindow p"
    using session_reachable(2) [OF run] by (cases "ss_pty w'") (auto simp: session_data_def split: option.splits)
  moreover have "length (held_signals (ss_signals w')) \<le> 256 \<and> subseq (sg_delivered (ss_signals w')) (sg_accepted (ss_signals w'))"
    using session_reachable(2) [OF run] signals_ordered [of "ss_signals w'"] by (simp add: session_data_def)
  ultimately show ?thesis using session_reachable [OF run]
    by (cases mode) (auto simp: run session_data_def env_size_def mode_ok_def about_def control_of_def split: if_splits)
qed

text \<open>
  C16. A session runs at most one handler and sends at most one exit status, which it has sent exactly
  when it is marked as exited. A handler has been started exactly when the request for it
  was answered positively: while the loop serves, that is when the session is handled, and
  then the request timer has lost.
\<close>

theorem one_handler_one_exit_status:
  "case run_state (session_events c Serving evs) (fresh_session w) of (mode, w') \<Rightarrow>
     (\<exists>new. w_trace w' = w_trace w @ new
        \<and> length (filter (is_exit_status \<circ> fst) new) = (if ss_exited w' then 1 else 0))
     \<and> ss_started w' \<le> 1 \<and> (if ss_finished w' then ss_started w' = 1 else True)
     \<and> (if ss_started w' = 1 then ss_handled w' \<and> ss_requestResolved w' \<and> ss_deferredState w' = 0 else True)
     \<and> (if mode = Serving then ss_handled w' \<longleftrightarrow> ss_started w' = 1 else True)"
proof -
  obtain mode w' where run: "run_state (session_events c Serving evs) (fresh_session w) = (mode, w')" by fastforce
  from session_reachable [OF run] show ?thesis
    by (cases mode) (auto simp: run session_data_def exits_def mode_ok_def about_def control_of_def split: if_splits)
qed

section \<open>The loop ends\<close>

text \<open>Only a request for a subsystem that is not handled yet can make the loop wait.\<close>

definition decided :: "loop_mode \<Rightarrow> bool" where
  "decided mode \<longleftrightarrow> mode \<in> {Serving, Ended}"

lemma decided_simps [simp]: "decided Serving" "decided Ended" "\<not> decided (Deciding req next)"
  by (simp_all add: decided_def)












section \<open>The end of the handler\<close>











text \<open>A session in a world where every call succeeds.\<close>

definition quiet_session :: session where
  "quiet_session = fresh_session \<lparr>w_trace = [], w_env = (\<lambda>_ _. None), ss_handled = False, ss_exited = False,
     ss_pty = None, ss_winch = None, ss_winchClosed = False, ss_env = [], ss_envBytes = 0, ss_rawCmd = [],
     ss_subsystem = [], ss_signals = no_signals, ss_requestResolved = False, ss_started = 0, ss_finished = False,
     ss_agentRequested = False, ss_deferredState = 0, ss_dr_answered = False, ss_dr_accepted = False, ss_dr_err = None\<rparr>"

definition plain_config :: session_config where
  "plain_config = \<lparr>sc_chan = 7, sc_ctx = \<lparr>ctx_closer = False, ctx_conn = True, ctx_hasDone = True\<rparr>,
     sc_errorHandler = None, sc_cutoff = None, sc_hasHandler = True, sc_subsystems = (\<lambda>_. False),
     sc_deferredSubsystems = (\<lambda>n. n = ''sftp''), sc_sessReqCb = None, sc_ptyCb = None, sc_agentForwardingCb = None,
     sc_unmarshalValue = (\<lambda>p. Some (string_of_bytes p)), sc_unmarshalPair = (\<lambda>_. None), sc_intBits = 64,
     sc_write = (\<lambda>_. Written 0 None), sc_signalSend = (\<lambda>_. Delivered), sc_breakSend = (\<lambda>_. Delivered),
     sc_requestTimeout = 0, sc_replyStalls = (\<lambda>_. False)\<rparr>"

lemmas quiet_session_simps = quiet_session_def fresh_session_def newSession_def plain_config_def



section \<open>Two flaws\<close>

text \<open>
  A handler that asks for an exit status outside of 32 bits leaves its session open: with no
  user error handler the only effect is a log entry. No exit status is sent, the channel
  is not closed, the session is not marked as exited.
\<close>

theorem invalid_exit_status_leaves_the_session_open:
  assumes "code < 0 \<or> code > 4294967295" "ss_deferredState w = 0" "\<not> ss_exited w" "sc_errorHandler c = None"
    and "run_state (finishHandler c (Some (SessionExit (Some (code, []))))) w = (x, w')"
  shows "effects w' = effects w @ [LogFailed ErrorScopeSession ErrorOperationReply
      (JoinErr [Errorf ''ssh: invalid session exit status %d'' [AInt code]])] \<and> \<not> ss_exited w'"
  using assms
  by (auto simp: finishHandler_def applyExitError_def session_Exit_def session_escalate_def dispatchErrorOrEscalate_def
      dispatchError_def dispatched_def resolveErrorLocation_def defaultLogAndFailErrorAction_def)

theorem invalid_exit_status_leaves_the_session_open_witness:
  "\<not> ss_exited (snd (run_state (finishHandler plain_config (Some (SessionExit (Some (- 1, []))))) quiet_session))"
  using invalid_exit_status_leaves_the_session_open [of "- 1" quiet_session plain_config,
      OF _ _ _ _ prod.collapse [symmetric]]
  by (simp add: quiet_session_simps)

text \<open>
  While the decision on a deferred subsystem is pending, a request that arrives is forgotten as
  soon as another one follows: every continuation is the same as if it had never been sent, so
  it gets no reply and has no effect.
\<close>

theorem pending_decision_forgets_a_request:
  assumes "\<not> ss_dr_answered w"
  shows "run_state (session_events c (Deciding req next) (InRequest first # InRequest second # evs)) w =
    run_state (session_events c (Deciding req next) (InRequest second # evs)) w"
  using assms by (simp add: session_event_def deciding_event_def checkDecision_def)

abbreviation sample_request :: "nat \<Rightarrow> string \<Rightarrow> gossh_request" where
  "sample_request i t \<equiv> \<lparr>raw_id = i, raw_type = t, raw_payload = [], raw_wantReply = True\<rparr>"

theorem pending_decision_forgets_a_request_witness:
  "run_state (session_events plain_config (Deciding (sample_request 1 ''subsystem'') None)
     [InRequest (sample_request 2 ''env''), InRequest (sample_request 3 ''env'')]) quiet_session =
   run_state (session_events plain_config (Deciding (sample_request 1 ''subsystem'') None)
     [InRequest (sample_request 3 ''env'')]) quiet_session"
  by (rule pending_decision_forgets_a_request) (simp add: quiet_session_simps)

end
