(* ===== verification/Contexts.thy ===== *)
theory Contexts
  imports Prelude
begin

text \<open>
  The values of a connection's context (\<open>sshContext\<close> in \<open>context.go\<close>) and of a session's view of it
  (\<open>sessionAgentContext\<close> in \<open>agent.go\<close>). A value is nil, or of one of the types the code stores; a
  type assertion that fails gives the zero value.
\<close>

section \<open>Values\<close>

datatype contextKey =
    ContextKeyUser | ContextKeySessionID | ContextKeyClientVersion | ContextKeyServerVersion
  | ContextKeyLocalAddr | ContextKeyRemoteAddr | ContextKeyServer | ContextKeyPermissions
  | ContextKeyConn | ContextKeyPublicKey | ContextKeyAgentRequest | OtherKey nat

datatype ctx_value = Nil_value | String_value string | Addr_value string | Bool_value bool | Ref_value nat

text \<open>\<open>sx_parent\<close> is what the embedded context answers.\<close>

record sshContext =
  sx_values :: "contextKey \<rightharpoonup> ctx_value"
  sx_parent :: "contextKey \<Rightarrow> ctx_value"

definition ctx_Value :: "sshContext \<Rightarrow> contextKey \<Rightarrow> ctx_value" where
  "ctx_Value ctx key = (case sx_values ctx key of Some v \<Rightarrow> v | None \<Rightarrow> sx_parent ctx key)"

definition SetValue :: "contextKey \<Rightarrow> ctx_value \<Rightarrow> sshContext \<Rightarrow> sshContext" where
  "SetValue key v ctx = ctx\<lparr>sx_values := (sx_values ctx)(key \<mapsto> v)\<rparr>"

definition newContextWithParent :: "(contextKey \<Rightarrow> ctx_value) \<Rightarrow> nat \<Rightarrow> nat \<Rightarrow> sshContext" where
  "newContextWithParent parent srv perms =
     SetValue ContextKeyPermissions (Ref_value perms)
       (SetValue ContextKeyServer (Ref_value srv) \<lparr>sx_values = Map.empty, sx_parent = parent\<rparr>)"

fun asString :: "ctx_value \<Rightarrow> string" where
  "asString (String_value s) = s"
| "asString _ = []"

fun asAddr :: "ctx_value \<Rightarrow> string option" where
  "asAddr (Addr_value a) = Some a"
| "asAddr _ = None"

fun asPermissions :: "ctx_value \<Rightarrow> nat option" where
  "asPermissions (Ref_value p) = Some p"
| "asPermissions _ = None"

definition ctx_User :: "sshContext \<Rightarrow> string" where "ctx_User ctx = asString (ctx_Value ctx ContextKeyUser)"
definition ctx_SessionID :: "sshContext \<Rightarrow> string" where "ctx_SessionID ctx = asString (ctx_Value ctx ContextKeySessionID)"
definition ctx_ClientVersion :: "sshContext \<Rightarrow> string" where "ctx_ClientVersion ctx = asString (ctx_Value ctx ContextKeyClientVersion)"
definition ctx_ServerVersion :: "sshContext \<Rightarrow> string" where "ctx_ServerVersion ctx = asString (ctx_Value ctx ContextKeyServerVersion)"
definition ctx_RemoteAddr :: "sshContext \<Rightarrow> string option" where "ctx_RemoteAddr ctx = asAddr (ctx_Value ctx ContextKeyRemoteAddr)"
definition ctx_LocalAddr :: "sshContext \<Rightarrow> string option" where "ctx_LocalAddr ctx = asAddr (ctx_Value ctx ContextKeyLocalAddr)"
definition ctx_Permissions :: "sshContext \<Rightarrow> nat option" where "ctx_Permissions ctx = asPermissions (ctx_Value ctx ContextKeyPermissions)"

section \<open>Metadata of the connection\<close>

record connMetadata =
  md_user :: string
  md_sessionID :: bytes
  md_clientVersion :: bytes
  md_serverVersion :: bytes
  md_localAddr :: string
  md_remoteAddr :: string

definition hexDigit :: "nat \<Rightarrow> char" where
  "hexDigit n = ''0123456789abcdef'' ! n"

definition hexEncode :: "bytes \<Rightarrow> string" where
  "hexEncode bs = concat (map (\<lambda>b. [hexDigit (unat b div 16), hexDigit (unat b mod 16)]) bs)"

definition applyConnMetadata :: "connMetadata \<Rightarrow> sshContext \<Rightarrow> sshContext" where
  "applyConnMetadata m ctx =
     (let ctx1 = SetValue ContextKeyUser (String_value (md_user m)) ctx
      in if ctx_Value ctx1 ContextKeySessionID \<noteq> Nil_value then ctx1
         else SetValue ContextKeyRemoteAddr (Addr_value (md_remoteAddr m))
               (SetValue ContextKeyLocalAddr (Addr_value (md_localAddr m))
                 (SetValue ContextKeyServerVersion (String_value (string_of_bytes (md_serverVersion m)))
                   (SetValue ContextKeyClientVersion (String_value (string_of_bytes (md_clientVersion m)))
                     (SetValue ContextKeySessionID (String_value (hexEncode (md_sessionID m))) ctx1)))))"

section \<open>The session's view\<close>

text \<open>Sessions share the context of their connection; the request for agent forwarding is their own.\<close>

record session_contexts =
  sv_conn :: sshContext
  sv_requested :: "nat \<Rightarrow> bool"

definition agent_Value :: "session_contexts \<Rightarrow> nat \<Rightarrow> contextKey \<Rightarrow> ctx_value" where
  "agent_Value s i key =
     (if key = ContextKeyAgentRequest then Bool_value (sv_requested s i) else ctx_Value (sv_conn s) key)"

definition agent_SetValue :: "nat \<Rightarrow> contextKey \<Rightarrow> ctx_value \<Rightarrow> session_contexts \<Rightarrow> session_contexts" where
  "agent_SetValue i key v s =
     (if key = ContextKeyAgentRequest then s\<lparr>sv_requested := (sv_requested s)(i := (v = Bool_value True))\<rparr>
      else s\<lparr>sv_conn := SetValue key v (sv_conn s)\<rparr>)"

definition SetAgentRequested :: "nat \<Rightarrow> session_contexts \<Rightarrow> session_contexts" where
  "SetAgentRequested i = agent_SetValue i ContextKeyAgentRequest (Bool_value True)"

definition AgentRequested :: "nat \<Rightarrow> session_contexts \<Rightarrow> bool" where
  "AgentRequested i s \<longleftrightarrow> agent_Value s i ContextKeyAgentRequest = Bool_value True"

section \<open>Their laws\<close>

lemma Value_SetValue [simp]: "ctx_Value (SetValue k v ctx) k' = (if k' = k then v else ctx_Value ctx k')"
  by (simp add: ctx_Value_def SetValue_def split: option.splits)

lemma agent_laws:
  "AgentRequested j (agent_SetValue i key v s) =
     (if j = i \<and> key = ContextKeyAgentRequest then v = Bool_value True else AgentRequested j s)"
  "key' \<noteq> ContextKeyAgentRequest \<Longrightarrow> agent_Value (agent_SetValue i key v s) j key' =
     (if key' = key then v else agent_Value s j key')"
  by (auto simp: AgentRequested_def agent_Value_def agent_SetValue_def)

lemma applied_metadata:
  "ctx_Value (applyConnMetadata m ctx) k =
     (if k = ContextKeyUser then String_value (md_user m)
      else if ctx_Value ctx ContextKeySessionID \<noteq> Nil_value then ctx_Value ctx k
      else if k = ContextKeySessionID then String_value (hexEncode (md_sessionID m))
      else if k = ContextKeyClientVersion then String_value (string_of_bytes (md_clientVersion m))
      else if k = ContextKeyServerVersion then String_value (string_of_bytes (md_serverVersion m))
      else if k = ContextKeyLocalAddr then Addr_value (md_localAddr m)
      else if k = ContextKeyRemoteAddr then Addr_value (md_remoteAddr m)
      else ctx_Value ctx k)"
  by (simp add: applyConnMetadata_def Let_def)

lemma later_metadata:
  "ctx_Value ctx ContextKeySessionID \<noteq> Nil_value \<Longrightarrow> k \<noteq> ContextKeyUser \<Longrightarrow>
   ctx_Value (fold applyConnMetadata ms ctx) k = ctx_Value ctx k"
  by (induction ms arbitrary: ctx) (simp_all add: applied_metadata)

lemma last_user: "ms \<noteq> [] \<Longrightarrow> ctx_Value (fold applyConnMetadata ms ctx) ContextKeyUser = String_value (md_user (last ms))"
proof (induction ms arbitrary: ctx)
  case (Cons m ms)
  then show ?case by (cases "ms = []") (simp_all add: applied_metadata)
qed simp

text \<open>
  The handshake applies the metadata of the connection before every authentication attempt. The
  user is always the one of the latest attempt; session id, versions and addresses are those of
  the first one and never change, and nothing else in the context is touched.
\<close>

theorem metadata_of_a_connection:
  assumes "ctx_Value ctx ContextKeySessionID = Nil_value"
  shows "let ctx' = fold applyConnMetadata (m # ms) ctx in
     ctx_User ctx' = md_user (last (m # ms)) \<and> ctx_SessionID ctx' = hexEncode (md_sessionID m)
     \<and> ctx_ClientVersion ctx' = string_of_bytes (md_clientVersion m)
     \<and> ctx_ServerVersion ctx' = string_of_bytes (md_serverVersion m)
     \<and> ctx_LocalAddr ctx' = Some (md_localAddr m) \<and> ctx_RemoteAddr ctx' = Some (md_remoteAddr m)
     \<and> ctx_Permissions ctx' = ctx_Permissions ctx"
  using assms last_user [of "m # ms" ctx] later_metadata [of "applyConnMetadata m ctx" _ ms]
  by (simp add: ctx_User_def ctx_SessionID_def ctx_ClientVersion_def ctx_ServerVersion_def ctx_LocalAddr_def
      ctx_RemoteAddr_def ctx_Permissions_def applied_metadata)

abbreviation sample_metadata :: "string \<Rightarrow> connMetadata" where
  "sample_metadata u \<equiv> \<lparr>md_user = u, md_sessionID = [255, 1], md_clientVersion = [], md_serverVersion = [],
     md_localAddr = ''l'', md_remoteAddr = ''r''\<rparr>"

theorem metadata_of_a_connection_witness:
  "let ctx' = fold applyConnMetadata [sample_metadata ''a'', sample_metadata ''b''] (newContextWithParent (\<lambda>_. Nil_value) 0 1)
   in ctx_User ctx' = ''b'' \<and> ctx_SessionID ctx' = hexEncode [255, 1] \<and> ctx_Permissions ctx' = Some 1"
  using metadata_of_a_connection [of "newContextWithParent (\<lambda>_. Nil_value) 0 1" "sample_metadata ''a''" "[sample_metadata ''b'']"]
  by (simp add: newContextWithParent_def ctx_Permissions_def Let_def) (simp add: ctx_Value_def)

end
