(* ===== verification/SignalDelivery.thy ===== *)
theory SignalDelivery
  imports SessionSignals
begin

text \<open>
  The delivery of signals and breaks in the sections that the code makes of it (\<open>session.go\<close>). A send on
  a channel of the application happens between two sections and outside of every mutex, and a registration has up to four sections:
  it checks \<open>exiting\<close>, cancels a drain and waits for it, cancels a send and waits for that, and registers. So they interleave.
  This refines \<open>SessionSignals\<close>, where a request and a registration are one step each.
\<close>

section \<open>State\<close>

text \<open>
  Where the holder of \<open>sigConfigMu\<close> or \<open>breakConfigMu\<close> stands: it has checked \<open>exiting\<close>, waits for a drain, or has taken the old
  channel away and waits for sends; with the channel that it registers.
\<close>

datatype registration = Idle | Checked "nat option" | Draining "nat option" | Unregistered "nat option"

text \<open>
  \<open>dv_s\<close> has the fields of the session. \<open>dv_send\<close> is the direct send of the request loop, \<open>dv_breakSend\<close> that of a break; the
  flags say whether the cancel channels these sends and the drain have got are closed. \<open>dv_registered\<close> and \<open>dv_breakRegistered\<close>
  record the last registration that has finished and decide nothing.
\<close>

record delivery =
  dv_s :: sigstate
  dv_send :: "(nat \<times> string) option"
  dv_sendCanceled :: bool
  dv_drainCanceled :: bool
  dv_config :: registration
  dv_registered :: "nat option"
  dv_breakSend :: "nat option"
  dv_breakCanceled :: bool
  dv_breakConfig :: registration
  dv_breakRegistered :: "nat option"

definition no_delivery :: delivery where
  "no_delivery = \<lparr>dv_s = no_signals, dv_send = None, dv_sendCanceled = False, dv_drainCanceled = False, dv_config = Idle,
     dv_registered = None, dv_breakSend = None, dv_breakCanceled = False, dv_breakConfig = Idle, dv_breakRegistered = None\<rparr>"

section \<open>Requests\<close>

text \<open>
  \<open>handleSignalRequest\<close> up to a send, and after it. Without a send the result is the reply and whether the loop goes on.
\<close>

definition signal_begin :: "string \<Rightarrow> delivery \<Rightarrow> (bool \<times> bool) option \<times> delivery" where
  "signal_begin sig t =
     (let s = dv_s t
      in if length sig > maxSessionSignalBytes then (Some (False, True), t)
         else if sg_exiting s then (Some (False, False), t)
         else case sg_sigCh s of
           None \<Rightarrow>
             (Some (True, True),
              t\<lparr>dv_s := (if length (sg_sigBuf s) < maxSigBufSize then s\<lparr>sg_sigBuf := sg_sigBuf s @ [sig], sg_accepted := sg_accepted s @ [sig]\<rparr>
                         else s\<lparr>sg_accepted := sg_accepted s @ [sig], sg_lost := sg_lost s @ [sig]\<rparr>)\<rparr>)
         | Some c \<Rightarrow> (None, t\<lparr>dv_send := Some (c, sig), dv_sendCanceled := False\<rparr>))"

definition signal_end :: "send_outcome \<Rightarrow> nat \<Rightarrow> string \<Rightarrow> delivery \<Rightarrow> (bool \<times> bool) \<times> delivery" where
  "signal_end outcome c sig t =
     (let s = dv_s t;
          s1 = (if outcome = ChannelClosed \<and> sg_sigCh s = Some c then s\<lparr>sg_sigCh := None\<rparr> else s);
          s2 = (if outcome = Delivered then s1\<lparr>sg_accepted := sg_accepted s1 @ [sig], sg_delivered := sg_delivered s1 @ [sig]\<rparr> else s1)
      in ((outcome = Delivered, outcome \<noteq> ContextDone), t\<lparr>dv_s := s2, dv_send := None\<rparr>))"

text \<open>\<open>deliverBreak\<close>, likewise.\<close>

definition break_begin :: "delivery \<Rightarrow> bool option \<times> delivery" where
  "break_begin t = (case sg_breakCh (dv_s t) of
     None \<Rightarrow> (Some False, t)
   | Some c \<Rightarrow> (None, t\<lparr>dv_breakSend := Some c, dv_breakCanceled := False\<rparr>))"

definition break_end :: "send_outcome \<Rightarrow> nat \<Rightarrow> delivery \<Rightarrow> bool \<times> delivery" where
  "break_end outcome c t =
     (let s = dv_s t
      in (outcome = Delivered,
          t\<lparr>dv_s := (if outcome = ChannelClosed \<and> sg_breakCh s = Some c then s\<lparr>sg_breakCh := None\<rparr> else s), dv_breakSend := None\<rparr>))"

text \<open>
  What \<open>sendSignal\<close> returns for an outcome of its select (delivered, canceled by the context, channel closed), and
  \<open>sendBreak\<close> (delivered, channel closed); a send on a closed channel panics and is recovered from.
\<close>

fun sendSignal :: "send_outcome \<Rightarrow> bool \<times> bool \<times> bool" where
  "sendSignal Delivered = (True, False, False)"
| "sendSignal Canceled = (False, False, False)"
| "sendSignal ContextDone = (False, True, False)"
| "sendSignal ChannelClosed = (False, False, True)"

fun sendBreak :: "send_outcome \<Rightarrow> bool \<times> bool" where
  "sendBreak Delivered = (True, False)"
| "sendBreak Canceled = (False, False)"
| "sendBreak ContextDone = (False, False)"
| "sendBreak ChannelClosed = (False, True)"

lemma signal_end_results:
  "fst (signal_end outcome c sig t) = (case sendSignal outcome of (delivered, canceledByContext, _) \<Rightarrow> (delivered, \<not> canceledByContext))"
  "snd (snd (sendSignal outcome)) \<longleftrightarrow> outcome = ChannelClosed"
  by (cases outcome; simp add: signal_end_def Let_def)+

lemma break_end_results:
  "break_end outcome c t = (case sendBreak outcome of (delivered, channelClosed) \<Rightarrow>
     (delivered, t\<lparr>dv_s := (if channelClosed \<and> sg_breakCh (dv_s t) = Some c then (dv_s t)\<lparr>sg_breakCh := None\<rparr> else dv_s t), dv_breakSend := None\<rparr>))"
  by (cases outcome) (simp_all add: break_end_def Let_def)

section \<open>Registrations\<close>

text \<open>\<open>Signals\<close> up to \<open>setSignalChannelLocked\<close>, and the three sections of that.\<close>

definition Signals_begin :: "nat option \<Rightarrow> delivery \<Rightarrow> delivery" where
  "Signals_begin ch t = (if sg_exiting (dv_s t) then t else t\<lparr>dv_config := Checked ch\<rparr>)"

definition signals_unregister :: "nat option \<Rightarrow> delivery \<Rightarrow> delivery" where
  "signals_unregister ch t =
     t\<lparr>dv_s := (dv_s t)\<lparr>sg_sigCh := None\<rparr>, dv_sendCanceled := True, dv_config := Unregistered ch\<rparr>"

definition signals_cancel :: "nat option \<Rightarrow> delivery \<Rightarrow> delivery" where
  "signals_cancel ch t =
     (if sg_drain (dv_s t) \<noteq> None then t\<lparr>dv_drainCanceled := True, dv_config := Draining ch\<rparr> else signals_unregister ch t)"

definition signals_register :: "nat option \<Rightarrow> delivery \<Rightarrow> delivery" where
  "signals_register ch t =
     (let s = dv_s t
      in t\<lparr>dv_s := (case ch of
             None \<Rightarrow> s
           | Some c \<Rightarrow> if length (sg_sigBuf s) = 0 then s\<lparr>sg_sigCh := Some c\<rparr> else s\<lparr>sg_drain := Some (c, [])\<rparr>),
           dv_drainCanceled := False, dv_config := Idle, dv_registered := ch\<rparr>)"

text \<open>\<open>Break\<close> and the two sections of \<open>setBreakChannelLocked\<close>.\<close>

definition Break_begin :: "nat option \<Rightarrow> delivery \<Rightarrow> delivery" where
  "Break_begin ch t = (if sg_exiting (dv_s t) then t else t\<lparr>dv_breakConfig := Checked ch\<rparr>)"

definition break_unregister :: "nat option \<Rightarrow> delivery \<Rightarrow> delivery" where
  "break_unregister ch t =
     t\<lparr>dv_s := (dv_s t)\<lparr>sg_breakCh := None\<rparr>, dv_breakCanceled := True, dv_breakConfig := Unregistered ch\<rparr>"

definition break_register :: "nat option \<Rightarrow> delivery \<Rightarrow> delivery" where
  "break_register ch t =
     t\<lparr>dv_s := (case ch of None \<Rightarrow> dv_s t | Some c \<Rightarrow> (dv_s t)\<lparr>sg_breakCh := Some c\<rparr>), dv_breakConfig := Idle, dv_breakRegistered := ch\<rparr>"

section \<open>All interleavings\<close>

text \<open>
  The request loop handles one request at a time. A send is canceled only when its cancel channel is closed; the application may
  take a value, close its channel or let it be, and the context may end, at any time. \<open>dv_stop\<close> and
  \<open>dv_break_stop\<close> are the calls of \<open>Exit\<close>.
\<close>

inductive delivery_step :: "delivery \<Rightarrow> delivery \<Rightarrow> bool" where
  dv_signal: "dv_send t = None \<Longrightarrow> dv_breakSend t = None \<Longrightarrow> delivery_step t (snd (signal_begin sig t))"
| dv_signal_sent: "dv_send t = Some (c, sig) \<Longrightarrow> (outcome = Canceled \<Longrightarrow> dv_sendCanceled t) \<Longrightarrow>
    delivery_step t (snd (signal_end outcome c sig t))"
| dv_break: "dv_send t = None \<Longrightarrow> dv_breakSend t = None \<Longrightarrow> delivery_step t (snd (break_begin t))"
| dv_break_sent: "dv_breakSend t = Some c \<Longrightarrow> (outcome = Canceled \<Longrightarrow> dv_breakCanceled t) \<Longrightarrow>
    delivery_step t (snd (break_end outcome c t))"
| dv_take: "delivery_step t (t\<lparr>dv_s := drain_take (dv_s t)\<rparr>)"
| dv_drain: "(outcome = Canceled \<Longrightarrow> dv_drainCanceled t) \<Longrightarrow> delivery_step t (t\<lparr>dv_s := drain_send outcome (dv_s t)\<rparr>)"
| dv_exiting: "delivery_step t (t\<lparr>dv_s := (dv_s t)\<lparr>sg_exiting := True\<rparr>\<rparr>)"
| dv_signals: "dv_config t = Idle \<Longrightarrow> delivery_step t (Signals_begin ch t)"
| dv_stop: "dv_config t = Idle \<Longrightarrow> delivery_step t (t\<lparr>dv_config := Checked None\<rparr>)"
| dv_cancel: "dv_config t = Checked ch \<Longrightarrow> delivery_step t (signals_cancel ch t)"
| dv_drained: "dv_config t = Draining ch \<Longrightarrow> sg_drain (dv_s t) = None \<Longrightarrow> delivery_step t (signals_unregister ch t)"
| dv_register: "dv_config t = Unregistered ch \<Longrightarrow> dv_send t = None \<Longrightarrow> delivery_step t (signals_register ch t)"
| dv_breaks: "dv_breakConfig t = Idle \<Longrightarrow> delivery_step t (Break_begin ch t)"
| dv_break_stop: "dv_breakConfig t = Idle \<Longrightarrow> delivery_step t (t\<lparr>dv_breakConfig := Checked None\<rparr>)"
| dv_break_cancel: "dv_breakConfig t = Checked ch \<Longrightarrow> delivery_step t (break_unregister ch t)"
| dv_break_register: "dv_breakConfig t = Unregistered ch \<Longrightarrow> dv_breakSend t = None \<Longrightarrow> delivery_step t (break_register ch t)"

lemmas delivery_defs = signal_begin_def signal_end_def break_begin_def break_end_def Signals_begin_def signals_unregister_def
  signals_cancel_def signals_register_def Break_begin_def break_unregister_def break_register_def Let_def

section \<open>Where signals go\<close>

text \<open>Signals go to the channel registered last; so do breaks.\<close>

definition signals_to_registered :: "delivery \<Rightarrow> bool" where
  "signals_to_registered t \<longleftrightarrow> (let s = dv_s t in
     (sg_sigCh s = None \<or> sg_sigCh s = dv_registered t)
     \<and> (case sg_drain s of Some (c, _) \<Rightarrow> dv_registered t = Some c | None \<Rightarrow> True)
     \<and> (case dv_send t of Some (c, _) \<Rightarrow> dv_registered t = Some c | None \<Rightarrow> True))"

definition breaks_to_registered :: "delivery \<Rightarrow> bool" where
  "breaks_to_registered t \<longleftrightarrow>
     (sg_breakCh (dv_s t) = None \<or> sg_breakCh (dv_s t) = dv_breakRegistered t)
     \<and> (dv_breakSend t = None \<or> dv_breakSend t = dv_breakRegistered t)"

text \<open>What a send in flight, a drain and a registration under way say about the channel.\<close>

definition signals_ok :: "delivery \<Rightarrow> bool" where
  "signals_ok t \<longleftrightarrow> (let s = dv_s t in
     (sg_sigCh s \<noteq> None \<longrightarrow> sg_drain s = None)
     \<and> (dv_send t \<noteq> None \<longrightarrow> sg_drain s = None \<and> dv_breakSend t = None \<and> length (snd (the (dv_send t))) \<le> maxSessionSignalBytes
          \<and> (sg_sigCh s = None \<longrightarrow> dv_sendCanceled t \<and> (\<exists>ch. dv_config t = Unregistered ch)))
     \<and> (case dv_config t of
          Draining _ \<Rightarrow> (sg_drain s \<noteq> None \<longrightarrow> dv_drainCanceled t)
        | Unregistered _ \<Rightarrow> sg_sigCh s = None \<and> sg_drain s = None
        | _ \<Rightarrow> True))"

definition breaks_ok :: "delivery \<Rightarrow> bool" where
  "breaks_ok t \<longleftrightarrow>
     (dv_breakSend t \<noteq> None \<longrightarrow> dv_send t = None \<and>
        (sg_breakCh (dv_s t) = None \<longrightarrow> dv_breakCanceled t \<and> (\<exists>ch. dv_breakConfig t = Unregistered ch)))
     \<and> (case dv_breakConfig t of Unregistered _ \<Rightarrow> sg_breakCh (dv_s t) = None | Draining _ \<Rightarrow> False | _ \<Rightarrow> True)"

definition delivery_inv :: "delivery \<Rightarrow> bool" where
  "delivery_inv t \<longleftrightarrow> signals_ok t \<and> breaks_ok t \<and> signals_to_registered t \<and> breaks_to_registered t"

lemmas delivery_inv_defs = delivery_inv_def signals_ok_def breaks_ok_def signals_to_registered_def breaks_to_registered_def Let_def

lemma signals_ok_step: "delivery_step t u \<Longrightarrow> delivery_inv t \<Longrightarrow> signals_ok u"
proof (induction rule: delivery_step.induct)
  case (dv_signal t sig)
  then show ?case by (auto simp: delivery_inv_defs delivery_defs split: if_splits option.splits registration.splits)
next
  case (dv_signal_sent t c sig outcome)
  then show ?case by (auto simp: delivery_inv_defs delivery_defs split: registration.splits)
next
  case (dv_take t)
  then show ?case
    by (auto simp: delivery_inv_defs drain_take_def split: option.splits list.splits registration.splits)
next
  case (dv_drain outcome t)
  then show ?case
    by (cases outcome) (auto simp: delivery_inv_defs drain_send_def requeueSignals_def split: option.splits list.splits registration.splits)
next
  case (dv_cancel t ch)
  then show ?case by (auto simp: delivery_inv_defs delivery_defs)
next
  case (dv_drained t ch)
  then show ?case by (auto simp: delivery_inv_defs delivery_defs)
next
  case (dv_register t ch)
  then show ?case by (auto simp: delivery_inv_defs delivery_defs split: option.splits)
qed (auto simp: delivery_inv_defs delivery_defs split: option.splits registration.splits)

lemma breaks_ok_step: "delivery_step t u \<Longrightarrow> breaks_ok t \<Longrightarrow> breaks_ok u"
proof (induction rule: delivery_step.induct)
  case (dv_signal t sig)
  then show ?case by (auto simp: breaks_ok_def signal_begin_def Let_def split: if_splits option.splits registration.splits)
next
  case (dv_take t)
  then show ?case by (auto simp: breaks_ok_def drain_take_def Let_def split: option.splits list.splits registration.splits)
next
  case (dv_drain outcome t)
  then show ?case
    by (cases outcome) (auto simp: breaks_ok_def drain_send_def requeueSignals_def Let_def split: option.splits list.splits registration.splits)
next
  case (dv_cancel t ch)
  then show ?case by (auto simp: breaks_ok_def signals_cancel_def signals_unregister_def split: registration.splits)
next
  case (dv_register t ch)
  then show ?case by (auto simp: breaks_ok_def signals_register_def Let_def split: option.splits registration.splits)
next
  case (dv_break_register t ch)
  then show ?case by (auto simp: breaks_ok_def break_register_def split: option.splits registration.splits)
qed (auto simp: breaks_ok_def signal_end_def break_begin_def break_end_def Signals_begin_def signals_unregister_def
      Break_begin_def break_unregister_def Let_def split: option.splits registration.splits)

lemma breaks_registered_step:
  "delivery_step t u \<Longrightarrow> breaks_ok t \<Longrightarrow> breaks_to_registered t \<Longrightarrow> breaks_to_registered u"
proof (induction rule: delivery_step.induct)
  case (dv_take t)
  then show ?case by (auto simp: breaks_to_registered_def drain_take_def Let_def split: option.splits list.splits)
next
  case (dv_drain outcome t)
  then show ?case
    by (cases outcome) (auto simp: breaks_to_registered_def drain_send_def requeueSignals_def Let_def split: option.splits list.splits)
next
  case (dv_break_register t ch)
  then show ?case by (auto simp: breaks_to_registered_def breaks_ok_def break_register_def split: option.splits)
qed (auto simp: breaks_to_registered_def delivery_defs split: option.splits)

lemma signals_registered_step:
  "delivery_step t u \<Longrightarrow> signals_ok t \<Longrightarrow> signals_to_registered t \<Longrightarrow> signals_to_registered u"
proof (induction rule: delivery_step.induct)
  case (dv_take t)
  then show ?case by (auto simp: signals_to_registered_def drain_take_def Let_def split: option.splits list.splits)
next
  case (dv_drain outcome t)
  then show ?case
    by (cases outcome) (auto simp: signals_to_registered_def drain_send_def requeueSignals_def Let_def split: option.splits list.splits)
next
  case (dv_register t ch)
  then show ?case by (auto simp: signals_to_registered_def signals_ok_def signals_register_def Let_def split: option.splits)
qed (auto simp: signals_to_registered_def delivery_defs split: option.splits)

lemma delivery_inv_step: "delivery_step t u \<Longrightarrow> delivery_inv t \<Longrightarrow> delivery_inv u"
  using signals_ok_step breaks_ok_step signals_registered_step breaks_registered_step by (simp add: delivery_inv_def)

section \<open>The coarse steps are implemented\<close>

text \<open>
  A request takes effect when its send ends, an unregistration when no send is in flight any more: until then the channel still counts
  as registered, and \<open>exiting\<close>, which has come too late for the request, as not set.
\<close>

definition coarse_state :: "delivery \<Rightarrow> sigstate" where
  "coarse_state t = (dv_s t)
     \<lparr>sg_sigCh := (case dv_send t of Some (c, _) \<Rightarrow> Some c | None \<Rightarrow> sg_sigCh (dv_s t)),
      sg_breakCh := (case dv_breakSend t of Some c \<Rightarrow> Some c | None \<Rightarrow> sg_breakCh (dv_s t)),
      sg_exiting := (sg_exiting (dv_s t) \<and> dv_send t = None)\<rparr>"

lemma set_same [simp]:
  "sg_sigCh s = x \<Longrightarrow> s\<lparr>sg_sigCh := x\<rparr> = s" "sg_breakCh s = x \<Longrightarrow> s\<lparr>sg_breakCh := x\<rparr> = s"
  "sg_exiting s = b \<Longrightarrow> s\<lparr>sg_exiting := b\<rparr> = s"
  by auto

lemma coarse_fields [simp]:
  "sg_sigBuf (coarse_state t) = sg_sigBuf (dv_s t)" "sg_drain (coarse_state t) = sg_drain (dv_s t)"
  "sg_accepted (coarse_state t) = sg_accepted (dv_s t)" "sg_delivered (coarse_state t) = sg_delivered (dv_s t)"
  "sg_lost (coarse_state t) = sg_lost (dv_s t)" "held_signals (coarse_state t) = held_signals (dv_s t)"
  by (simp_all add: coarse_state_def held_signals_def)

lemma drain_break_frame [simp]:
  "drain_take (s\<lparr>sg_breakCh := b\<rparr>) = (drain_take s)\<lparr>sg_breakCh := b\<rparr>"
  "drain_send outcome (s\<lparr>sg_breakCh := b\<rparr>) = (drain_send outcome s)\<lparr>sg_breakCh := b\<rparr>"
  "sg_breakCh (drain_take s) = sg_breakCh s" "sg_breakCh (drain_send outcome s) = sg_breakCh s"
  by (cases outcome; auto simp: drain_take_def drain_send_def requeueSignals_def Let_def split: option.splits list.splits)+

lemma drain_idle [simp]:
  "sg_drain s = None \<Longrightarrow> drain_take s = s" "sg_drain s = None \<Longrightarrow> drain_send outcome s = s"
  by (simp_all add: drain_take_def drain_send_def)

lemma coarse_no_send:
  "dv_send t = None \<Longrightarrow> coarse_state t = (dv_s t)\<lparr>sg_breakCh := (case dv_breakSend t of Some c \<Rightarrow> Some c | None \<Rightarrow> sg_breakCh (dv_s t))\<rparr>"
  by (simp add: coarse_state_def)

lemma coarse_drained:
  assumes "signals_ok t" "s' = drain_take (dv_s t) \<or> s' = drain_send outcome (dv_s t)"
  shows "signal_step\<^sup>*\<^sup>* (coarse_state t) (coarse_state (t\<lparr>dv_s := s'\<rparr>))"
proof (cases "dv_send t")
  case None
  then show ?thesis using assms(2) sig_take [of "coarse_state t"] sig_send [of "coarse_state t" outcome]
    by (auto simp: coarse_no_send split: option.splits)
next
  case (Some x)
  then have "sg_drain (dv_s t) = None" using assms(1) by (simp add: signals_ok_def Let_def)
  then show ?thesis using assms(2) by auto
qed

lemma coarse_signal_sent:
  assumes "delivery_inv t" "dv_send t = Some (c, sig)"
  shows "signal_step\<^sup>*\<^sup>* (coarse_state t) (coarse_state (snd (signal_end outcome c sig t)))"
proof -
  let ?s = "dv_s t" and ?u = "coarse_state (snd (signal_end outcome c sig t))"
  let ?a = "snd (handleSignal outcome sig (coarse_state t))"
  let ?b = "if sg_exiting ?s then ?a\<lparr>sg_exiting := True\<rparr> else ?a"
  have t: "length sig \<le> maxSessionSignalBytes" "sg_drain ?s = None" "dv_breakSend t = None" "sg_sigCh ?s = None \<or> sg_sigCh ?s = Some c"
    using assms by (auto simp: delivery_inv_defs)
  have "signal_step (coarse_state t) ?a" by (rule sig_request)
  also have "signal_step\<^sup>*\<^sup>* ?a ?b" using sig_exiting [of ?a] by auto
  also have "signal_step\<^sup>*\<^sup>* ?b ?u"
  proof (cases "sg_sigCh ?s = None")
    case True
    have "sg_drain ?b = None" using t assms(2) by (cases outcome) (simp_all add: handleSignal_def coarse_state_def)
    moreover have "?u = setSignalChannelLocked None ?b"
      using t assms(2) True
      by (cases outcome) (simp_all add: handleSignal_def coarse_state_def signal_end_def setSignalChannelLocked_def Let_def)
    ultimately show ?thesis using sig_register [of ?b None] by auto
  next
    case False
    then have "?u = ?b"
      using t assms(2) by (cases outcome) (auto simp: handleSignal_def coarse_state_def signal_end_def Let_def)
    then show ?thesis by simp
  qed
  finally show ?thesis .
qed

lemma coarse_break_sent:
  assumes "delivery_inv t" "dv_breakSend t = Some c"
  shows "signal_step\<^sup>*\<^sup>* (coarse_state t) (coarse_state (snd (break_end outcome c t)))"
proof -
  let ?s = "dv_s t" and ?u = "coarse_state (snd (break_end outcome c t))"
  let ?a = "snd (deliverBreak outcome (coarse_state t))"
  have t: "dv_send t = None" "sg_breakCh ?s = None \<or> sg_breakCh ?s = Some c" using assms by (auto simp: delivery_inv_defs)
  have "signal_step (coarse_state t) ?a" by (rule sig_break_sent)
  also have "signal_step\<^sup>*\<^sup>* ?a ?u"
  proof (cases "sg_breakCh ?s = None")
    case True
    have "?u = setBreakChannelLocked None ?a"
      using t assms(2) True by (cases outcome) (simp_all add: deliverBreak_def coarse_state_def break_end_def setBreakChannelLocked_def Let_def)
    then show ?thesis using sig_break [of ?a None] by auto
  next
    case False
    then have "?u = ?a" using t assms(2) by (cases outcome) (auto simp: deliverBreak_def coarse_state_def break_end_def Let_def)
    then show ?thesis by simp
  qed
  finally show ?thesis .
qed

lemma coarse_unregister:
  assumes "sg_drain (dv_s t) = None" "dv_send t \<noteq> None \<longrightarrow> dv_breakSend t = None"
  shows "signal_step\<^sup>*\<^sup>* (coarse_state t) (coarse_state (signals_unregister ch t))"
proof (cases "dv_send t")
  case None
  have "sg_drain (coarse_state t) = None" using assms(1) by (simp add: coarse_state_def)
  from sig_register [OF this, of None] have "signal_step\<^sup>*\<^sup>* (coarse_state t) (setSignalChannelLocked None (coarse_state t))" by blast
  moreover have "setSignalChannelLocked None (coarse_state t) = coarse_state (signals_unregister ch t)"
    by (rule sigstate.equality) (simp_all add: None coarse_state_def signals_unregister_def setSignalChannelLocked_def split: option.splits)
  ultimately show ?thesis by simp
qed (auto simp: coarse_state_def signals_unregister_def split: option.splits)

lemma coarse_step: "delivery_step t u \<Longrightarrow> delivery_inv t \<Longrightarrow> signal_step\<^sup>*\<^sup>* (coarse_state t) (coarse_state u)"
proof (induction rule: delivery_step.induct)
  case (dv_signal t sig)
  have "coarse_state t = dv_s t" using dv_signal by (simp add: coarse_state_def)
  then show ?case using dv_signal sig_request [of "dv_s t" Canceled sig]
    by (cases "sg_sigCh (dv_s t)") (auto simp: signal_begin_def handleSignal_def coarse_state_def Let_def split: if_splits)
next
  case (dv_break t)
  then show ?case by (cases "sg_breakCh (dv_s t)") (simp_all add: break_begin_def coarse_state_def)
next
  case (dv_signal_sent t c sig outcome)
  then show ?case by (simp add: coarse_signal_sent)
next
  case (dv_break_sent t c outcome)
  then show ?case by (simp add: coarse_break_sent)
next
  case (dv_take t)
  then show ?case using coarse_drained by (simp add: delivery_inv_def)
next
  case (dv_drain outcome t)
  then show ?case using coarse_drained [of t "drain_send outcome (dv_s t)" outcome] by (simp add: delivery_inv_def)
next
  case (dv_exiting t)
  have "coarse_state (t\<lparr>dv_s := (dv_s t)\<lparr>sg_exiting := True\<rparr>\<rparr>)
      = (if dv_send t = None then (coarse_state t)\<lparr>sg_exiting := True\<rparr> else coarse_state t)"
    by (rule sigstate.equality) (auto simp: coarse_state_def split: option.splits)
  then show ?case using sig_exiting [of "coarse_state t"] by auto
next
  case (dv_cancel t ch)
  have "coarse_state (t\<lparr>dv_drainCanceled := True, dv_config := Draining ch\<rparr>) = coarse_state t"
    by (rule sigstate.equality) (simp_all add: coarse_state_def split: option.splits)
  moreover have "dv_send t \<noteq> None \<longrightarrow> dv_breakSend t = None" using dv_cancel by (simp add: delivery_inv_def signals_ok_def Let_def)
  ultimately show ?case using coarse_unregister [of t ch] by (cases "sg_drain (dv_s t)") (simp_all add: signals_cancel_def)
next
  case (dv_drained t ch)
  then show ?case using coarse_unregister [of t ch] by (simp add: delivery_inv_defs)
next
  case (dv_register t ch)
  then have "sg_drain (coarse_state t) = None" "sg_sigCh (dv_s t) = None" by (auto simp: delivery_inv_defs coarse_state_def)
  moreover from this dv_register have "coarse_state (signals_register ch t) = setSignalChannelLocked ch (coarse_state t)"
    by (intro sigstate.equality) (auto simp: coarse_no_send signals_register_def setSignalChannelLocked_def Let_def split: option.splits)
  ultimately show ?case using sig_register [of "coarse_state t" ch] by auto
next
  case (dv_break_cancel t ch)
  have "coarse_state (break_unregister ch t)
      = (if dv_breakSend t = None then setBreakChannelLocked None (coarse_state t) else coarse_state t)"
    by (rule sigstate.equality) (auto simp: coarse_state_def break_unregister_def setBreakChannelLocked_def split: option.splits)
  then show ?case using sig_break [of "coarse_state t" None] by auto
next
  case (dv_break_register t ch)
  then have "sg_breakCh (dv_s t) = None" by (simp add: delivery_inv_def breaks_ok_def)
  with dv_break_register(2) have "coarse_state (break_register ch t) = setBreakChannelLocked ch (coarse_state t)"
    by (intro sigstate.equality) (auto simp: coarse_state_def break_register_def setBreakChannelLocked_def split: option.splits)
  then show ?case using sig_break [of "coarse_state t" ch] by auto
qed (auto simp: coarse_state_def Signals_begin_def Break_begin_def split: option.splits)

interpretation delivery: refining_steps delivery_step delivery_inv signal_step coarse_state
  by unfold_locales (blast intro: delivery_inv_step coarse_step)+

lemma no_delivery_inv: "delivery_inv no_delivery"
  by (simp add: delivery_inv_defs no_delivery_def no_signals_def)

lemma delivery_reachable: "delivery_step\<^sup>*\<^sup>* no_delivery t \<Longrightarrow> delivery_inv t"
  using delivery.steps_keep no_delivery_inv by blast

text \<open>
  C13. The sections implement the steps of \<open>SessionSignals\<close>: however requests, sends, drains, registrations and
  the end of the session interleave between their sections, what a session has done is what it could have done if
  each request and each registration had happened at once.
\<close>

theorem delivery_refines_signals:
  assumes "delivery_step\<^sup>*\<^sup>* no_delivery t"
  shows "signal_step\<^sup>*\<^sup>* no_signals (coarse_state t)"
  using delivery.steps_refine [OF assms no_delivery_inv] by (simp add: coarse_state_def no_delivery_def)

text \<open>A send in flight to a channel that is being replaced, after \<open>Exit\<close> has begun.\<close>

abbreviation replaced_delivery :: delivery where
  "replaced_delivery \<equiv> no_delivery\<lparr>dv_s := no_signals\<lparr>sg_exiting := True\<rparr>, dv_send := Some (1, ''TERM''), dv_sendCanceled := True,
     dv_registered := Some 1, dv_config := Unregistered (Some 2)\<rparr>"

lemma replaced_reached: "delivery_step\<^sup>*\<^sup>* no_delivery replaced_delivery"
proof -
  let ?a = "no_delivery\<lparr>dv_config := Checked (Some 1)\<rparr>"
  let ?b = "no_delivery\<lparr>dv_config := Unregistered (Some 1), dv_sendCanceled := True\<rparr>"
  let ?c = "no_delivery\<lparr>dv_s := no_signals\<lparr>sg_sigCh := Some 1\<rparr>, dv_registered := Some 1, dv_sendCanceled := True\<rparr>"
  let ?d = "?c\<lparr>dv_send := Some (1, ''TERM''), dv_sendCanceled := False\<rparr>"
  let ?e = "?d\<lparr>dv_config := Checked (Some 2)\<rparr>"
  let ?f = "?e\<lparr>dv_s := no_signals\<lparr>sg_sigCh := Some 1, sg_exiting := True\<rparr>\<rparr>"
  have "delivery_step no_delivery ?a" using dv_signals [of no_delivery "Some 1"] by (simp add: Signals_begin_def no_delivery_def no_signals_def)
  moreover have "delivery_step ?a ?b" using dv_cancel [of ?a "Some 1"]
    by (simp add: signals_cancel_def signals_unregister_def no_delivery_def no_signals_def)
  moreover have "delivery_step ?b ?c" using dv_register [of ?b "Some 1"]
    by (simp add: signals_register_def no_delivery_def no_signals_def Let_def)
  moreover have "delivery_step ?c ?d" using dv_signal [of ?c "''TERM''"]
    by (simp add: signal_begin_def no_delivery_def no_signals_def Let_def)
  moreover have "delivery_step ?d ?e" using dv_signals [of ?d "Some 2"]
    by (simp add: Signals_begin_def no_delivery_def no_signals_def)
  moreover have "delivery_step ?e ?f" using dv_exiting [of ?e] by (simp add: no_delivery_def no_signals_def)
  moreover have "delivery_step ?f replaced_delivery" using dv_cancel [of ?f "Some 2"]
    by (simp add: signals_cancel_def signals_unregister_def no_delivery_def no_signals_def)
  ultimately show ?thesis by (meson converse_rtranclp_into_rtranclp rtranclp.rtrancl_refl)
qed

theorem delivery_refines_signals_witness:
  "signal_step\<^sup>*\<^sup>* no_signals (no_signals\<lparr>sg_sigCh := Some 1\<rparr>)"
  using delivery_refines_signals [OF replaced_reached] by (simp add: coarse_state_def no_delivery_def no_signals_def)

section \<open>What the application receives\<close>

text \<open>
  C12. However the sections interleave: the application receives signals in the order they were acknowledged and none
  twice; the session never holds more than two buffers of 128 signals, each of at most 64 bytes; when none was dropped, what was
  delivered and what is still held is exactly what was acknowledged. Signals and breaks are sent only to the channel
  whose registration finished last, so that an application may close a channel once it has unregistered it.
\<close>

theorem signals_reach_the_registered_channel:
  assumes "delivery_step\<^sup>*\<^sup>* no_delivery t"
  shows "let s = dv_s t in
     subseq (sg_delivered s) (sg_accepted s) \<and> length (sg_sigBuf s) \<le> 128 \<and> length (held_signals s) \<le> 256
     \<and> list_all (\<lambda>x. length x \<le> 64) (held_signals s)
     \<and> (if sg_lost s = [] then sg_delivered s @ held_signals s = sg_accepted s else True)
     \<and> signals_to_registered t \<and> breaks_to_registered t"
proof -
  have coarse: "signal_step\<^sup>*\<^sup>* no_signals (coarse_state t)"
    using delivery.steps_refine [OF assms no_delivery_inv] by (simp add: coarse_state_def no_delivery_def)
  then show ?thesis using signals_ordered [OF coarse] delivery_reachable [OF assms]
    by (auto simp: delivery_inv_def Let_def split: if_splits)
qed

theorem signals_reach_the_registered_channel_witness:
  "signals_to_registered replaced_delivery \<and> \<not> signals_to_registered (replaced_delivery\<lparr>dv_registered := Some 2\<rparr>)"
  using signals_reach_the_registered_channel [OF replaced_reached] by (simp add: Let_def signals_to_registered_def)

section \<open>Registrations finish\<close>

text \<open>
  The steps that need neither the application nor the client: the sections of registrations, and sends and drains that are
  canceled.
\<close>

inductive config_step :: "delivery \<Rightarrow> delivery \<Rightarrow> bool" where
  cs_cancel: "dv_config t = Checked ch \<Longrightarrow> config_step t (signals_cancel ch t)"
| cs_take: "dv_config t = Draining ch \<Longrightarrow> sg_drain (dv_s t) = Some (c, []) \<Longrightarrow> config_step t (t\<lparr>dv_s := drain_take (dv_s t)\<rparr>)"
| cs_drain: "dv_config t = Draining ch \<Longrightarrow> dv_drainCanceled t \<Longrightarrow> sg_drain (dv_s t) = Some (c, sig # rest) \<Longrightarrow>
    config_step t (t\<lparr>dv_s := drain_send Canceled (dv_s t)\<rparr>)"
| cs_drained: "dv_config t = Draining ch \<Longrightarrow> sg_drain (dv_s t) = None \<Longrightarrow> config_step t (signals_unregister ch t)"
| cs_sent: "dv_send t = Some (c, sig) \<Longrightarrow> dv_sendCanceled t \<Longrightarrow> config_step t (snd (signal_end Canceled c sig t))"
| cs_register: "dv_config t = Unregistered ch \<Longrightarrow> dv_send t = None \<Longrightarrow> config_step t (signals_register ch t)"
| cs_break_cancel: "dv_breakConfig t = Checked ch \<Longrightarrow> config_step t (break_unregister ch t)"
| cs_break_sent: "dv_breakSend t = Some c \<Longrightarrow> dv_breakCanceled t \<Longrightarrow> config_step t (snd (break_end Canceled c t))"
| cs_break_register: "dv_breakConfig t = Unregistered ch \<Longrightarrow> dv_breakSend t = None \<Longrightarrow> config_step t (break_register ch t)"

lemma config_step_possible: "config_step t u \<Longrightarrow> delivery_step t u"
  by (induction rule: config_step.induct) (auto intro: delivery_step.intros)

fun config_left :: "registration \<Rightarrow> nat" where
  "config_left Idle = 0"
| "config_left (Unregistered _) = 3"
| "config_left (Draining _) = 6"
| "config_left (Checked _) = 9"

definition drain_left :: "sigstate \<Rightarrow> nat" where
  "drain_left s = (case sg_drain s of None \<Rightarrow> 0 | Some (_, batch) \<Rightarrow> if batch = [] then 2 else 1)"

definition delivery_left :: "delivery \<Rightarrow> nat" where
  "delivery_left t = config_left (dv_config t) + drain_left (dv_s t) + (if dv_send t = None then 0 else 1)
     + config_left (dv_breakConfig t) + (if dv_breakSend t = None then 0 else 1)"

lemma config_step_works: "config_step t u \<Longrightarrow> delivery_left u < delivery_left t"
proof (induction rule: config_step.induct)
  case (cs_take t ch c)
  then show ?case by (auto simp: delivery_left_def drain_left_def drain_take_def Let_def)
next
  case (cs_drain t ch c sig rest)
  then show ?case by (auto simp: delivery_left_def drain_left_def drain_send_def requeueSignals_def Let_def)
qed (auto simp: delivery_left_def drain_left_def delivery_defs split: option.splits)

lemma config_step_quiet: "config_step t u \<Longrightarrow> sg_delivered (dv_s u) = sg_delivered (dv_s t)"
  by (induction rule: config_step.induct)
    (auto simp: drain_take_def drain_send_def requeueSignals_def delivery_defs split: option.splits list.splits)

interpretation configs: ending_steps config_step delivery_inv delivery_left "\<lambda>t. dv_config t = Idle \<and> dv_breakConfig t = Idle"
proof unfold_locales
  fix t
  assume inv: "delivery_inv t" and busy: "\<not> (dv_config t = Idle \<and> dv_breakConfig t = Idle)"
  show "\<exists>u. config_step t u"
  proof (cases "dv_config t")
    case Idle
    show ?thesis
    proof (cases "dv_breakConfig t")
      case (Unregistered ch)
      then have "dv_breakSend t \<noteq> None \<longrightarrow> dv_breakCanceled t" using inv by (auto simp: delivery_inv_def breaks_ok_def)
      then show ?thesis using Unregistered cs_break_sent cs_break_register by (cases "dv_breakSend t") blast+
    qed (use busy Idle inv cs_break_cancel in \<open>auto simp: delivery_inv_def breaks_ok_def\<close>)
  next
    case (Checked ch)
    then show ?thesis using cs_cancel by blast
  next
    case (Draining ch)
    show ?thesis
    proof (cases "sg_drain (dv_s t)")
      case (Some d)
      then obtain c batch where "sg_drain (dv_s t) = Some (c, batch)" by (cases d) simp
      moreover have "dv_drainCanceled t" using inv Draining Some by (auto simp: delivery_inv_defs)
      ultimately show ?thesis using Draining cs_take cs_drain by (cases batch) blast+
    qed (use Draining cs_drained in blast)
  next
    case (Unregistered ch)
    then have "dv_send t \<noteq> None \<longrightarrow> dv_sendCanceled t" using inv by (auto simp: delivery_inv_def signals_ok_def Let_def)
    then show ?thesis using Unregistered cs_register cs_sent by (cases "dv_send t") fastforce+
  qed
qed (blast intro: config_step_works delivery_inv_step config_step_possible)+

lemma configs_steps:
  "config_step\<^sup>*\<^sup>* t u \<Longrightarrow> delivery_step\<^sup>*\<^sup>* t u \<and> sg_delivered (dv_s u) = sg_delivered (dv_s t)"
  by (induction rule: rtranclp_induct)
    (auto simp: config_step_quiet intro: rtranclp.rtrancl_into_rtrancl config_step_possible)

text \<open>
  C14. \<open>Signals\<close>, \<open>Break\<close> and \<open>Exit\<close> do not wait for an application that reads none of its channels: from every state in which
  registrations are under way they can finish, without a signal delivered meanwhile and without another
  request, and every step towards that reduces the work that is left.
\<close>

theorem registrations_finish:
  assumes "delivery_step\<^sup>*\<^sup>* no_delivery t"
  shows "(\<exists>u. delivery_step\<^sup>*\<^sup>* t u \<and> dv_config u = Idle \<and> dv_breakConfig u = Idle \<and> sg_delivered (dv_s u) = sg_delivered (dv_s t))
    \<and> (\<forall>u. config_step t u \<longrightarrow> delivery_left u < delivery_left t)"
  using configs.steps_end [OF delivery_reachable [OF assms]] configs_steps config_step_works by blast

theorem registrations_finish_witness:
  "\<exists>u. delivery_step\<^sup>*\<^sup>* replaced_delivery u \<and> dv_config u = Idle \<and> sg_delivered (dv_s u) = []"
  using registrations_finish [OF replaced_reached] by (auto simp: no_delivery_def no_signals_def)
end
