(* ===== verification/HostPort.thy ===== *)
theory HostPort
  imports GoErrors
begin

text \<open>
  The parts of Go's \<open>net\<close> and \<open>strconv\<close> with which \<open>tcpip.go\<close> names its forwards: \<open>JoinHostPort\<close>,
  \<open>SplitHostPort\<close>, decimal numbers. A forward is found again by the string that \<open>JoinHostPort\<close> makes of its
  address and port, so what matters is that different binds have different names.
\<close>

section \<open>Decimal numbers\<close>

definition digit :: "nat \<Rightarrow> char" where
  "digit n = char_of (48 + n)"

fun formatUint :: "nat \<Rightarrow> string" where
  "formatUint n = (if n < 10 then [digit n] else formatUint (n div 10) @ [digit (n mod 10)])"

declare formatUint.simps [simp del]

definition is_digit :: "char \<Rightarrow> bool" where
  "is_digit ch \<longleftrightarrow> 48 \<le> (of_char ch :: nat) \<and> (of_char ch :: nat) \<le> 57"

definition digits_value :: "string \<Rightarrow> nat" where
  "digits_value s = foldl (\<lambda>n ch. 10 * n + (of_char ch - 48)) 0 s"

text \<open>\<open>strconv.ParseUint(s, 10, 16)\<close>.\<close>

definition parsePort :: "string \<Rightarrow> nat option" where
  "parsePort s = (if s = [] \<or> \<not> list_all is_digit s \<or> digits_value s > 65535 then None else Some (digits_value s))"

lemma of_char_digit [simp]: "n < 10 \<Longrightarrow> of_char (digit n) = 48 + n"
  by (simp add: digit_def)

lemma is_digit_digit [simp]: "n < 10 \<Longrightarrow> is_digit (digit n)"
  by (simp add: is_digit_def)

lemma formatUint_digits: "list_all is_digit (formatUint n)"
proof (induction n rule: formatUint.induct)
  case (1 n)
  then show ?case by (cases "n < 10") (auto simp: formatUint.simps [of n])
qed

lemma formatUint_not_Nil [simp]: "formatUint n \<noteq> []"
  by (simp add: formatUint.simps [of n])

lemma digits_value_append: "digits_value (s @ [ch]) = 10 * digits_value s + (of_char ch - 48)"
  by (simp add: digits_value_def)

lemma digits_value_format: "digits_value (formatUint n) = n"
proof (induction n rule: formatUint.induct)
  case (1 n)
  show ?case
  proof (cases "n < 10")
    case True
    then show ?thesis by (simp add: formatUint.simps [of n] digits_value_def)
  next
    case False
    then show ?thesis using 1 by (simp add: formatUint.simps [of n] digits_value_append)
  qed
qed

lemma parsePort_format: "parsePort (formatUint n) = (if n \<le> 65535 then Some n else None)"
  by (auto simp: parsePort_def formatUint_digits digits_value_format)

section \<open>Addresses\<close>

abbreviation colon :: char where "colon \<equiv> CHR '':''"
abbreviation lbracket :: char where "lbracket \<equiv> CHR ''[''"
abbreviation rbracket :: char where "rbracket \<equiv> CHR '']''"

definition joinHostPort :: "string \<Rightarrow> string \<Rightarrow> string" where
  "joinHostPort host port =
     (if colon \<in> set host then [lbracket] @ host @ [rbracket, colon] @ port else host @ [colon] @ port)"

text \<open>The parts of a string before and after its last colon, \<open>None\<close> without one.\<close>

fun split_last_colon :: "string \<Rightarrow> (string \<times> string) option" where
  "split_last_colon [] = None"
| "split_last_colon (ch # s) =
     (case split_last_colon s of
        Some (host, port) \<Rightarrow> Some (ch # host, port)
      | None \<Rightarrow> if ch = colon then Some ([], s) else None)"

text \<open>
  \<open>net.SplitHostPort\<close>: \<open>before\<close> is what precedes the last colon. An address in brackets must have its
  closing bracket right before that colon.
\<close>

definition addrError :: "string \<Rightarrow> string \<Rightarrow> gerr" where
  "addrError why addr = Errorf why [AStr addr]"

definition splitHostPort :: "string \<Rightarrow> gerr + string \<times> string" where
  "splitHostPort s = (case split_last_colon s of
     None \<Rightarrow> Inl (addrError ''missing port in address'' s)
   | Some (before, port) \<Rightarrow>
       if s \<noteq> [] \<and> hd s = lbracket then
         (if rbracket \<notin> set s then Inl (addrError ''missing ']' in address'' s)
          else
            (let host = takeWhile (\<lambda>ch. ch \<noteq> rbracket) (tl s);
                 rest = tl (dropWhile (\<lambda>ch. ch \<noteq> rbracket) s)
             in if rest = [] then Inl (addrError ''missing port in address'' s)
                else if rest \<noteq> colon # port then
                  Inl (addrError (if hd rest = colon then ''too many colons in address'' else ''missing port in address'') s)
                else if lbracket \<in> set (tl s) then Inl (addrError ''unexpected '[' in address'' s)
                else if rbracket \<in> set rest then Inl (addrError ''unexpected ']' in address'' s)
                else Inr (host, port)))
       else if colon \<in> set before then Inl (addrError ''too many colons in address'' s)
       else if lbracket \<in> set s then Inl (addrError ''unexpected '[' in address'' s)
       else if rbracket \<in> set s then Inl (addrError ''unexpected ']' in address'' s)
       else Inr (before, port))"

lemma split_last_colon_join: "colon \<notin> set port \<Longrightarrow> split_last_colon (host @ colon # port) = Some (host, port)"
proof (induction host)
  case Nil
  have "split_last_colon port = None" using Nil by (induction port) auto
  then show ?case by simp
qed simp

lemma split_last_colon_bracket:
  "colon \<notin> set port \<Longrightarrow> split_last_colon (lbracket # host @ rbracket # colon # port) = Some (lbracket # host @ [rbracket], port)"
  using split_last_colon_join [of port "lbracket # host @ [rbracket]"] by simp

lemma digits_no_colon: "list_all is_digit s \<Longrightarrow> colon \<notin> set s \<and> rbracket \<notin> set s \<and> lbracket \<notin> set s"
  by (auto simp: list_all_iff is_digit_def)

text \<open>
  The name of a bind determines its address and port: no two different binds of a
  connection share a name.
\<close>

lemma joinHostPort_inject:
  assumes "colon \<notin> set p" "colon \<notin> set q"
  shows "joinHostPort h p = joinHostPort k q \<longleftrightarrow> h = k \<and> p = q"
proof
  assume eq: "joinHostPort h p = joinHostPort k q"
  define b where "b x = (if colon \<in> set x then [lbracket] @ x @ [rbracket] else x)" for x
  have join: "joinHostPort x r = b x @ colon # r" for x r by (simp add: joinHostPort_def b_def)
  have "split_last_colon (joinHostPort h p) = Some (b h, p)" "split_last_colon (joinHostPort k q) = Some (b k, q)"
    unfolding join using assms by (auto intro: split_last_colon_join)
  with eq have "Some (b h, p) = Some (b k, q)" by metis
  then have bb: "b h = b k" and "p = q" by auto
  moreover have "h = k"
  proof -
    have "colon \<in> set (b x) \<longleftrightarrow> colon \<in> set x" for x by (simp add: b_def)
    then have same: "colon \<in> set h \<longleftrightarrow> colon \<in> set k" using bb by metis
    show ?thesis
    proof (cases "colon \<in> set h")
      case True
      then show ?thesis using bb same by (simp add: b_def)
    next
      case False
      then show ?thesis using bb same by (simp add: b_def)
    qed
  qed
  ultimately show "h = k \<and> p = q" by simp
qed simp

lemma split_join:
  assumes "lbracket \<notin> set host" "rbracket \<notin> set host" "list_all is_digit port"
  shows "splitHostPort (joinHostPort host port) = Inr (host, port)"
proof -
  have p: "colon \<notin> set port" "rbracket \<notin> set port" "lbracket \<notin> set port" using digits_no_colon [OF assms(3)] by auto
  show ?thesis
  proof (cases "colon \<in> set host")
    case True
    have tw: "takeWhile (\<lambda>ch. ch \<noteq> rbracket) (host @ rbracket # colon # port) = host"
      "dropWhile (\<lambda>ch. ch \<noteq> rbracket) (host @ rbracket # colon # port) = rbracket # colon # port"
      using assms(2) by (simp_all add: takeWhile_append dropWhile_append)
    show ?thesis using True tw p assms
      by (simp add: splitHostPort_def joinHostPort_def split_last_colon_bracket [OF p(1)] Let_def del: split_last_colon.simps)
  next
    case False
    have "hd (host @ colon # port) \<noteq> lbracket" using assms(1) by (cases host) auto
    then show ?thesis using False p assms
      by (simp add: splitHostPort_def joinHostPort_def split_last_colon_join [OF p(1)])
  qed
qed

section \<open>What the client is told about a forwarded connection\<close>

text \<open>
  The value that \<open>strconv.ParseUint(s, 10, 16)\<close> returns beside its error, which the code drops: 0 for a syntax error, the largest
  value for a number out of range, in the order in which the digits are read.
\<close>

fun parseUint16_value :: "nat \<Rightarrow> string \<Rightarrow> nat" where
  "parseUint16_value n [] = n"
| "parseUint16_value n (ch # s) =
     (if \<not> is_digit ch then 0
      else (let n' = 10 * n + (of_char ch - 48) in if n' > 65535 then 65535 else parseUint16_value n' s))"

record remoteForwardChannelData =
  DestAddr :: string
  DestPort :: uint32
  OriginAddr :: string
  OriginPort :: uint32

text \<open>The payload before \<open>gossh.Marshal\<close>; \<open>remote\<close> is the text of the accepted connection's remote address.\<close>

definition forwardedChannelData :: "string \<Rightarrow> nat \<Rightarrow> string \<Rightarrow> remoteForwardChannelData" where
  "forwardedChannelData bindAddr destPort remote =
     (let (originAddr, originPortStr) = (case splitHostPort remote of Inl _ \<Rightarrow> ([], []) | Inr hp \<Rightarrow> hp);
          originPort = parseUint16_value 0 originPortStr
      in \<lparr>DestAddr = bindAddr, DestPort = word_of_nat destPort, OriginAddr = originAddr, OriginPort = word_of_nat originPort\<rparr>)"

record remoteUnixForwardChannelData =
  SocketPath :: string
  Reserved :: string

definition forwardedUnixChannelData :: "string \<Rightarrow> remoteUnixForwardChannelData" where
  "forwardedUnixChannelData socketPath = \<lparr>SocketPath = socketPath, Reserved = []\<rparr>"

lemma parseUint16_bound: "n \<le> 65535 \<Longrightarrow> parseUint16_value n s \<le> 65535"
  by (induction s arbitrary: n) (auto simp: Let_def)

lemma foldl_digits_ge: "(n :: nat) \<le> foldl (\<lambda>n ch. 10 * n + (of_char ch - 48)) n s"
proof (induction s arbitrary: n)
  case (Cons ch s)
  have "n \<le> 10 * n + (of_char ch - 48)" by simp
  also have "\<dots> \<le> foldl (\<lambda>n ch. 10 * n + (of_char ch - 48)) (10 * n + (of_char ch - 48)) s" by (rule Cons)
  finally show ?case by simp
qed simp

lemma parseUint16_digits:
  "list_all is_digit s \<Longrightarrow> foldl (\<lambda>n ch. 10 * n + (of_char ch - 48)) n s \<le> 65535 \<Longrightarrow>
   parseUint16_value n s = foldl (\<lambda>n ch. 10 * n + (of_char ch - 48)) n s"
proof (induction s arbitrary: n)
  case (Cons ch s)
  have "10 * n + (of_char ch - 48) \<le> 65535"
    using foldl_digits_ge [of "10 * n + (of_char ch - 48)" s] Cons.prems(2) by simp
  with Cons show ?case by (simp add: Let_def)
qed simp

text \<open>The client learns the address and the port from which a TCP connection came; the port fits in 16 bits whatever the listener says.\<close>

lemma forwarded_origin:
  assumes "lbracket \<notin> set host" "rbracket \<notin> set host" "port \<le> 65535"
  shows "forwardedChannelData bindAddr destPort (joinHostPort host (formatUint port)) =
    \<lparr>DestAddr = bindAddr, DestPort = word_of_nat destPort, OriginAddr = host, OriginPort = word_of_nat port\<rparr>"
proof -
  have "parseUint16_value 0 (formatUint port) = port"
    using parseUint16_digits [of "formatUint port" 0] digits_value_format [of port] assms(3)
    by (simp add: formatUint_digits digits_value_def)
  then show ?thesis
    using split_join [OF assms(1,2) formatUint_digits] by (simp add: forwardedChannelData_def)
qed

lemma forwarded_origin_bound: "unat (OriginPort (forwardedChannelData bindAddr destPort remote)) \<le> 65535"
proof -
  have "unat (word_of_nat (parseUint16_value 0 s) :: uint32) \<le> 65535" for s
    using parseUint16_bound [of 0 s] mod_less_eq_dividend [of "parseUint16_value 0 s" "2 ^ 32"] by (simp add: unat_of_nat)
  then show ?thesis by (simp add: forwardedChannelData_def split: prod.splits)
qed

end
