(* ===== verification/Resources.thy ===== *)
theory Resources
  imports Prelude "HOL-Library.Multiset"
begin

text \<open>
  The resources of a connection (\<open>context.go\<close>): close functions registered by its handlers, which run
  when the connection ends; acquisitions, which keep \<open>closeAll\<close> waiting until what they
  acquired is registered or closed; the workers of the connection; and the values of its
  context. Close functions are numbered in the order in which they are handed over. Each
  section under the mutex is one function; the step relation interleaves them.
\<close>

section \<open>Sections\<close>

text \<open>
  \<open>cr_drainWait\<close> says that the channel \<open>acquisitionsDrained\<close> exists, \<open>cr_closeDone\<close> that \<open>closeDone\<close> is
  closed.
\<close>

record connectionResources =
  cr_resources :: "nat list"
  cr_pendingAcquisitions :: nat
  cr_drainWait :: bool
  cr_closed :: bool
  cr_closeDone :: bool

definition no_resources :: connectionResources where
  "no_resources = \<lparr>cr_resources = [], cr_pendingAcquisitions = 0, cr_drainWait = False, cr_closed = False,
     cr_closeDone = False\<rparr>"

text \<open>\<open>register\<close> returns the close function it has to run itself because everything is closed already.\<close>

definition register :: "nat \<Rightarrow> connectionResources \<Rightarrow> nat list \<times> connectionResources" where
  "register i r = (if cr_closed r then ([i], r) else ([], r\<lparr>cr_resources := i # cr_resources r\<rparr>))"

definition unregister :: "nat \<Rightarrow> connectionResources \<Rightarrow> connectionResources" where
  "unregister i r = r\<lparr>cr_resources := remove1 i (cr_resources r)\<rparr>"

text \<open>
  \<open>closeAll\<close> up to the end of its section: \<open>None\<close> when another call closes already, otherwise the
  close functions to run and whether it has to wait for acquisitions.
\<close>

definition closeAll_begin :: "connectionResources \<Rightarrow> (nat list \<times> bool) option \<times> connectionResources" where
  "closeAll_begin r =
     (if cr_closed r then (None, r)
      else let waits = cr_pendingAcquisitions r > 0
           in (Some (cr_resources r, waits), r\<lparr>cr_closed := True, cr_resources := [], cr_drainWait := waits\<rparr>))"

definition closeAll_end :: "connectionResources \<Rightarrow> connectionResources" where
  "closeAll_end r = r\<lparr>cr_closeDone := True\<rparr>"

definition beginAcquisition :: "connectionResources \<Rightarrow> bool \<times> connectionResources" where
  "beginAcquisition r =
     (if cr_closed r then (False, r)
      else (True, r\<lparr>cr_pendingAcquisitions := cr_pendingAcquisitions r + 1\<rparr>))"

text \<open>
  The function \<open>finishAcquisition\<close>: its first section registers the close function, or leaves it to
  be run at once; its last one ends the acquisition, and the last acquisition closes the
  channel \<open>closeAll\<close> waits for (the second result).
\<close>

definition finish_register :: "nat option \<Rightarrow> connectionResources \<Rightarrow> nat list \<times> connectionResources" where
  "finish_register closeFn r = (case closeFn of
     None \<Rightarrow> ([], r)
   | Some i \<Rightarrow> if cr_closed r then ([i], r) else ([], r\<lparr>cr_resources := i # cr_resources r\<rparr>))"

definition finish_end :: "connectionResources \<Rightarrow> bool \<times> connectionResources" where
  "finish_end r =
     (let r1 = r\<lparr>cr_pendingAcquisitions := cr_pendingAcquisitions r - 1\<rparr>
      in if cr_closed r1 \<and> cr_pendingAcquisitions r1 = 0 \<and> cr_drainWait r1
         then (True, r1\<lparr>cr_drainWait := False\<rparr>) else (False, r1))"

text \<open>
  The whole of \<open>finishAcquisition\<close> and of \<open>registerConnectionResource\<close> as a client sees them: the
  close functions that run at once.
\<close>

definition finishAcquisition :: "nat option \<Rightarrow> connectionResources \<Rightarrow> nat list \<times> connectionResources" where
  "finishAcquisition closeFn r =
     (case finish_register closeFn r of (now, r1) \<Rightarrow> (now, snd (finish_end r1)))"

section \<open>Interleavings\<close>

text \<open>
  An acquisition in progress has begun, has registered or not, or still has to run its close
  function. \<open>rs_closer\<close> is the call of \<open>closeAll\<close> at work: what it has to close, and whether it then
  waits; \<open>rs_drained\<close> says that \<open>acquisitionsDrained\<close> is closed. \<open>rs_ran\<close> and \<open>rs_gone\<close> record the close
  functions that have run and those that were unregistered before; \<open>rs_issued\<close> is the number
  of close functions handed over.
\<close>

datatype acquisition = Begun | MustRun nat | Ending

record resource_system =
  rs_r :: connectionResources
  rs_closer :: "(nat list \<times> bool) option"
  rs_drained :: bool
  rs_acqs :: "acquisition multiset"
  rs_ran :: "nat list"
  rs_gone :: "nat list"
  rs_issued :: nat

definition resources_start :: resource_system where
  "resources_start = \<lparr>rs_r = no_resources, rs_closer = None, rs_drained = False, rs_acqs = {#}, rs_ran = [],
     rs_gone = [], rs_issued = 0\<rparr>"

text \<open>What moves the closing on, and what else may happen.\<close>

inductive closing_step :: "resource_system \<Rightarrow> resource_system \<Rightarrow> bool" where
  close_one: "rs_closer s = Some (i # rest, waits) \<Longrightarrow>
    closing_step s (s\<lparr>rs_closer := Some (rest, waits), rs_ran := i # rs_ran s\<rparr>)"
| close_end: "rs_closer s = Some ([], waits) \<Longrightarrow> waits \<longrightarrow> rs_drained s \<Longrightarrow>
    closing_step s (s\<lparr>rs_closer := None, rs_r := closeAll_end (rs_r s)\<rparr>)"
| acq_register: "Begun \<in># rs_acqs s \<Longrightarrow> finish_register (Some (rs_issued s)) (rs_r s) = (now, r') \<Longrightarrow>
    closing_step s (s\<lparr>rs_r := r', rs_issued := rs_issued s + 1,
      rs_acqs := add_mset (case now of i # _ \<Rightarrow> MustRun i | [] \<Rightarrow> Ending) (rs_acqs s - {#Begun#})\<rparr>)"
| acq_nothing: "Begun \<in># rs_acqs s \<Longrightarrow> finish_register None (rs_r s) = ([], r') \<Longrightarrow>
    closing_step s (s\<lparr>rs_r := r', rs_acqs := add_mset Ending (rs_acqs s - {#Begun#})\<rparr>)"
| acq_run: "MustRun i \<in># rs_acqs s \<Longrightarrow>
    closing_step s (s\<lparr>rs_ran := i # rs_ran s, rs_acqs := add_mset Ending (rs_acqs s - {#MustRun i#})\<rparr>)"
| acq_end: "Ending \<in># rs_acqs s \<Longrightarrow> finish_end (rs_r s) = (signal, r') \<Longrightarrow>
    closing_step s (s\<lparr>rs_r := r', rs_acqs := rs_acqs s - {#Ending#}, rs_drained := (signal \<or> rs_drained s)\<rparr>)"

inductive resource_step :: "resource_system \<Rightarrow> resource_system \<Rightarrow> bool" where
  progress: "closing_step s t \<Longrightarrow> resource_step s t"
| do_register: "register (rs_issued s) (rs_r s) = (now, r') \<Longrightarrow>
    resource_step s (s\<lparr>rs_r := r', rs_issued := rs_issued s + 1, rs_ran := now @ rs_ran s\<rparr>)"
| do_unregister: "resource_step s (s\<lparr>rs_r := unregister i (rs_r s),
    rs_gone := (if i \<in> set (cr_resources (rs_r s)) then [i] else []) @ rs_gone s\<rparr>)"
| do_closeAll: "closeAll_begin (rs_r s) = (Some work, r') \<Longrightarrow> resource_step s (s\<lparr>rs_r := r', rs_closer := Some work\<rparr>)"
| do_closeAll_again: "closeAll_begin (rs_r s) = (None, r') \<Longrightarrow> resource_step s (s\<lparr>rs_r := r'\<rparr>)"
| do_begin: "beginAcquisition (rs_r s) = (ok, r') \<Longrightarrow>
    resource_step s (s\<lparr>rs_r := r', rs_acqs := (if ok then {#Begun#} else {#}) + rs_acqs s\<rparr>)"

section \<open>Every close function runs once\<close>

fun acq_fn :: "acquisition \<Rightarrow> nat multiset" where
  "acq_fn (MustRun i) = {#i#}"
| "acq_fn _ = {#}"

definition must_run :: "acquisition multiset \<Rightarrow> nat multiset" where
  "must_run acqs = sum_mset (image_mset acq_fn acqs)"

lemma must_run_simps [simp]:
  "must_run {#} = {#}" "must_run (add_mset a acqs) = acq_fn a + must_run acqs"
  by (simp_all add: must_run_def)

definition to_close :: "(nat list \<times> bool) option \<Rightarrow> nat list" where
  "to_close closer = (case closer of None \<Rightarrow> [] | Some (is, _) \<Rightarrow> is)"

text \<open>Every close function is registered, in the hands of the closer, about to run, has run, or was unregistered.\<close>

definition accounted :: "resource_system \<Rightarrow> bool" where
  "accounted s \<longleftrightarrow> mset (cr_resources (rs_r s)) + mset (to_close (rs_closer s)) + must_run (rs_acqs s)
     + mset (rs_ran s) + mset (rs_gone s) = mset [0..<rs_issued s]"

definition closing_ok :: "resource_system \<Rightarrow> bool" where
  "closing_ok s \<longleftrightarrow> cr_pendingAcquisitions (rs_r s) = size (rs_acqs s) \<and>
     (if \<not> cr_closed (rs_r s)
      then rs_closer s = None \<and> \<not> cr_closeDone (rs_r s) \<and> \<not> cr_drainWait (rs_r s) \<and> \<not> rs_drained s
      else cr_resources (rs_r s) = [] \<and>
        (case rs_closer s of
           None \<Rightarrow> cr_closeDone (rs_r s) \<and> rs_acqs s = {#} \<and> \<not> cr_drainWait (rs_r s)
         | Some (_, waits) \<Rightarrow> \<not> cr_closeDone (rs_r s) \<and>
             (cr_drainWait (rs_r s) \<longleftrightarrow> waits \<and> \<not> rs_drained s) \<and> (cr_drainWait (rs_r s) \<longleftrightarrow> rs_acqs s \<noteq> {#})))"

lemma accounted_closing: "closing_step s t \<Longrightarrow> accounted s \<Longrightarrow> accounted t"
proof (induction rule: closing_step.induct)
  case (acq_register s now r')
  then obtain acqs where "rs_acqs s = add_mset Begun acqs" by (metis multi_member_split)
  with acq_register show ?case
    by (auto simp: accounted_def finish_register_def to_close_def split: if_splits)
next
  case (acq_nothing s r')
  then obtain acqs where "rs_acqs s = add_mset Begun acqs" by (metis multi_member_split)
  with acq_nothing show ?case by (auto simp: accounted_def finish_register_def)
next
  case (acq_run i s)
  then obtain acqs where "rs_acqs s = add_mset (MustRun i) acqs" by (metis multi_member_split)
  with acq_run show ?case by (auto simp: accounted_def)
next
  case (acq_end s signal r')
  then obtain acqs where "rs_acqs s = add_mset Ending acqs" by (metis multi_member_split)
  with acq_end show ?case by (auto simp: accounted_def finish_end_def Let_def split: if_splits)
qed (auto simp: accounted_def to_close_def closeAll_end_def)

lemma accounted_step: "resource_step s t \<Longrightarrow> accounted s \<Longrightarrow> closing_ok s \<Longrightarrow> accounted t"
proof (induction rule: resource_step.induct)
  case (progress s t)
  then show ?case using accounted_closing by blast
next
  case (do_unregister s i)
  show ?case
  proof (cases "i \<in> set (cr_resources (rs_r s))")
    case True
    then obtain X where "mset (cr_resources (rs_r s)) = add_mset i X" by (metis multi_member_split set_mset_mset)
    with do_unregister True show ?thesis by (simp add: accounted_def unregister_def)
  next
    case False
    with do_unregister show ?thesis by (simp add: accounted_def unregister_def remove1_idem)
  qed
next
  case (do_begin s ok r')
  then show ?case by (auto simp: accounted_def beginAcquisition_def split: if_splits)
qed (auto simp: accounted_def register_def closeAll_begin_def to_close_def closing_ok_def Let_def split: if_splits)

lemma closing_ok_closing: "closing_step s t \<Longrightarrow> closing_ok s \<Longrightarrow> closing_ok t"
proof (induction rule: closing_step.induct)
  case (acq_register s now r')
  then obtain acqs where "rs_acqs s = add_mset Begun acqs" by (metis multi_member_split)
  with acq_register show ?case
    by (auto simp: closing_ok_def finish_register_def split: if_splits option.splits)
next
  case (acq_nothing s r')
  then obtain acqs where "rs_acqs s = add_mset Begun acqs" by (metis multi_member_split)
  with acq_nothing show ?case by (auto simp: closing_ok_def finish_register_def split: option.splits)
next
  case (acq_run i s)
  then obtain acqs where "rs_acqs s = add_mset (MustRun i) acqs" by (metis multi_member_split)
  with acq_run show ?case by (auto simp: closing_ok_def split: option.splits)
next
  case (acq_end s signal r')
  then obtain acqs where "rs_acqs s = add_mset Ending acqs" by (metis multi_member_split)
  with acq_end show ?case
    by (auto simp: closing_ok_def finish_end_def Let_def split: if_splits option.splits)
qed (auto simp: closing_ok_def closeAll_end_def split: if_splits)

lemma closing_ok_step: "resource_step s t \<Longrightarrow> closing_ok s \<Longrightarrow> closing_ok t"
proof (induction rule: resource_step.induct)
  case (progress s t)
  then show ?case using closing_ok_closing by blast
qed (auto simp: nonempty_has_size closing_ok_def register_def unregister_def closeAll_begin_def beginAcquisition_def
      Let_def split: if_splits option.splits)

interpretation resources: step_invariant resource_step "\<lambda>s. accounted s \<and> closing_ok s"
  by unfold_locales (blast intro: accounted_step closing_ok_step)

lemma resources_reachable:
  "resource_step\<^sup>*\<^sup>* resources_start s \<Longrightarrow> accounted s \<and> closing_ok s"
  by (erule resources.steps_keep)
    (simp add: accounted_def closing_ok_def resources_start_def no_resources_def to_close_def)

text \<open>
  C29. However registrations, acquisitions and the end of a connection interleave, no close function
  of a resource runs twice; and when \<open>closeAll\<close> has returned, every close function ever handed over
  has run unless its owner unregistered it before, and no acquisition is in progress.
\<close>

theorem resources_closed_exactly_once:
  assumes "resource_step\<^sup>*\<^sup>* resources_start s"
  shows "distinct (rs_ran s @ rs_gone s) \<and>
    (if cr_closeDone (rs_r s)
     then set (rs_ran s @ rs_gone s) = {0..<rs_issued s} \<and> rs_acqs s = {#} \<and> cr_resources (rs_r s) = []
     else True)"
proof -
  have a: "accounted s" and c: "closing_ok s" using resources_reachable [OF assms] by auto
  obtain held where "mset held = mset (cr_resources (rs_r s)) + mset (to_close (rs_closer s)) + must_run (rs_acqs s)"
    using ex_mset by blast
  with a have "mset (held @ rs_ran s @ rs_gone s) = mset [0..<rs_issued s]" by (simp add: accounted_def add.assoc)
  then have "distinct (held @ rs_ran s @ rs_gone s)" by (metis distinct_upt mset_eq_imp_distinct_iff)
  then have "distinct (rs_ran s @ rs_gone s)" by simp
  moreover have "set (rs_ran s @ rs_gone s) = {0..<rs_issued s} \<and> rs_acqs s = {#} \<and> cr_resources (rs_r s) = []"
    if over: "cr_closeDone (rs_r s)"
  proof -
    have none: "rs_closer s = None" "rs_acqs s = {#}" "cr_resources (rs_r s) = []"
      using c over by (auto simp: closing_ok_def split: if_splits option.splits)
    with a have "mset (rs_ran s @ rs_gone s) = mset [0..<rs_issued s]" by (simp add: accounted_def to_close_def)
    then have "set (rs_ran s @ rs_gone s) = {0..<rs_issued s}" by (metis atLeastLessThan_upt mset_eq_setD)
    with none show ?thesis by simp
  qed
  ultimately show ?thesis by simp
qed


abbreviation one_resource :: resource_system where
  "one_resource \<equiv> resources_start\<lparr>rs_r := no_resources\<lparr>cr_resources := [0]\<rparr>, rs_issued := 1\<rparr>"

abbreviation closing_resource :: resource_system where
  "closing_resource \<equiv> one_resource\<lparr>rs_r := no_resources\<lparr>cr_closed := True\<rparr>, rs_closer := Some ([0], False)\<rparr>"

abbreviation closed_resource :: resource_system where
  "closed_resource \<equiv> one_resource\<lparr>rs_r := closeAll_end (no_resources\<lparr>cr_closed := True\<rparr>), rs_closer := None, rs_ran := [0]\<rparr>"

lemma closing_reached: "resource_step\<^sup>*\<^sup>* resources_start closing_resource"
proof -
  have "resource_step resources_start one_resource"
    using do_register [of resources_start "[]" "no_resources\<lparr>cr_resources := [0]\<rparr>"]
    by (simp add: register_def resources_start_def no_resources_def)
  moreover have "resource_step one_resource closing_resource"
    using do_closeAll [of one_resource "([0], False)" "no_resources\<lparr>cr_closed := True\<rparr>"]
    by (simp add: closeAll_begin_def resources_start_def no_resources_def)
  ultimately show ?thesis by simp
qed

theorem resources_closed_exactly_once_witness:
  "cr_closeDone (rs_r closed_resource) \<and> set (rs_ran closed_resource @ rs_gone closed_resource) = {0..<rs_issued closed_resource}"
proof -
  let ?ran = "closing_resource\<lparr>rs_closer := Some ([], False), rs_ran := [0]\<rparr>"
  have "closing_step closing_resource ?ran"
    using close_one [of closing_resource 0 "[]" False] by (simp add: resources_start_def)
  moreover have "closing_step ?ran closed_resource" using close_end [of ?ran False] by (simp add: resources_start_def)
  ultimately have "resource_step\<^sup>*\<^sup>* resources_start closed_resource"
    using closing_reached by (meson progress rtranclp.rtrancl_into_rtrancl)
  moreover have "cr_closeDone (rs_r closed_resource)" by (simp add: closeAll_end_def)
  ultimately show ?thesis using resources_closed_exactly_once [of closed_resource] by presburger
qed

section \<open>The end is reached\<close>

fun acq_work :: "acquisition \<Rightarrow> nat" where
  "acq_work Begun = 3"
| "acq_work (MustRun i) = 2"
| "acq_work Ending = 1"

definition closing_work :: "resource_system \<Rightarrow> nat" where
  "closing_work s = (case rs_closer s of None \<Rightarrow> 0 | Some (is, _) \<Rightarrow> Suc (length is)) + sum_mset (image_mset acq_work (rs_acqs s))"

lemma closing_step_decreases: "closing_step s t \<Longrightarrow> closing_work t < closing_work s"
proof (induction rule: closing_step.induct)
  case (acq_register s now r')
  then obtain acqs where "rs_acqs s = add_mset Begun acqs" by (metis multi_member_split)
  then show ?case by (auto simp: closing_work_def split: list.splits)
next
  case (acq_nothing s r')
  then obtain acqs where "rs_acqs s = add_mset Begun acqs" by (metis multi_member_split)
  then show ?case by (simp add: closing_work_def)
next
  case (acq_run i s)
  then obtain acqs where "rs_acqs s = add_mset (MustRun i) acqs" by (metis multi_member_split)
  then show ?case by (simp add: closing_work_def)
next
  case (acq_end s signal r')
  then obtain acqs where "rs_acqs s = add_mset Ending acqs" by (metis multi_member_split)
  then show ?case by (simp add: closing_work_def)
qed (simp_all add: closing_work_def)

lemma closing_step_closed: "closing_step s t \<Longrightarrow> cr_closed (rs_r s) \<Longrightarrow> cr_closed (rs_r t)"
  by (induction rule: closing_step.induct)
    (auto simp: closeAll_end_def finish_register_def finish_end_def Let_def split: if_splits option.splits)

text \<open>Progress: a system that is closing and not done can always move.\<close>

lemma closing_not_stuck:
  assumes "closing_ok s" "cr_closed (rs_r s)" "\<not> cr_closeDone (rs_r s)"
  obtains t where "closing_step s t"
proof (cases "rs_acqs s = {#}")
  case True
  then obtain todo waits where c: "rs_closer s = Some (todo, waits)" "waits \<longrightarrow> rs_drained s"
    using assms by (auto simp: closing_ok_def split: option.splits)
  show thesis
    by (cases todo) (use that close_one [of s] close_end [of s waits] c in auto)
next
  case False
  then obtain a where a: "a \<in># rs_acqs s" by blast
  show thesis
  proof (cases a)
    case Begun
    then show thesis using that acq_nothing [of s "rs_r s"] a by (simp add: finish_register_def)
  next
    case (MustRun i)
    then show thesis using that acq_run a by blast
  next
    case Ending
    then show thesis using that acq_end [of s "fst (finish_end (rs_r s))" "snd (finish_end (rs_r s))"] a by simp
  qed
qed

interpretation closing: ending_steps closing_step "\<lambda>s. closing_ok s \<and> cr_closed (rs_r s)" closing_work
  "\<lambda>s. cr_closeDone (rs_r s)"
proof unfold_locales
  fix s
  assume "closing_ok s \<and> cr_closed (rs_r s)" "\<not> cr_closeDone (rs_r s)"
  then show "\<exists>t. closing_step s t" using closing_not_stuck [of s] by blast
qed (auto intro: closing_ok_closing closing_step_closed closing_step_decreases)

text \<open>
  C30. \<open>closeAll\<close> returns: once a connection is closing, the closing can always move on as long as it
  is not done, every move reduces the work that is left, and so it gets done.
\<close>

theorem closeAll_completes:
  assumes "resource_step\<^sup>*\<^sup>* resources_start s" "cr_closed (rs_r s)"
  shows "(\<exists>t. closing_step\<^sup>*\<^sup>* s t \<and> cr_closeDone (rs_r t)) \<and> (\<forall>t. closing_step s t \<longrightarrow> closing_work t < closing_work s)"
  using resources_reachable [OF assms(1)] assms(2) closing.steps_end [of s] closing_step_decreases by blast

theorem closeAll_completes_witness:
  "\<exists>t. closing_step\<^sup>*\<^sup>* closing_resource t \<and> cr_closeDone (rs_r t)"
  using closeAll_completes [OF closing_reached] by (simp add: no_resources_def)

section \<open>Workers\<close>

record connectionWorkers =
  cw_running :: nat
  cw_closed :: bool

definition goRun :: "connectionWorkers \<Rightarrow> bool \<times> connectionWorkers" where
  "goRun w = (if cw_closed w then (False, w) else (True, w\<lparr>cw_running := cw_running w + 1\<rparr>))"

text \<open>\<open>startConnectionWorker\<close>: a context without workers, which other code has made, just gets a goroutine.\<close>

definition startConnectionWorker :: "connectionWorkers option \<Rightarrow> bool \<times> connectionWorkers option" where
  "startConnectionWorker workers = (case workers of
     None \<Rightarrow> (True, None)
   | Some w \<Rightarrow> (case goRun w of (started, w') \<Rightarrow> (started, Some w')))"

definition worker_done :: "connectionWorkers \<Rightarrow> connectionWorkers" where
  "worker_done w = w\<lparr>cw_running := cw_running w - 1\<rparr>"

text \<open>\<open>closeAndWait\<close>: it closes, and returns when nothing runs any more.\<close>

definition closeWorkers :: "connectionWorkers \<Rightarrow> connectionWorkers" where
  "closeWorkers w = w\<lparr>cw_closed := True\<rparr>"

definition waited :: "connectionWorkers \<Rightarrow> bool" where
  "waited w \<longleftrightarrow> cw_closed w \<and> cw_running w = 0"

inductive worker_step :: "connectionWorkers \<Rightarrow> connectionWorkers \<Rightarrow> bool" where
  "worker_step w (snd (goRun w))"
| "cw_running w > 0 \<Longrightarrow> worker_step w (worker_done w)"
| "worker_step w (closeWorkers w)"

text \<open>When \<open>closeAndWait\<close> has returned, no worker of the connection ever runs again.\<close>

interpretation workers: step_invariant worker_step waited
proof
  fix v w
  assume "worker_step v w" "waited v"
  then show "waited w"
    by (induction rule: worker_step.induct) (auto simp: goRun_def waited_def worker_done_def closeWorkers_def)
qed

lemma waited_forever: "worker_step\<^sup>*\<^sup>* w w' \<Longrightarrow> waited w \<Longrightarrow> waited w' \<and> \<not> fst (goRun w')"
  using workers.steps_keep [of w w'] by (auto simp: goRun_def waited_def)

end
