(* ===== verification/Forwarding.thy ===== *)
theory Forwarding
  imports HostPort Limits Resources Codec ErrorHandling
begin

text \<open>
  Reverse forwarding (\<open>tcpip.go\<close>, \<open>streamlocal.go\<close>): a client asks the server to listen; each
  accepted connection is offered to the client on a channel. A forward holds one slot of the
  forward limiter from its request until its \<open>close\<close>, which runs once; each connection holds a
  slot of the channel limiter. First the sections of the code as functions, then the request
  handlers that compose them, then all interleavings of the sections.
\<close>

section \<open>Forwards\<close>

text \<open>
  The forwards of one connection, numbered in the order of their creation. \<open>f_key\<close> is the name
  under which a forward is registered (\<open>forwardKey\<close> without the connection), \<open>f_pending\<close> counts the
  channel opens in flight (\<open>pending\<close>). The close function of forward \<open>i\<close> has the even number \<open>2 i\<close>
  among the resources of the connection; odd numbers belong to other code.
\<close>

record forward =
  f_key :: string
  f_closing :: bool
  f_pending :: nat

record forwarding =
  fw_resources :: connectionResources
  fw_workers :: connectionWorkers
  fw_counters :: counters
  fw_forwards :: "string \<rightharpoonup> nat"
  fw_objects :: "forward list"

record forward_config =
  fc_limiter :: limiter
  fc_channels :: "connectionChannelLimiter option"

definition close_fn :: "nat \<Rightarrow> nat" where
  "close_fn i = 2 * i"

text \<open>\<open>f.close\<close>: the closing of the listener is what \<open>f_closing\<close> records.\<close>

definition forward_close :: "forward_config \<Rightarrow> nat \<Rightarrow> forwarding \<Rightarrow> forwarding" where
  "forward_close c i s =
     (if i < length (fw_objects s) \<and> \<not> f_closing (fw_objects s ! i)
      then s\<lparr>fw_objects := (fw_objects s)[i := (fw_objects s ! i)\<lparr>f_closing := True\<rparr>],
             fw_counters := resourceLimiter_release (fc_limiter c) (fw_counters s)\<rparr>
      else s)"

definition run_close_fn :: "forward_config \<Rightarrow> nat \<Rightarrow> forwarding \<Rightarrow> forwarding" where
  "run_close_fn c n s = (if even n then forward_close c (n div 2) s else s)"

definition beginOpen :: "nat \<Rightarrow> forwarding \<Rightarrow> bool \<times> forwarding" where
  "beginOpen i s =
     (if f_closing (fw_objects s ! i) then (False, s)
      else (True, s\<lparr>fw_objects := (fw_objects s)[i := (fw_objects s ! i)\<lparr>f_pending := f_pending (fw_objects s ! i) + 1\<rparr>]\<rparr>))"

definition endOpen :: "nat \<Rightarrow> forwarding \<Rightarrow> forwarding" where
  "endOpen i s = s\<lparr>fw_objects := (fw_objects s)[i := (fw_objects s ! i)\<lparr>f_pending := f_pending (fw_objects s ! i) - 1\<rparr>]\<rparr>"

definition unregisterForward :: "nat \<Rightarrow> forwarding \<Rightarrow> forwarding" where
  "unregisterForward i s = s\<lparr>fw_resources := unregister (close_fn i) (fw_resources s)\<rparr>"

definition removeForward :: "string \<Rightarrow> nat \<Rightarrow> forwarding \<Rightarrow> forwarding" where
  "removeForward key i s = (if fw_forwards s key = Some i then s\<lparr>fw_forwards := (fw_forwards s)(key := None)\<rparr> else s)"

section \<open>Sections of a forward request\<close>

text \<open>Reserve a slot and begin the acquisition; the listener is created after that, outside of any lock.\<close>

definition beginForward :: "forward_config \<Rightarrow> forwarding \<Rightarrow> bool \<times> forwarding" where
  "beginForward c s = (case resourceLimiter_reserve (fc_limiter c) (fw_counters s) of
     (False, k) \<Rightarrow> (False, s\<lparr>fw_counters := k\<rparr>)
   | (True, k) \<Rightarrow>
       (case beginAcquisition (fw_resources s) of
          (False, r) \<Rightarrow> (False, s\<lparr>fw_resources := r, fw_counters := resourceLimiter_release (fc_limiter c) k\<rparr>)
        | (True, r) \<Rightarrow> (True, s\<lparr>fw_resources := r, fw_counters := k\<rparr>)))"

text \<open>The listener could not be used.\<close>

definition abandonForward :: "forward_config \<Rightarrow> forwarding \<Rightarrow> forwarding" where
  "abandonForward c s = s\<lparr>fw_resources := snd (finishAcquisition None (fw_resources s)),
     fw_counters := resourceLimiter_release (fc_limiter c) (fw_counters s)\<rparr>"

text \<open>\<open>newForward\<close> and \<open>finishAcquisition(f.close)\<close>, which closes it at once when the connection is closing.\<close>

definition createForward :: "forward_config \<Rightarrow> string \<Rightarrow> forwarding \<Rightarrow> nat \<times> forwarding" where
  "createForward c key s =
     (let i = length (fw_objects s);
          (now, r) = finishAcquisition (Some (close_fn i)) (fw_resources s);
          s1 = s\<lparr>fw_resources := r, fw_objects := fw_objects s @ [\<lparr>f_key = key, f_closing = False, f_pending = 0\<rparr>]\<rparr>
      in (i, fold (run_close_fn c) now s1))"

text \<open>Enter it under its name, unless the name is taken, and start its worker.\<close>

definition enterForward :: "forward_config \<Rightarrow> nat \<Rightarrow> forwarding \<Rightarrow> bool \<times> forwarding" where
  "enterForward c i s =
     (let key = f_key (fw_objects s ! i)
      in if fw_forwards s key \<noteq> None then (False, forward_close c i (unregisterForward i s))
         else (True, s\<lparr>fw_forwards := (fw_forwards s)(key \<mapsto> i)\<rparr>))"

definition startForward :: "forward_config \<Rightarrow> nat \<Rightarrow> forwarding \<Rightarrow> bool \<times> forwarding" where
  "startForward c i s = (case goRun (fw_workers s) of
     (True, ws) \<Rightarrow> (True, s\<lparr>fw_workers := ws\<rparr>)
   | (False, ws) \<Rightarrow> (False, forward_close c i (removeForward (f_key (fw_objects s ! i)) i (unregisterForward i s))))"

definition publishForward :: "forward_config \<Rightarrow> nat \<Rightarrow> forwarding \<Rightarrow> bool \<times> forwarding" where
  "publishForward c i s = (case enterForward c i s of
     (False, s1) \<Rightarrow> (False, s1)
   | (True, s1) \<Rightarrow> startForward c i s1)"

section \<open>The request handlers\<close>

datatype forward_reply = ReplyAccept bytes | ReplyReject bytes | ReplyError gerr

text \<open>
  What comes from outside: whether handler and context are there; the unmarshalled payload; the
  policy callback; what the listen call returns (whether there is a listener, and the error)
  and the address of the listener.
\<close>

record forward_input =
  fi_handler :: bool
  fi_context :: bool
  fi_payload :: "gerr + string \<times> uint32"
  fi_callback :: "(bool \<times> gerr option) option"
  fi_listen :: "bool \<times> gerr option"
  fi_address :: "string option"

definition boundPort :: "string option \<Rightarrow> gerr + nat" where
  "boundPort address = (case address of
     None \<Rightarrow> Inl (Errorf ''listener returned no address'' [])
   | Some a \<Rightarrow>
       (case splitHostPort a of
          Inl e \<Rightarrow> Inl e
        | Inr (_, port) \<Rightarrow>
            (case parsePort port of
               None \<Rightarrow> Inl (Errorf ''strconv.ParseUint: parsing %q'' [AQuoted port])
             | Some 0 \<Rightarrow> Inl (Errorf ''listener has no bound port'' [])
             | Some (Suc n) \<Rightarrow> Inr (Suc n))))"

definition listenError :: "string \<Rightarrow> farg list \<Rightarrow> gerr option \<Rightarrow> forward_reply" where
  "listenError text args err = ReplyError (locateError ErrorScopeForwarding ErrorOperationListen
     (case err of None \<Rightarrow> Errorf text args | Some e \<Rightarrow> WrapErr text args e))"

text \<open>After the listen call.\<close>

definition tcp_listened :: "forward_config \<Rightarrow> string \<Rightarrow> uint32 \<Rightarrow> forward_input \<Rightarrow> forwarding \<Rightarrow> forward_reply \<times> forwarding" where
  "tcp_listened c bindAddr bindPort inp s =
     (let addr = joinHostPort bindAddr (formatUint (unat bindPort))
      in case fi_listen inp of
        (_, Some err) \<Rightarrow> (listenError ''listen for tcpip-forward on %s: %w'' [AStr addr] (Some err), abandonForward c s)
      | (False, None) \<Rightarrow>
          (listenError ''listen for tcpip-forward on %s: callback returned no listener'' [AStr addr] None, abandonForward c s)
      | (True, None) \<Rightarrow>
          (case boundPort (fi_address inp) of
             Inl err \<Rightarrow>
               (listenError ''listen for tcpip-forward on %s: invalid listener address %v: %w'' [AStr addr] (Some err), abandonForward c s)
           | Inr destPort \<Rightarrow>
               if bindPort \<noteq> 0 \<and> unat bindPort \<noteq> destPort
               then (listenError ''listen for tcpip-forward on %s: listener bound unexpected port %d'' [AStr addr, AInt (int destPort)] None,
                     abandonForward c s)
               else (let (i, s1) = createForward c (joinHostPort bindAddr (formatUint destPort)) s
                     in case publishForward c i s1 of
                          (False, s2) \<Rightarrow> (ReplyReject [], s2)
                        | (True, s2) \<Rightarrow> (ReplyAccept (put_uint32 (of_nat destPort)), s2))))"

definition tcp_forward :: "forward_config \<Rightarrow> forward_input \<Rightarrow> forwarding \<Rightarrow> forward_reply \<times> forwarding" where
  "tcp_forward c inp s = (case fi_payload inp of
     Inl e \<Rightarrow> (ReplyError (locateError ErrorScopeRequest ErrorOperationParse (WrapErr ''parse tcpip-forward request: %w'' [] e)), s)
   | Inr (bindAddr, bindPort) \<Rightarrow>
       (case fi_callback inp of
          None \<Rightarrow> (ReplyReject (bytes_of_string ''port forwarding is disabled''), s)
        | Some (_, Some e) \<Rightarrow>
            (ReplyError (locateError ErrorScopeForwarding ErrorOperationHandle
               (WrapErr ''authorize tcpip-forward on %s:%d: %w'' [AStr bindAddr, AInt (uint bindPort)] e)), s)
        | Some (False, None) \<Rightarrow> (ReplyReject (bytes_of_string ''port forwarding is disabled''), s)
        | Some (True, None) \<Rightarrow>
            (case resourceLimiter_reserve (fc_limiter c) (fw_counters s) of
               (False, _) \<Rightarrow> (ReplyReject (bytes_of_string ''too many reverse port forwards''), snd (beginForward c s))
             | (True, _) \<Rightarrow>
                 (case beginForward c s of
                    (False, s1) \<Rightarrow> (ReplyReject [], s1)
                  | (True, s1) \<Rightarrow> tcp_listened c bindAddr bindPort inp s1))))"

text \<open>
  \<open>cancel-tcpip-forward\<close>: close, then wait for the opens in flight, then remove. Run alone it can
  only wait for opens of other goroutines, so here it is for a forward without any.
\<close>

definition tcp_cancel :: "forward_config \<Rightarrow> forward_input \<Rightarrow> forwarding \<Rightarrow> forward_reply \<times> forwarding" where
  "tcp_cancel c inp s = (case fi_payload inp of
     Inl e \<Rightarrow> (ReplyError (locateError ErrorScopeRequest ErrorOperationParse (WrapErr ''parse cancel-tcpip-forward request: %w'' [] e)), s)
   | Inr (bindAddr, bindPort) \<Rightarrow>
       (let key = joinHostPort bindAddr (formatUint (unat bindPort))
        in case fw_forwards s key of
             None \<Rightarrow> (ReplyReject [], s)
           | Some i \<Rightarrow> (ReplyAccept [], removeForward key i (forward_close c i s))))"

definition tcp_request :: "forward_config \<Rightarrow> string \<Rightarrow> forward_input \<Rightarrow> forwarding \<Rightarrow> forward_reply \<times> forwarding" where
  "tcp_request c rtype inp s =
     (if \<not> fi_handler inp then (ReplyError (Errorf ''ssh: missing TCP forwarding request handler state'' []), s)
      else if \<not> fi_context inp then (ReplyReject (bytes_of_string ''missing server connection context''), s)
      else if rtype = ''tcpip-forward'' then tcp_forward c inp s
      else if rtype = ''cancel-tcpip-forward'' then tcp_cancel c inp s
      else (ReplyReject [], s))"

text \<open>
  The handler for Unix sockets; the name is the path. \<open>ErrServerPermissionDenied\<close> from the callback is
  a refusal without an error.
\<close>

definition unix_listened :: "forward_config \<Rightarrow> string \<Rightarrow> forward_input \<Rightarrow> forwarding \<Rightarrow> forward_reply \<times> forwarding" where
  "unix_listened c path inp s = (case fi_listen inp of
     (_, Some err) \<Rightarrow>
       (if \<not> errors_Is err (Var ErrServerPermissionDenied)
        then listenError ''listen for streamlocal-forward on %q: %w'' [AQuoted path] (Some err)
        else ReplyReject [], abandonForward c s)
   | (False, None) \<Rightarrow>
       (listenError ''listen for streamlocal-forward on %q: callback returned no listener'' [AQuoted path] None, abandonForward c s)
   | (True, None) \<Rightarrow>
       (let (i, s1) = createForward c path s
        in case publishForward c i s1 of
             (False, s2) \<Rightarrow> (ReplyReject [], s2)
           | (True, s2) \<Rightarrow> (ReplyAccept [], s2)))"

definition unix_forward :: "forward_config \<Rightarrow> forward_input \<Rightarrow> forwarding \<Rightarrow> forward_reply \<times> forwarding" where
  "unix_forward c inp s = (case fi_payload inp of
     Inl e \<Rightarrow> (ReplyError (locateError ErrorScopeRequest ErrorOperationParse (WrapErr ''parse streamlocal-forward request: %w'' [] e)), s)
   | Inr (path, _) \<Rightarrow>
       if fi_callback inp = None then (ReplyReject [], s)
       else if fw_forwards s path \<noteq> None then (ReplyReject [], s)
       else (case beginForward c s of
               (False, s1) \<Rightarrow> (ReplyReject [], s1)
             | (True, s1) \<Rightarrow> unix_listened c path inp s1))"

definition unix_cancel :: "forward_config \<Rightarrow> forward_input \<Rightarrow> forwarding \<Rightarrow> forward_reply \<times> forwarding" where
  "unix_cancel c inp s = (case fi_payload inp of
     Inl e \<Rightarrow> (ReplyError (locateError ErrorScopeRequest ErrorOperationParse (WrapErr ''parse cancel-streamlocal-forward request: %w'' [] e)), s)
   | Inr (path, _) \<Rightarrow>
       (case fw_forwards s path of
          None \<Rightarrow> (ReplyReject [], s)
        | Some i \<Rightarrow> (ReplyAccept [], forward_close c i s)))"

definition unix_request :: "forward_config \<Rightarrow> string \<Rightarrow> forward_input \<Rightarrow> forwarding \<Rightarrow> forward_reply \<times> forwarding" where
  "unix_request c rtype inp s =
     (if \<not> fi_handler inp then (ReplyError (Errorf ''ssh: missing streamlocal forwarding request handler state'' []), s)
      else if \<not> fi_context inp then (ReplyReject (bytes_of_string ''missing server connection context''), s)
      else if rtype = ''streamlocal-forward@openssh.com'' then unix_forward c inp s
      else if rtype = ''cancel-streamlocal-forward@openssh.com'' then unix_cancel c inp s
      else (ReplyReject [], s))"

section \<open>Requests that fail\<close>

lemma beginForward_refused: "beginForward c s = (False, s') \<Longrightarrow> s' = s"
  by (auto simp: beginForward_def beginAcquisition_def res_slots.refused res_slots.release_undoes_reserve
      split: prod.splits bool.splits if_splits)

lemma beginForward_granted:
  assumes "beginForward c s = (True, s')"
  obtains k where "resourceLimiter_reserve (fc_limiter c) (fw_counters s) = (True, k)" "\<not> cr_closed (fw_resources s)"
    "s' = s\<lparr>fw_resources := (fw_resources s)\<lparr>cr_pendingAcquisitions := cr_pendingAcquisitions (fw_resources s) + 1\<rparr>, fw_counters := k\<rparr>"
  using assms
  by (auto simp: beginForward_def beginAcquisition_def split: prod.splits bool.splits if_splits)

lemma finish_open:
  "\<not> cr_closed r \<Longrightarrow> finishAcquisition None (r\<lparr>cr_pendingAcquisitions := n + 1\<rparr>) = ([], r\<lparr>cr_pendingAcquisitions := n\<rparr>)"
  "\<not> cr_closed r \<Longrightarrow> finishAcquisition (Some i) (r\<lparr>cr_pendingAcquisitions := n + 1\<rparr>) =
     ([], r\<lparr>cr_pendingAcquisitions := n, cr_resources := i # cr_resources r\<rparr>)"
  by (simp_all add: finishAcquisition_def finish_register_def finish_end_def Let_def)

lemma abandon_undoes_begin: "beginForward c s = (True, s') \<Longrightarrow> abandonForward c s' = s"
  by (erule beginForward_granted)
    (use finish_open(1) [of "fw_resources s" "cr_pendingAcquisitions (fw_resources s)"] in
      \<open>simp add: abandonForward_def res_slots.release_undoes_reserve\<close>)

lemma create_after_begin:
  assumes "beginForward c s = (True, s')"
  shows "createForward c key s' = (length (fw_objects s),
    s'\<lparr>fw_resources := (fw_resources s)\<lparr>cr_resources := close_fn (length (fw_objects s)) # cr_resources (fw_resources s)\<rparr>,
       fw_objects := fw_objects s @ [\<lparr>f_key = key, f_closing = False, f_pending = 0\<rparr>]\<rparr>)"
  using assms
  by (rule beginForward_granted)
    (use finish_open(2) [of "fw_resources s" "close_fn (length (fw_objects s))" "cr_pendingAcquisitions (fw_resources s)"] in
      \<open>simp add: createForward_def Let_def\<close>)

text \<open>A request that fails leaves nothing behind but, at most, a forward that is closed.\<close>

definition nothing_left :: "forwarding \<Rightarrow> forwarding \<Rightarrow> bool" where
  "nothing_left s s' \<longleftrightarrow> (\<exists>closed. s' = s\<lparr>fw_objects := fw_objects s @ closed\<rparr> \<and> list_all f_closing closed)"

definition forward_added :: "forward_config \<Rightarrow> string \<Rightarrow> forwarding \<Rightarrow> forwarding \<Rightarrow> bool" where
  "forward_added c key s s' \<longleftrightarrow> fw_forwards s key = None \<and> \<not> cr_closed (fw_resources s) \<and> \<not> cw_closed (fw_workers s) \<and>
     (let i = length (fw_objects s)
      in s' = s\<lparr>fw_resources := (fw_resources s)\<lparr>cr_resources := close_fn i # cr_resources (fw_resources s)\<rparr>,
                fw_workers := (fw_workers s)\<lparr>cw_running := cw_running (fw_workers s) + 1\<rparr>,
                fw_counters := snd (resourceLimiter_reserve (fc_limiter c) (fw_counters s)),
                fw_forwards := (fw_forwards s)(key \<mapsto> i),
                fw_objects := fw_objects s @ [\<lparr>f_key = key, f_closing = False, f_pending = 0\<rparr>]\<rparr>)
     \<and> fst (resourceLimiter_reserve (fc_limiter c) (fw_counters s))"

lemma nothing_left_refl [simp]: "nothing_left s s"
  by (auto simp: nothing_left_def intro!: exI [of _ "[]"])

lemma publish_after_begin:
  assumes "beginForward c s = (True, s1)" "createForward c key s1 = (i, s2)" "publishForward c i s2 = (ok, s3)"
  shows "if ok then forward_added c key s s3 else nothing_left s s3"
proof -
  obtain k where k: "resourceLimiter_reserve (fc_limiter c) (fw_counters s) = (True, k)" "\<not> cr_closed (fw_resources s)"
    "s1 = s\<lparr>fw_resources := (fw_resources s)\<lparr>cr_pendingAcquisitions := cr_pendingAcquisitions (fw_resources s) + 1\<rparr>, fw_counters := k\<rparr>"
    using assms(1) by (rule beginForward_granted)
  have i: "i = length (fw_objects s)" using assms(2) create_after_begin [OF assms(1)] by simp
  have s2: "s2 = s\<lparr>fw_resources := (fw_resources s)\<lparr>cr_resources := close_fn i # cr_resources (fw_resources s)\<rparr>,
      fw_counters := k, fw_objects := fw_objects s @ [\<lparr>f_key = key, f_closing = False, f_pending = 0\<rparr>]\<rparr>"
    using assms(2) create_after_begin [OF assms(1)] k(3) i by (auto simp del: fun_upd_apply)
  have closed: "nothing_left s (s\<lparr>fw_objects := fw_objects s @ [\<lparr>f_key = key, f_closing = True, f_pending = 0\<rparr>]\<rparr>)"
    by (auto simp: nothing_left_def intro!: exI [of _ "[\<lparr>f_key = key, f_closing = True, f_pending = 0\<rparr>]"])
  show ?thesis
  proof (cases ok)
    case True
    with assms(3) show ?thesis
      by (auto simp: publishForward_def enterForward_def startForward_def s2 i k(1,2) forward_added_def goRun_def Let_def split: if_splits)
  next
    case False
    from assms(3) False
    have "s3 = s\<lparr>fw_objects := fw_objects s @ [\<lparr>f_key = key, f_closing = True, f_pending = 0\<rparr>]\<rparr>"
      by (auto simp: publishForward_def enterForward_def startForward_def s2 i goRun_def Let_def forward_close_def unregisterForward_def unregister_def
          removeForward_def list_update_append res_slots.release_undoes_reserve [OF k(1)] fun_upd_idem split: if_splits)
    with closed False show ?thesis by simp
  qed
qed


text \<open>What a forward request may leave, \<open>key\<close> being the name it would have.\<close>

definition forward_outcome :: "forward_config \<Rightarrow> string \<Rightarrow> forwarding \<Rightarrow> forward_reply \<times> forwarding \<Rightarrow> bool" where
  "forward_outcome c key s out = (case out of
     (ReplyAccept _, s') \<Rightarrow> forward_added c key s s'
   | (_, s') \<Rightarrow> nothing_left s s')"

lemma outcome_published:
  assumes "beginForward c s = (True, s1)"
  shows "forward_outcome c key s (let (i, s2) = createForward c key s1
     in case publishForward c i s2 of (False, s3) \<Rightarrow> (ReplyReject [], s3) | (True, s3) \<Rightarrow> (ReplyAccept p, s3))"
  using publish_after_begin [OF assms, of key]
  by (auto simp: forward_outcome_def Let_def split: prod.splits bool.splits)

lemma outcome_abandoned:
  "beginForward c s = (True, s1) \<Longrightarrow> forward_outcome c key s (listenError text args err, abandonForward c s1)"
  "beginForward c s = (True, s1) \<Longrightarrow> forward_outcome c key s (ReplyReject m, abandonForward c s1)"
  by (simp_all add: forward_outcome_def listenError_def abandon_undoes_begin)

lemma outcome_tcp_listened:
  assumes "beginForward c s = (True, s1)"
  shows "forward_outcome c (joinHostPort host (formatUint (case boundPort (fi_address inp) of Inr n \<Rightarrow> n | Inl _ \<Rightarrow> 0))) s
    (tcp_listened c host port inp s1)"
  using outcome_abandoned(1) [OF assms] outcome_published [OF assms]
  by (auto simp: tcp_listened_def Let_def split: prod.splits option.splits sum.splits bool.splits if_splits)

lemma outcome_unix_listened:
  assumes "beginForward c s = (True, s1)"
  shows "forward_outcome c path s (unix_listened c path inp s1)"
  using outcome_abandoned [OF assms] outcome_published [OF assms]
  by (auto simp: unix_listened_def split: prod.splits option.splits bool.splits if_splits)

lemma outcome_same: "(\<And>p. reply \<noteq> ReplyAccept p) \<Longrightarrow> forward_outcome c key s (reply, s)"
  by (cases reply) (auto simp: forward_outcome_def)

lemma outcome_tcp_forward:
  "fi_payload inp = Inr (host, port) \<Longrightarrow>
   forward_outcome c (joinHostPort host (formatUint (case boundPort (fi_address inp) of Inr n \<Rightarrow> n | Inl _ \<Rightarrow> 0))) s (tcp_forward c inp s)"
  using outcome_tcp_listened [of c s _ host inp port] beginForward_refused [of c s]
  by (auto simp: tcp_forward_def beginForward_def intro!: outcome_same
      split: prod.splits option.splits bool.splits)

lemma outcome_unix_forward:
  "fi_payload inp = Inr (path, n) \<Longrightarrow> forward_outcome c path s (unix_forward c inp s)"
  using outcome_unix_listened [of c s _ path inp] beginForward_refused [of c s]
  by (auto simp: unix_forward_def intro!: outcome_same split: prod.splits bool.splits)

definition forward_name :: "forward_input \<Rightarrow> string" where
  "forward_name inp = (case (fi_payload inp, boundPort (fi_address inp)) of
     (Inr (host, _), Inr n) \<Rightarrow> joinHostPort host (formatUint n) | _ \<Rightarrow> [])"

text \<open>
  C37. A request for a reverse forward either succeeds, and then the forward is registered under its
  name, which was free, its worker runs, its close function is among the resources of the
  connection and it holds one slot; or it fails, and then every slot, registration and name is as
  before. This holds on every path: refusals of the policy or of a limit, errors of the
  listen call, bad addresses and taken names, for TCP ports and for Unix sockets.
\<close>

theorem failed_forwards_leave_nothing:
  "(case tcp_request c ''tcpip-forward'' inp s of
      (ReplyAccept _, s') \<Rightarrow> forward_added c (forward_name inp) s s'
    | (_, s') \<Rightarrow> nothing_left s s')
   \<and> (case unix_request c ''streamlocal-forward@openssh.com'' inp s of
      (ReplyAccept _, s') \<Rightarrow> \<exists>path n. fi_payload inp = Inr (path, n) \<and> forward_added c path s s'
    | (_, s') \<Rightarrow> nothing_left s s')"
proof (cases "fi_payload inp")
  case (Inl e)
  then show ?thesis by (simp add: tcp_request_def unix_request_def tcp_forward_def unix_forward_def)
next
  case (Inr p)
  obtain host port where p: "p = (host, port)" by fastforce
  have accepted: "\<exists>n. boundPort (fi_address inp) = Inr n" if "tcp_forward c inp s = (ReplyAccept x, s')" for x s'
    using that Inr p
    by (auto simp: tcp_forward_def tcp_listened_def listenError_def Let_def split: prod.splits option.splits bool.splits sum.splits if_splits)
  have tcp: "case tcp_forward c inp s of (ReplyAccept _, s') \<Rightarrow> forward_added c (forward_name inp) s s' | (_, s') \<Rightarrow> nothing_left s s'"
    using outcome_tcp_forward [of inp host port c s] accepted Inr p
    by (fastforce simp: forward_outcome_def forward_name_def split: prod.splits forward_reply.splits)
  moreover have "case unix_forward c inp s of (ReplyAccept _, s') \<Rightarrow> \<exists>path n. fi_payload inp = Inr (path, n) \<and> forward_added c path s s'
      | (_, s') \<Rightarrow> nothing_left s s'"
    using outcome_unix_forward [of inp host port c s] Inr p
    by (auto simp: forward_outcome_def split: prod.splits forward_reply.splits)
  ultimately show ?thesis by (simp add: tcp_request_def unix_request_def)
qed

section \<open>Canceling a forward\<close>

lemma boundPort_fits: "boundPort a = Inr n \<Longrightarrow> 0 < n \<and> n \<le> 65535"
  by (auto simp: boundPort_def parsePort_def split: option.splits sum.splits nat.splits if_splits)

text \<open>
  A client that cancels a TCP forward with the address it asked for and the port the server
  answered reaches that forward: the cancellation is accepted, gives the slot and the name
  back and closes the forward, and other names are untouched.
\<close>

theorem cancel_reaches_the_forward:
  assumes "fi_payload inp = Inr (host, port)" "tcp_forward c inp s = (ReplyAccept answer, s1)"
    and "fi_payload inp' = Inr (host, be_uint32 answer)"
    and "tcp_cancel c inp' s1 = (reply, s2)"
  shows "reply = ReplyAccept [] \<and> fw_counters s2 = fw_counters s \<and> fw_forwards s2 = fw_forwards s
    \<and> list_all f_closing (drop (length (fw_objects s)) (fw_objects s2))"
proof -
  obtain n where n: "boundPort (fi_address inp) = Inr n" "answer = put_uint32 (of_nat n)"
    using assms(1,2)
    by (auto simp: tcp_forward_def tcp_listened_def listenError_def Let_def split: prod.splits option.splits bool.splits sum.splits if_splits)
  let ?key = "joinHostPort host (formatUint n)"
  have added: "forward_added c ?key s s1"
    using outcome_tcp_forward [OF assms(1), of c s] assms(2) n(1) by (simp add: forward_outcome_def)
  have "unat (of_nat n :: uint32) = n"
    using boundPort_fits [OF n(1)] by (simp add: unsigned_of_nat take_bit_nat_eq_self)
  then have port: "unat (be_uint32 answer) = n" using n(2) be_uint32_put [of "of_nat n" "[]"] by simp
  have key: "fw_forwards s ?key = None" and s1: "fw_forwards s1 = (fw_forwards s)(?key \<mapsto> length (fw_objects s))"
    "fw_objects s1 = fw_objects s @ [\<lparr>f_key = ?key, f_closing = False, f_pending = 0\<rparr>]"
    "fw_counters s1 = snd (resourceLimiter_reserve (fc_limiter c) (fw_counters s))"
    "fst (resourceLimiter_reserve (fc_limiter c) (fw_counters s))"
    using added by (auto simp: forward_added_def Let_def)
  have released: "resourceLimiter_release (fc_limiter c) (fw_counters s1) = fw_counters s"
    using s1(3,4) res_slots.release_undoes_reserve [of "fc_limiter c" "fw_counters s" "fw_counters s1"]
    by (cases "resourceLimiter_reserve (fc_limiter c) (fw_counters s)") auto
  have "fw_forwards s1 ?key = Some (length (fw_objects s))" by (simp add: s1(1))
  then have "reply = ReplyAccept []" and s2: "s2 = removeForward ?key (length (fw_objects s)) (forward_close c (length (fw_objects s)) s1)"
    using assms(3,4) port by (simp_all add: tcp_cancel_def)
  moreover have "forward_close c (length (fw_objects s)) s1 = s1\<lparr>
      fw_objects := fw_objects s @ [\<lparr>f_key = ?key, f_closing = True, f_pending = 0\<rparr>], fw_counters := fw_counters s\<rparr>"
    by (simp add: forward_close_def s1(2) released)
  ultimately show ?thesis using key by (simp add: removeForward_def s1(1) fun_upd_idem)
qed

definition idle_forwarding :: forwarding where
  "idle_forwarding = \<lparr>fw_resources = no_resources, fw_workers = \<lparr>cw_running = 0, cw_closed = False\<rparr>, fw_counters = (\<lambda>_. 0),
     fw_forwards = Map.empty, fw_objects = []\<rparr>"

definition plain_forwards :: forward_config where
  "plain_forwards = \<lparr>fc_limiter = [\<lparr>rl_limit = 2, rl_active = Some 0\<rparr>], fc_channels = None\<rparr>"

definition sample_forward :: "uint32 \<Rightarrow> forward_input" where
  "sample_forward port = \<lparr>fi_handler = True, fi_context = True, fi_payload = Inr (''h'', port), fi_callback = Some (True, None),
     fi_listen = (True, None), fi_address = Some (joinHostPort ''h'' (formatUint 80))\<rparr>"

lemma sample_port: "boundPort (Some (joinHostPort ''h'' (formatUint 80))) = Inr 80"
  by (simp add: boundPort_def split_join formatUint_digits parsePort_format)


lemma sample_forward_accepted:
  "fst (tcp_forward plain_forwards (sample_forward 0) idle_forwarding) = ReplyAccept (put_uint32 80)"
  by (simp add: tcp_forward_def tcp_listened_def sample_forward_def plain_forwards_def idle_forwarding_def beginForward_def
      rl_counter_def beginAcquisition_def no_resources_def sample_port createForward_def publishForward_def enterForward_def startForward_def
      finishAcquisition_def finish_register_def finish_end_def goRun_def Let_def)

theorem cancel_reaches_the_forward_witness:
  "fst (tcp_cancel plain_forwards (sample_forward 80) (snd (tcp_forward plain_forwards (sample_forward 0) idle_forwarding))) = ReplyAccept []"
proof -
  let ?f = "tcp_forward plain_forwards (sample_forward 0) idle_forwarding"
  have f: "?f = (ReplyAccept (put_uint32 80), snd ?f)" using sample_forward_accepted by (metis prod.collapse)
  have "be_uint32 (put_uint32 80) = 80" using be_uint32_put [of 80 "[]"] by simp
  then have "fi_payload (sample_forward 80) = Inr (''h'', be_uint32 (put_uint32 80))" by (simp add: sample_forward_def)
  from cancel_reaches_the_forward [OF _ f this prod.collapse [symmetric]] show ?thesis by (simp add: sample_forward_def)
qed

end
