(* ===== verification/ForwardSystem.thy ===== *)
theory ForwardSystem
  imports Forwarding
begin

text \<open>
  Forwards under concurrency: the requests of a connection, the accept loops of its forwards, the
  connections they have accepted and \<open>closeAll\<close> run in goroutines of their own. Every section
  between two points where another goroutine may run is a step; any goroutine may take the
  next one. The system is that of one handler, so what other code holds of the limiters is
  part of the counters it starts from.
\<close>

section \<open>Steps\<close>

text \<open>
  What the request that created a forward, or its worker, has done: created it, entered it under
  its name, started the accept loop, ended.
\<close>

datatype forward_phase = Created | Entered | Running | Ended

text \<open>
  \<open>fs_listening\<close> counts the requests that create a listener; \<open>fs_reserved\<close> holds, for each accepted
  connection with a channel slot, the number of its forward, \<open>fs_opening\<close> those between
  \<open>beginOpen\<close> and \<open>endOpen\<close>, \<open>fs_copying\<close> counts those after it; \<open>fs_closer\<close> is what \<open>closeAll\<close> has left to close.
\<close>

record forward_system =
  fs_s :: forwarding
  fs_phases :: "forward_phase list"
  fs_listening :: nat
  fs_reserved :: "nat multiset"
  fs_opening :: "nat multiset"
  fs_copying :: nat
  fs_closer :: "nat list"

definition forwards_start :: "counters \<Rightarrow> forward_system" where
  "forwards_start base = \<lparr>fs_s = \<lparr>fw_resources = no_resources, fw_workers = \<lparr>cw_running = 0, cw_closed = False\<rparr>,
       fw_counters = base, fw_forwards = Map.empty, fw_objects = []\<rparr>,
     fs_phases = [], fs_listening = 0, fs_reserved = {#}, fs_opening = {#}, fs_copying = 0, fs_closer = []\<rparr>"

abbreviation of_forward :: "forward_system \<Rightarrow> nat \<Rightarrow> forward" where
  "of_forward x i \<equiv> fw_objects (fs_s x) ! i"

abbreviation in_phase :: "forward_system \<Rightarrow> nat \<Rightarrow> forward_phase \<Rightarrow> bool" where
  "in_phase x i p \<equiv> i < length (fs_phases x) \<and> fs_phases x ! i = p"

text \<open>
  \<open>close\<close> is reached from a cancel request, from the end of the context, from an error that escalates and
  from the end of the worker; so it may run at any time. The name is removed only after the
  wait for pending opens.
\<close>

inductive forward_step :: "forward_config \<Rightarrow> forward_system \<Rightarrow> forward_system \<Rightarrow> bool" for c where
  listen: "beginForward c (fs_s x) = (ok, s') \<Longrightarrow>
    forward_step c x (x\<lparr>fs_s := s', fs_listening := fs_listening x + (if ok then 1 else 0)\<rparr>)"
| listen_failed: "fs_listening x > 0 \<Longrightarrow>
    forward_step c x (x\<lparr>fs_s := abandonForward c (fs_s x), fs_listening := fs_listening x - 1\<rparr>)"
| listening: "fs_listening x > 0 \<Longrightarrow> createForward c key (fs_s x) = (i, s') \<Longrightarrow>
    forward_step c x (x\<lparr>fs_s := s', fs_listening := fs_listening x - 1, fs_phases := fs_phases x @ [Created]\<rparr>)"
| enter: "in_phase x i Created \<Longrightarrow> enterForward c i (fs_s x) = (ok, s') \<Longrightarrow>
    forward_step c x (x\<lparr>fs_s := s', fs_phases := (fs_phases x)[i := if ok then Entered else Ended]\<rparr>)"
| start: "in_phase x i Entered \<Longrightarrow> startForward c i (fs_s x) = (ok, s') \<Longrightarrow>
    forward_step c x (x\<lparr>fs_s := s', fs_phases := (fs_phases x)[i := if ok then Running else Ended]\<rparr>)"
| close: "forward_step c x (x\<lparr>fs_s := forward_close c i (fs_s x)\<rparr>)"
| remove: "i < length (fs_phases x) \<Longrightarrow> f_closing (of_forward x i) \<Longrightarrow> f_pending (of_forward x i) = 0 \<Longrightarrow>
    forward_step c x (x\<lparr>fs_s := removeForward (f_key (of_forward x i)) i (fs_s x)\<rparr>)"
| worker_end: "in_phase x i Running \<Longrightarrow> f_closing (of_forward x i) \<Longrightarrow> f_pending (of_forward x i) = 0 \<Longrightarrow>
    forward_step c x (x\<lparr>fs_s := unregisterForward i ((fs_s x)\<lparr>fw_workers := worker_done (fw_workers (fs_s x))\<rparr>),
      fs_phases := (fs_phases x)[i := Ended]\<rparr>)"
| accept: "in_phase x i Running \<Longrightarrow> channelLimiter_reserve (fc_channels c) (fw_counters (fs_s x)) = (ok, k) \<Longrightarrow>
    forward_step c x (x\<lparr>fs_s := (fs_s x)\<lparr>fw_counters := k\<rparr>, fs_reserved := (if ok then {#i#} else {#}) + fs_reserved x\<rparr>)"
| open_begin: "i \<in># fs_reserved x \<Longrightarrow> beginOpen i (fs_s x) = (True, s') \<Longrightarrow>
    forward_step c x (x\<lparr>fs_s := s', fs_reserved := fs_reserved x - {#i#}, fs_opening := add_mset i (fs_opening x)\<rparr>)"
| open_refused: "i \<in># fs_reserved x \<Longrightarrow> beginOpen i (fs_s x) = (False, s') \<Longrightarrow>
    forward_step c x (x\<lparr>fs_s := s'\<lparr>fw_counters := channelLimiter_release (fc_channels c) (fw_counters s')\<rparr>,
      fs_reserved := fs_reserved x - {#i#}\<rparr>)"
| open_end: "i \<in># fs_opening x \<Longrightarrow>
    forward_step c x (x\<lparr>fs_s := endOpen i (fs_s x), fs_opening := fs_opening x - {#i#}, fs_copying := fs_copying x + 1\<rparr>)"
| copied: "fs_copying x > 0 \<Longrightarrow>
    forward_step c x (x\<lparr>fs_s := (fs_s x)\<lparr>fw_counters := channelLimiter_release (fc_channels c) (fw_counters (fs_s x))\<rparr>,
      fs_copying := fs_copying x - 1\<rparr>)"
| closeAll: "closeAll_begin (fw_resources (fs_s x)) = (Some (work, waits), r') \<Longrightarrow>
    forward_step c x (x\<lparr>fs_s := (fs_s x)\<lparr>fw_resources := r'\<rparr>, fs_closer := work @ fs_closer x\<rparr>)"
| closeAll_one: "fs_closer x = n # rest \<Longrightarrow>
    forward_step c x (x\<lparr>fs_s := run_close_fn c n (fs_s x), fs_closer := rest\<rparr>)"

section \<open>Slots\<close>

definition open_forwards :: "forwarding \<Rightarrow> nat" where
  "open_forwards s = length (filter (\<lambda>f. \<not> f_closing f) (fw_objects s))"

abbreviation forward_weight :: "forward_config \<Rightarrow> nat \<Rightarrow> int" where
  "forward_weight c a \<equiv> int (levels_at (fc_limiter c) a)"

abbreviation channel_weight :: "forward_config \<Rightarrow> nat \<Rightarrow> int" where
  "channel_weight c a \<equiv> int (levels_at (channel_levels (fc_channels c)) a)"

text \<open>What the counter at \<open>a\<close> holds beyond the slots of the open forwards.\<close>

definition surplus :: "forward_config \<Rightarrow> nat \<Rightarrow> forwarding \<Rightarrow> int" where
  "surplus c a s = fw_counters s a - int (open_forwards s) * forward_weight c a"

lemma filter_length_update:
  "i < length xs \<Longrightarrow> length (filter P (xs[i := y])) + (if P (xs ! i) then 1 else 0) = length (filter P xs) + (if P y then 1 else 0)"
proof (induction xs arbitrary: i)
  case (Cons x xs)
  then show ?case using Cons.IH [of "i - 1"] by (cases i) auto
qed simp

lemma surplus_close [simp]: "surplus c a (forward_close c i s) = surplus c a s"
  using filter_length_update [of i "fw_objects s" "\<lambda>f. \<not> f_closing f" "(fw_objects s ! i)\<lparr>f_closing := True\<rparr>", symmetric]
  by (auto simp: surplus_def open_forwards_def forward_close_def resourceLimiter_release_eq algebra_simps)

lemma surplus_run_close_fn [simp]: "surplus c a (run_close_fn c n s) = surplus c a s"
  by (simp add: run_close_fn_def)

lemma surplus_run_close_fns [simp]: "surplus c a (fold (run_close_fn c) ns s) = surplus c a s"
  by (induction ns arbitrary: s) auto

lemma surplus_registry [simp]:
  "surplus c a (unregisterForward i s) = surplus c a s"
  "surplus c a (removeForward key i s) = surplus c a s"
  "surplus c a (s\<lparr>fw_workers := ws\<rparr>) = surplus c a s"
  "surplus c a (s\<lparr>fw_resources := r\<rparr>) = surplus c a s"
  "surplus c a (s\<lparr>fw_forwards := m\<rparr>) = surplus c a s"
  by (simp_all add: surplus_def open_forwards_def unregisterForward_def removeForward_def)

lemma surplus_pending:
  "i < length (fw_objects s) \<Longrightarrow> surplus c a (s\<lparr>fw_objects := (fw_objects s)[i := (fw_objects s ! i)\<lparr>f_pending := n\<rparr>]\<rparr>) = surplus c a s"
  using filter_length_update [of i "fw_objects s" "\<lambda>f. \<not> f_closing f" "(fw_objects s ! i)\<lparr>f_pending := n\<rparr>"]
  by (simp add: surplus_def open_forwards_def split: if_splits)

lemma surplus_begin:
  "beginForward c s = (ok, s') \<Longrightarrow> surplus c a s' = surplus c a s + (if ok then forward_weight c a else 0)"
proof (cases ok)
  case True
  assume "beginForward c s = (ok, s')"
  then have "beginForward c s = (True, s')" using True by simp
  then obtain k where "resourceLimiter_reserve (fc_limiter c) (fw_counters s) = (True, k)"
    "fw_counters s' = k" "fw_objects s' = fw_objects s"
    by (rule beginForward_granted) simp
  then show ?thesis using True resourceLimiter_reserve_granted by (simp add: surplus_def open_forwards_def)
qed (auto dest: beginForward_refused)

lemma surplus_abandon: "surplus c a (abandonForward c s) = surplus c a s - forward_weight c a"
  by (simp add: abandonForward_def surplus_def open_forwards_def resourceLimiter_release_eq)

lemma surplus_create: "createForward c key s = (i, s') \<Longrightarrow> surplus c a s' = surplus c a s - forward_weight c a"
  by (auto simp: createForward_def Let_def split: prod.splits) (simp add: surplus_def open_forwards_def algebra_simps)

lemma surplus_enter: "enterForward c i s = (ok, s') \<Longrightarrow> surplus c a s' = surplus c a s"
  by (auto simp: enterForward_def Let_def split: if_splits)

lemma surplus_start: "startForward c i s = (ok, s') \<Longrightarrow> surplus c a s' = surplus c a s"
  by (auto simp: startForward_def split: prod.splits bool.splits)

definition slots_exact :: "forward_config \<Rightarrow> counters \<Rightarrow> forward_system \<Rightarrow> bool" where
  "slots_exact c base x \<longleftrightarrow> (\<forall>a. surplus c a (fs_s x) = base a + int (fs_listening x) * forward_weight c a
     + int (size (fs_reserved x) + size (fs_opening x) + fs_copying x) * channel_weight c a)"

section \<open>Names and registrations\<close>

text \<open>
  What holds of forward \<open>i\<close>: \<open>pending\<close> counts its opens in flight; while it has such opens, or is running
  and not closed, it is the forward with its name; it has no connection before it is
  running; once it has ended it is closed; and while it is not closed, \<open>closeAll\<close> will close it.
\<close>

definition forward_ok :: "forward_system \<Rightarrow> nat \<Rightarrow> bool" where
  "forward_ok x i \<longleftrightarrow> f_pending (of_forward x i) = count (fs_opening x) i
     \<and> (i \<in># fs_opening x \<or> fs_phases x ! i \<in> {Entered, Running} \<and> \<not> f_closing (of_forward x i)
          \<longrightarrow> fw_forwards (fs_s x) (f_key (of_forward x i)) = Some i)
     \<and> (fs_phases x ! i \<in> {Created, Entered} \<longrightarrow> i \<notin># fs_opening x \<and> i \<notin># fs_reserved x)
     \<and> (fs_phases x ! i = Ended \<longrightarrow> f_closing (of_forward x i))
     \<and> (\<not> f_closing (of_forward x i) \<longrightarrow> close_fn i \<in> set (cr_resources (fw_resources (fs_s x))) \<union> set (fs_closer x))"

definition forwards_ok :: "forward_system \<Rightarrow> bool" where
  "forwards_ok x \<longleftrightarrow> length (fs_phases x) = length (fw_objects (fs_s x))
     \<and> (\<forall>i \<in># fs_reserved x + fs_opening x. i < length (fw_objects (fs_s x)))
     \<and> (\<forall>i < length (fw_objects (fs_s x)). forward_ok x i)
     \<and> (cr_closed (fw_resources (fs_s x)) \<longrightarrow> cr_resources (fw_resources (fs_s x)) = [])"

text \<open>A change of the system that keeps the forwards keeps the invariant if it keeps it of each forward.\<close>

lemma forwards_ok_pointwise:
  assumes "forwards_ok x" "length (fw_objects (fs_s y)) = length (fw_objects (fs_s x))"
    "length (fs_phases y) = length (fs_phases x)"
    "\<And>i. i < length (fw_objects (fs_s x)) \<Longrightarrow> forward_ok x i \<Longrightarrow> forward_ok y i"
    "set_mset (fs_reserved y + fs_opening y) \<subseteq> set_mset (fs_reserved x + fs_opening x)"
    "cr_closed (fw_resources (fs_s x)) \<Longrightarrow> cr_resources (fw_resources (fs_s x)) = [] \<Longrightarrow> cr_closed (fw_resources (fs_s y)) \<Longrightarrow> cr_resources (fw_resources (fs_s y)) = []"
    "\<not> cr_closed (fw_resources (fs_s x)) \<Longrightarrow> cr_closed (fw_resources (fs_s y)) \<Longrightarrow> cr_resources (fw_resources (fs_s y)) = []"
  shows "forwards_ok y"
  using assms unfolding forwards_ok_def by (metis subsetD)

lemma forwards_okD:
  assumes "forwards_ok x"
  shows "length (fs_phases x) = length (fw_objects (fs_s x))"
    "i \<in># fs_reserved x \<Longrightarrow> i < length (fw_objects (fs_s x))"
    "i \<in># fs_opening x \<Longrightarrow> i < length (fw_objects (fs_s x))"
    "i < length (fw_objects (fs_s x)) \<Longrightarrow> forward_ok x i"
    "cr_closed (fw_resources (fs_s x)) \<Longrightarrow> cr_resources (fw_resources (fs_s x)) = []"
  using assms by (auto simp: forwards_ok_def)

lemma close_fn_eq [simp]: "close_fn i = close_fn j \<longleftrightarrow> i = j"
  by (simp add: close_fn_def)

lemma forward_step_slots:
  assumes "forward_step c x y" "slots_exact c base x" "forwards_ok x"
  shows "slots_exact c base y"
  using assms
proof cases
  case (listen ok s')
  then show ?thesis using assms(2) surplus_begin [OF listen(2)] by (auto simp: slots_exact_def algebra_simps)
next
  case listen_failed
  then show ?thesis using assms(2) by (auto simp: slots_exact_def surplus_abandon algebra_simps of_nat_diff)
next
  case (listening key i s')
  then show ?thesis using assms(2) surplus_create [OF listening(3)] by (auto simp: slots_exact_def algebra_simps of_nat_diff)
next
  case (enter i ok s')
  then show ?thesis using assms(2) surplus_enter [OF enter(3)] by (simp add: slots_exact_def)
next
  case (start i ok s')
  then show ?thesis using assms(2) surplus_start [OF start(3)] by (simp add: slots_exact_def)
next
  case (accept i ok k)
  then show ?thesis using assms(2) chan_slots.granted [of "fc_channels c" "fw_counters (fs_s x)" k] chan_slots.refused [of "fc_channels c" "fw_counters (fs_s x)" k]
    by (cases ok) (auto simp: slots_exact_def surplus_def open_forwards_def algebra_simps)
next
  case (open_begin i s')
  then show ?thesis using assms(2) surplus_pending [of i "fs_s x" c] forwards_okD(2) [OF assms(3), of i]
    by (auto simp: slots_exact_def beginOpen_def size_Diff_singleton of_nat_diff algebra_simps split: if_splits
        dest!: multi_member_split)
next
  case (open_refused i s')
  then show ?thesis using assms(2)
    by (auto simp: slots_exact_def surplus_def open_forwards_def beginOpen_def chan_slots.released algebra_simps split: if_splits
        dest!: multi_member_split)
next
  case (open_end i)
  then show ?thesis using assms(2) surplus_pending [of i "fs_s x" c] forwards_okD(3) [OF assms(3), of i]
    by (auto simp: slots_exact_def endOpen_def algebra_simps dest!: multi_member_split)
next
  case copied
  then show ?thesis using assms(2)
    by (auto simp: slots_exact_def surplus_def open_forwards_def chan_slots.released algebra_simps of_nat_diff)
qed (use assms(2) in \<open>auto simp: slots_exact_def\<close>)

lemma close_forwards [simp]:
  "fw_forwards (forward_close c i s) = fw_forwards s" "fw_resources (forward_close c i s) = fw_resources s"
  "length (fw_objects (forward_close c i s)) = length (fw_objects s)"
  "j < length (fw_objects s) \<Longrightarrow> fw_objects (forward_close c i s) ! j =
     (if i = j then (fw_objects s ! j)\<lparr>f_closing := True\<rparr> else fw_objects s ! j)"
  by (auto simp: forward_close_def nth_list_update)

lemma close_ok: "forwards_ok x \<Longrightarrow> forwards_ok (x\<lparr>fs_s := forward_close c i (fs_s x)\<rparr>)"
  by (erule forwards_ok_pointwise) (auto simp: forward_ok_def)

text \<open>A forward that has ended, or never got its name, leaves the others alone.\<close>

lemma unregister_ok:
  assumes "forwards_ok x" "i < length (fs_phases x)"
  shows "forwards_ok (x\<lparr>fs_s := forward_close c i (unregisterForward i (fs_s x)), fs_phases := (fs_phases x)[i := Ended]\<rparr>)"
  using assms(1)
proof (rule forwards_ok_pointwise)
  fix j
  assume "j < length (fw_objects (fs_s x))" "forward_ok x j"
  then show "forward_ok (x\<lparr>fs_s := forward_close c i (unregisterForward i (fs_s x)), fs_phases := (fs_phases x)[i := Ended]\<rparr>) j"
    using assms(2) by (cases "i = j") (simp_all add: forward_ok_def unregisterForward_def unregister_def)
qed (simp_all add: unregisterForward_def unregister_def)

lemma remove_ok:
  assumes "forwards_ok x" "f_closing (of_forward x i)" "i \<notin># fs_opening x"
  shows "forwards_ok (x\<lparr>fs_s := removeForward (f_key (of_forward x i)) i (fs_s x)\<rparr>)"
  using assms(1)
proof (rule forwards_ok_pointwise)
  fix j
  assume "forward_ok x j"
  then show "forward_ok (x\<lparr>fs_s := removeForward (f_key (of_forward x i)) i (fs_s x)\<rparr>) j"
    using assms(2,3) unfolding forward_ok_def removeForward_def by (cases "j = i") auto
qed (simp_all add: removeForward_def split: if_splits)

lemma enter_ok:
  assumes "forwards_ok x" "in_phase x i Created" "enterForward c i (fs_s x) = (ok, s')"
  shows "forwards_ok (x\<lparr>fs_s := s', fs_phases := (fs_phases x)[i := if ok then Entered else Ended]\<rparr>)"
proof (cases ok)
  case True
  then have free: "fw_forwards (fs_s x) (f_key (of_forward x i)) = None"
    and s': "s' = (fs_s x)\<lparr>fw_forwards := (fw_forwards (fs_s x))(f_key (of_forward x i) \<mapsto> i)\<rparr>"
    using assms(3) by (auto simp: enterForward_def Let_def split: if_splits)
  have len: "length (fs_phases x) = length (fw_objects (fs_s x))" using assms(1) by (rule forwards_okD(1))
  from assms(1) show ?thesis
    by (rule forwards_ok_pointwise) (use assms(2) free len True in \<open>auto simp: forward_ok_def s' nth_list_update\<close>)
next
  case False
  then have "s' = forward_close c i (unregisterForward i (fs_s x))"
    using assms(3) by (auto simp: enterForward_def Let_def split: if_splits)
  with unregister_ok [OF assms(1), of i c] assms(2) False show ?thesis by simp
qed

lemma start_ok:
  assumes "forwards_ok x" "in_phase x i Entered" "startForward c i (fs_s x) = (ok, s')"
  shows "forwards_ok (x\<lparr>fs_s := s', fs_phases := (fs_phases x)[i := if ok then Running else Ended]\<rparr>)"
proof (cases ok)
  case True
  then obtain ws where s': "s' = (fs_s x)\<lparr>fw_workers := ws\<rparr>"
    using assms(3) by (auto simp: startForward_def split: prod.splits bool.splits)
  have len: "length (fs_phases x) = length (fw_objects (fs_s x))" using assms(1) by (rule forwards_okD(1))
  from assms(1) show ?thesis
    by (rule forwards_ok_pointwise) (use assms(2) len True in \<open>auto simp: forward_ok_def s' nth_list_update\<close>)
next
  case False
  then have s': "s' = forward_close c i (removeForward (f_key (of_forward x i)) i (unregisterForward i (fs_s x)))"
    using assms(3) by (auto simp: startForward_def split: prod.splits bool.splits)
  have i: "i < length (fw_objects (fs_s x))" "i \<notin># fs_opening x"
    using forwards_okD(1,4) [OF assms(1)] assms(2) by (auto simp: forward_ok_def)
  let ?y = "x\<lparr>fs_s := forward_close c i (unregisterForward i (fs_s x)), fs_phases := (fs_phases x)[i := Ended]\<rparr>"
  have "forwards_ok ?y" using unregister_ok [OF assms(1), of i c] assms(2) by simp
  from remove_ok [OF this, of i] i
  have "forwards_ok (?y\<lparr>fs_s := removeForward (f_key (of_forward x i)) i (fs_s ?y)\<rparr>)"
    by (simp add: unregisterForward_def)
  moreover have "removeForward (f_key (of_forward x i)) i (fs_s ?y) = s'"
    by (auto simp: s' removeForward_def forward_close_def unregisterForward_def)
  ultimately have "forwards_ok (?y\<lparr>fs_s := s'\<rparr>)" by metis
  moreover have "?y\<lparr>fs_s := s'\<rparr> = x\<lparr>fs_s := s', fs_phases := (fs_phases x)[i := if ok then Running else Ended]\<rparr>" using False by simp
  ultimately show ?thesis by metis
qed

text \<open>A new forward is registered for \<open>closeAll\<close>, or closed at once.\<close>

lemma create_registers:
  assumes "createForward c key s = (i, s')"
  shows "i = length (fw_objects s)" "fw_forwards s' = fw_forwards s"
    "fw_objects s' = fw_objects s @ [\<lparr>f_key = key, f_closing = cr_closed (fw_resources s), f_pending = 0\<rparr>]"
    "cr_closed (fw_resources s') = cr_closed (fw_resources s)"
    "cr_resources (fw_resources s') = (if cr_closed (fw_resources s) then [] else [close_fn i]) @ cr_resources (fw_resources s)"
  using assms
  by (cases "cr_closed (fw_resources s)";
      auto simp: createForward_def finishAcquisition_def finish_register_def finish_end_def run_close_fn_def close_fn_def
      forward_close_def Let_def split: if_splits)+

lemma create_ok:
  assumes "forwards_ok x" "createForward c key (fs_s x) = (i, s')"
  shows "forwards_ok (x\<lparr>fs_s := s', fs_listening := n, fs_phases := fs_phases x @ [Created]\<rparr>)" (is "forwards_ok ?y")
proof -
  note new = create_registers [OF assms(2)]
  have unused: "i \<notin># fs_reserved x" "i \<notin># fs_opening x" "count (fs_opening x) i = 0"
    using forwards_okD(2,3) [OF assms(1), of i] new(1) by (auto simp: count_eq_zero_iff)
  have len: "length (fs_phases x) = length (fw_objects (fs_s x))" using assms(1) by (rule forwards_okD(1))
  have "forward_ok ?y i" using unused len by (simp add: forward_ok_def new nth_append)
  moreover have "forward_ok ?y j" if "j < length (fw_objects (fs_s x))" for j
    using forwards_okD(4) [OF assms(1) that] that len by (auto simp: forward_ok_def new nth_append)
  ultimately have "forward_ok ?y j" if "j < Suc (length (fw_objects (fs_s x)))" for j
    using that new(1) by (cases "j = i") auto
  then show ?thesis using forwards_okD(2,3,5) [OF assms(1)] len by (auto simp: forwards_ok_def new intro: less_SucI)
qed

lemma begin_open_ok:
  assumes "forwards_ok x" "i \<in># fs_reserved x" "beginOpen i (fs_s x) = (True, s')"
  shows "forwards_ok (x\<lparr>fs_s := s', fs_reserved := fs_reserved x - {#i#}, fs_opening := add_mset i (fs_opening x)\<rparr>)"
proof -
  let ?f = "of_forward x i"
  have s': "\<not> f_closing ?f" "s' = (fs_s x)\<lparr>fw_objects := (fw_objects (fs_s x))[i := ?f\<lparr>f_pending := f_pending ?f + 1\<rparr>]\<rparr>"
    using assms(3) by (auto simp: beginOpen_def split: if_splits)
  have i: "i < length (fw_objects (fs_s x))" using forwards_okD(2) [OF assms(1,2)] .
  have owner: "fw_forwards (fs_s x) (f_key ?f) = Some i" "fs_phases x ! i \<notin> {Created, Entered}"
    using forwards_okD(4) [OF assms(1) i] s'(1) assms(2) by (cases "fs_phases x ! i"; simp add: forward_ok_def)+
  from assms(1) show ?thesis
  proof (rule forwards_ok_pointwise)
    fix j
    assume "j < length (fw_objects (fs_s x))" "forward_ok x j"
    then show "forward_ok (x\<lparr>fs_s := s', fs_reserved := fs_reserved x - {#i#}, fs_opening := add_mset i (fs_opening x)\<rparr>) j"
      using owner i by (cases "i = j") (auto simp: forward_ok_def s'(2) dest: in_diffD)
  qed (use assms(2) s'(2) in \<open>auto dest: in_diffD\<close>)
qed

lemma end_open_ok:
  assumes "forwards_ok x" "i \<in># fs_opening x"
  shows "forwards_ok (x\<lparr>fs_s := endOpen i (fs_s x), fs_opening := fs_opening x - {#i#}\<rparr>)"
  using assms(1)
proof (rule forwards_ok_pointwise)
  have i: "i < length (fw_objects (fs_s x))" using forwards_okD(3) [OF assms] .
  fix j
  assume "j < length (fw_objects (fs_s x))" "forward_ok x j"
  then show "forward_ok (x\<lparr>fs_s := endOpen i (fs_s x), fs_opening := fs_opening x - {#i#}\<rparr>) j"
    using i assms(2) by (cases "i = j") (auto simp: forward_ok_def endOpen_def dest: in_diffD)
qed (use assms(2) in \<open>auto simp: endOpen_def dest: in_diffD\<close>)

lemma closeAll_ok:
  assumes "forwards_ok x" "closeAll_begin (fw_resources (fs_s x)) = (Some (work, waits), r')"
  shows "forwards_ok (x\<lparr>fs_s := (fs_s x)\<lparr>fw_resources := r'\<rparr>, fs_closer := work @ fs_closer x\<rparr>)"
  using assms(1)
proof (rule forwards_ok_pointwise)
  have work: "work = cr_resources (fw_resources (fs_s x))" "cr_resources r' = []"
    using assms(2) by (auto simp: closeAll_begin_def Let_def split: if_splits)
  fix j
  assume "forward_ok x j"
  then show "forward_ok (x\<lparr>fs_s := (fs_s x)\<lparr>fw_resources := r'\<rparr>, fs_closer := work @ fs_closer x\<rparr>) j"
    by (simp add: forward_ok_def work)
qed (use assms(2) in \<open>auto simp: closeAll_begin_def Let_def split: if_splits\<close>)

lemma closeAll_one_ok:
  assumes "forwards_ok x" "fs_closer x = n # rest"
  shows "forwards_ok (x\<lparr>fs_s := run_close_fn c n (fs_s x), fs_closer := rest\<rparr>)"
  using assms(1)
proof (rule forwards_ok_pointwise)
  fix j
  assume "j < length (fw_objects (fs_s x))" "forward_ok x j"
  then show "forward_ok (x\<lparr>fs_s := run_close_fn c n (fs_s x), fs_closer := rest\<rparr>) j"
    using assms(2) by (cases "n = close_fn j"; simp add: forward_ok_def run_close_fn_def; auto simp: close_fn_def)
qed (simp_all add: run_close_fn_def split: if_splits)

text \<open>Steps that touch neither the forwards nor their registrations, other than to add them to the resources in progress.\<close>

lemma same_forwards_ok:
  assumes "forwards_ok x" "fw_objects s' = fw_objects (fs_s x)" "fw_forwards s' = fw_forwards (fs_s x)"
    "cr_resources (fw_resources s') = cr_resources (fw_resources (fs_s x))" "cr_closed (fw_resources s') = cr_closed (fw_resources (fs_s x))"
  shows "forwards_ok (x\<lparr>fs_s := s'\<rparr>)"
  using assms(1) by (rule forwards_ok_pointwise) (use assms(2-) in \<open>simp_all add: forward_ok_def\<close>)

lemma forwards_ok_counts [simp]:
  "forwards_ok (x\<lparr>fs_listening := n\<rparr>) = forwards_ok x" "forwards_ok (x\<lparr>fs_copying := n\<rparr>) = forwards_ok x"
  by (simp_all add: forwards_ok_def forward_ok_def)

lemma accept_ok:
  assumes "forwards_ok x" "in_phase x i Running"
  shows "forwards_ok (x\<lparr>fs_s := (fs_s x)\<lparr>fw_counters := k\<rparr>, fs_reserved := (if ok then {#i#} else {#}) + fs_reserved x\<rparr>)"
    (is "forwards_ok ?y")
proof -
  have len: "length (fs_phases x) = length (fw_objects (fs_s x))" using assms(1) by (rule forwards_okD(1))
  have "forward_ok ?y j" if "j < length (fw_objects (fs_s x))" for j
    using forwards_okD(4) [OF assms(1) that] assms(2) by (cases "i = j") (simp_all add: forward_ok_def)
  then show ?thesis using forwards_okD(2,3,5) [OF assms(1)] assms(2) len
    by (auto simp: forwards_ok_def split: if_splits)
qed

lemma refused_ok: "forwards_ok x \<Longrightarrow> forwards_ok (x\<lparr>fs_s := (fs_s x)\<lparr>fw_counters := k\<rparr>, fs_reserved := fs_reserved x - {#i#}\<rparr>)"
  by (erule forwards_ok_pointwise) (auto simp: forward_ok_def dest: in_diffD)

lemma worker_end_ok:
  assumes "forwards_ok x" "in_phase x i Running" "f_closing (of_forward x i)"
  shows "forwards_ok (x\<lparr>fs_s := unregisterForward i ((fs_s x)\<lparr>fw_workers := ws\<rparr>), fs_phases := (fs_phases x)[i := Ended]\<rparr>)"
proof -
  have "forwards_ok (x\<lparr>fs_s := (fs_s x)\<lparr>fw_workers := ws\<rparr>\<rparr>)" using assms(1) by (rule same_forwards_ok) simp_all
  from unregister_ok [OF this, of i] show ?thesis using assms(2,3) by (simp add: forward_close_def unregisterForward_def)
qed

lemma forward_step_ok:
  assumes "forward_step c x y" "forwards_ok x"
  shows "forwards_ok y"
  using assms
proof cases
  case (listen ok s')
  have "forwards_ok (x\<lparr>fs_s := s'\<rparr>)"
  proof (cases ok)
    case True
    with listen(2) have "beginForward c (fs_s x) = (True, s')" by simp
    then show ?thesis by (rule beginForward_granted) (use assms(2) in \<open>auto intro!: same_forwards_ok\<close>)
  next
    case False
    with listen(2) have "s' = fs_s x" by (auto dest: beginForward_refused)
    then show ?thesis using assms(2) by simp
  qed
  with listen(1) show ?thesis by simp
next
  case listen_failed
  have "forwards_ok (x\<lparr>fs_s := abandonForward c (fs_s x)\<rparr>)"
    using assms(2) by (rule same_forwards_ok)
      (simp_all add: abandonForward_def finishAcquisition_def finish_register_def finish_end_def Let_def)
  with listen_failed(1) show ?thesis by simp
next
  case (remove i)
  have "count (fs_opening x) i = 0"
    using forwards_okD(4) [OF assms(2), of i] forwards_okD(1) [OF assms(2)] remove(2,4) by (simp add: forward_ok_def)
  then have "i \<notin># fs_opening x" by (simp add: count_eq_zero_iff)
  with remove show ?thesis using assms(2) by (simp add: remove_ok)
next
  case copied
  have "forwards_ok (x\<lparr>fs_s := (fs_s x)\<lparr>fw_counters := channelLimiter_release (fc_channels c) (fw_counters (fs_s x))\<rparr>\<rparr>)"
    using assms(2) by (rule same_forwards_ok) simp_all
  with copied(1) show ?thesis by simp
next
  case (open_refused i s')
  then have "s' = fs_s x" by (simp add: beginOpen_def split: if_splits)
  with open_refused(1) assms(2) show ?thesis by (simp add: refused_ok)
qed (use assms(2) in \<open>simp_all add: create_ok enter_ok start_ok close_ok worker_end_ok accept_ok begin_open_ok end_open_ok
      closeAll_ok closeAll_one_ok\<close>)

interpretation forwards: step_invariant "forward_step c" "\<lambda>x. forwards_ok x \<and> slots_exact c base x" for c base
  by unfold_locales (blast intro: forward_step_ok forward_step_slots)

lemma reachable_forwards:
  "(forward_step c)\<^sup>*\<^sup>* (forwards_start base) x \<Longrightarrow> forwards_ok x \<and> slots_exact c base x"
  by (erule forwards.steps_keep)
    (simp add: forwards_start_def forwards_ok_def slots_exact_def surplus_def open_forwards_def no_resources_def)

text \<open>
  C31. However the requests, accept loops, connections and the end of the connection interleave: each
  counter of the limiters is what it was plus one slot for every request that creates a listener and
  every forward not closed, and one channel slot for every accepted connection in progress; a
  channel open in flight belongs to the forward that has its name now, so a later forward of the
  same name never sees the opens of an earlier one; and once \<open>closeAll\<close> has run its close
  functions no forward is open, also none created meanwhile.
\<close>

theorem forwards_hold_exact_slots:
  assumes "(forward_step c)\<^sup>*\<^sup>* (forwards_start base) x"
  shows "(\<forall>a. fw_counters (fs_s x) a = base a + int (fs_listening x + open_forwards (fs_s x)) * forward_weight c a
      + int (size (fs_reserved x) + size (fs_opening x) + fs_copying x) * channel_weight c a)
    \<and> (\<forall>i \<in># fs_opening x. fw_forwards (fs_s x) (f_key (of_forward x i)) = Some i)
    \<and> (cr_closed (fw_resources (fs_s x)) \<and> fs_closer x = [] \<longrightarrow> open_forwards (fs_s x) = 0)"
proof -
  have ok: "forwards_ok x" and slots: "slots_exact c base x" using reachable_forwards [OF assms] by simp_all
  have "fw_counters (fs_s x) a = base a + int (fs_listening x + open_forwards (fs_s x)) * forward_weight c a
      + int (size (fs_reserved x) + size (fs_opening x) + fs_copying x) * channel_weight c a" for a
    using slots unfolding slots_exact_def surplus_def by (simp add: algebra_simps)
  moreover have "fw_forwards (fs_s x) (f_key (of_forward x i)) = Some i" if "i \<in># fs_opening x" for i
    using forwards_okD(4) [OF ok forwards_okD(3) [OF ok that]] that by (simp add: forward_ok_def)
  moreover have "open_forwards (fs_s x) = 0" if closed: "cr_closed (fw_resources (fs_s x))" "fs_closer x = []"
  proof -
    have "f_closing (of_forward x i)" if "i < length (fw_objects (fs_s x))" for i
      using forwards_okD(4) [OF ok that] forwards_okD(5) [OF ok] closed by (auto simp: forward_ok_def)
    then show ?thesis by (simp add: open_forwards_def filter_empty_conv all_set_conv_all_nth)
  qed
  ultimately show ?thesis by blast
qed

definition sample_config :: forward_config where
  "sample_config = \<lparr>fc_limiter = [\<lparr>rl_limit = 2, rl_active = Some 0\<rparr>],
     fc_channels = Some \<lparr>cl_limit = 4, cl_active = 1, cl_global = []\<rparr>\<rparr>"

definition sample_state :: "connectionResources \<Rightarrow> nat \<Rightarrow> int \<Rightarrow> int \<Rightarrow> (string \<rightharpoonup> nat) \<Rightarrow> forward list \<Rightarrow> forwarding" where
  "sample_state r n k0 k1 m fs = \<lparr>fw_resources = r, fw_workers = \<lparr>cw_running = n, cw_closed = False\<rparr>,
     fw_counters = (\<lambda>_. 0)(0 := k0, 1 := k1), fw_forwards = m, fw_objects = fs\<rparr>"

text \<open>A forward opens a channel for its first connection when \<open>closeAll\<close> closes it.\<close>

lemma sample_forwards_run:
  defines "r \<equiv> \<lambda>open. no_resources\<lparr>cr_resources := if open then [close_fn 0] else [], cr_closed := \<not> open\<rparr>"
    and "f \<equiv> \<lambda>closed n. \<lparr>f_key = ''p'', f_closing = closed, f_pending = n\<rparr>"
  shows "(forward_step sample_config)\<^sup>*\<^sup>* (forwards_start (\<lambda>_. 0))
    \<lparr>fs_s = sample_state (r False) 1 0 1 [''p'' \<mapsto> 0] [f True 1], fs_phases = [Running], fs_listening = 0,
     fs_reserved = {#}, fs_opening = {#0#}, fs_copying = 0, fs_closer = []\<rparr>"
proof -
  let ?x = "\<lambda>s ph n res op cl. \<lparr>fs_s = s, fs_phases = ph, fs_listening = n, fs_reserved = res, fs_opening = op, fs_copying = 0, fs_closer = cl\<rparr>"
  let ?R = "forward_step sample_config"
  note [trans] = rtranclp.rtrancl_into_rtrancl
  have "?R (forwards_start (\<lambda>_. 0)) (?x (sample_state (no_resources\<lparr>cr_pendingAcquisitions := 1\<rparr>) 0 1 0 Map.empty []) [] 1 {#} {#} [])" (is "forward_step _ _ ?x1")
    using forward_step.listen [of sample_config "forwards_start (\<lambda>_. 0)" True "fs_s ?x1"]
    by (simp add: beginForward_def sample_config_def rl_counter_def forwards_start_def beginAcquisition_def no_resources_def sample_state_def fun_eq_iff)
  then have "?R\<^sup>*\<^sup>* (forwards_start (\<lambda>_. 0)) ?x1" by (rule r_into_rtranclp)
  also have "?R ?x1 (?x (sample_state (r True) 0 1 0 Map.empty [f False 0]) [Created] 0 {#} {#} [])" (is "forward_step _ _ ?x2")
    using forward_step.listening [of ?x1 sample_config "''p''" 0 "fs_s ?x2"]
    by (simp add: createForward_def finishAcquisition_def finish_register_def finish_end_def no_resources_def sample_state_def r_def f_def)
  also have "?R ?x2 (?x (sample_state (r True) 0 1 0 [''p'' \<mapsto> 0] [f False 0]) [Entered] 0 {#} {#} [])" (is "forward_step _ _ ?x3")
    using forward_step.enter [of 0 ?x2 sample_config True "fs_s ?x3"] by (simp add: enterForward_def sample_state_def f_def)
  also have "?R ?x3 (?x (sample_state (r True) 1 1 0 [''p'' \<mapsto> 0] [f False 0]) [Running] 0 {#} {#} [])" (is "forward_step _ _ ?x4")
    using forward_step.start [of 0 ?x3 sample_config True "fs_s ?x4"] by (simp add: startForward_def goRun_def sample_state_def)
  also have "?R ?x4 (?x (sample_state (r True) 1 1 1 [''p'' \<mapsto> 0] [f False 0]) [Running] 0 {#0#} {#} [])" (is "forward_step _ _ ?x5")
    using forward_step.accept [of 0 ?x4 sample_config True "fw_counters (fs_s ?x5)"]
    by (simp add: channelLimiter_reserve_def sample_config_def sample_state_def fun_eq_iff)
  also have "?R ?x5 (?x (sample_state (r True) 1 1 1 [''p'' \<mapsto> 0] [f False 1]) [Running] 0 {#} {#0#} [])" (is "forward_step _ _ ?x6")
    using forward_step.open_begin [of 0 ?x5 "fs_s ?x6" sample_config] by (simp add: beginOpen_def sample_state_def f_def)
  also have "?R ?x6 (?x (sample_state (r False) 1 1 1 [''p'' \<mapsto> 0] [f False 1]) [Running] 0 {#} {#0#} [close_fn 0])" (is "forward_step _ _ ?x7")
    using forward_step.closeAll [of ?x6 "[close_fn 0]" False "fw_resources (fs_s ?x7)" sample_config]
    by (simp add: closeAll_begin_def no_resources_def sample_state_def r_def)
  also have "?R ?x7 (?x (sample_state (r False) 1 0 1 [''p'' \<mapsto> 0] [f True 1]) [Running] 0 {#} {#0#} [])" (is "forward_step _ _ ?x8")
    using forward_step.closeAll_one [of ?x7 "close_fn 0" "[]" sample_config]
    by (simp add: run_close_fn_def close_fn_def forward_close_def sample_config_def rl_counter_def sample_state_def f_def fun_upd_twist)
  finally show ?thesis .
qed

theorem forwards_hold_exact_slots_witness:
  "\<exists>x. (forward_step sample_config)\<^sup>*\<^sup>* (forwards_start (\<lambda>_. 0)) x \<and> fs_opening x = {#0#} \<and> cr_closed (fw_resources (fs_s x)) \<and>
     open_forwards (fs_s x) = 0 \<and> fw_counters (fs_s x) 0 = 0 \<and> fw_counters (fs_s x) 1 = 1 \<and>
     fw_forwards (fs_s x) (f_key (of_forward x 0)) = Some 0"
proof -
  let ?x = "\<lparr>fs_s = sample_state (no_resources\<lparr>cr_resources := [], cr_closed := True\<rparr>) 1 0 1 [''p'' \<mapsto> 0]
      [\<lparr>f_key = ''p'', f_closing = True, f_pending = 1\<rparr>], fs_phases = [Running], fs_listening = 0,
     fs_reserved = {#}, fs_opening = {#0#}, fs_copying = 0, fs_closer = []\<rparr> :: forward_system"
  have run: "(forward_step sample_config)\<^sup>*\<^sup>* (forwards_start (\<lambda>_. 0)) ?x" using sample_forwards_run by simp
  note inv = forwards_hold_exact_slots [OF this]
  have closed: "cr_closed (fw_resources (fs_s ?x))" "fs_closer ?x = []" by (simp_all add: sample_state_def)
  have no_open: "open_forwards (fs_s ?x) = 0" using inv closed by blast
  have "fw_counters (fs_s ?x) 0 = 0" "fw_counters (fs_s ?x) 1 = 1"
    using inv no_open by (simp_all add: sample_config_def channel_levels_def rl_counter_def)
  moreover have "fw_forwards (fs_s ?x) (f_key (of_forward ?x 0)) = Some 0" using inv by simp
  moreover have "fs_opening ?x = {#0#}" by simp
  ultimately show ?thesis using run closed no_open by blast
qed

end
