(* ===== verification/Copy.thy ===== *)
theory Copy
  imports GoErrors
begin

text \<open>
  \<open>FullDuplexCopy\<close> (\<open>copy.go\<close>): two goroutines copy in the two directions and report to the main loop, which
  collects both reports and closes the streams on cancellation or error. A direction is \<open>True\<close> for
  left to right, as \<open>isL2r\<close>. The results of \<open>io.Copy\<close> and \<open>CloseWrite\<close> are arbitrary; what a goroutine does
  between two points where another may run is a function, and a step relation interleaves them.
\<close>

section \<open>State\<close>

record FullDuplexCopyOpts =
  o_OnStart :: bool
  o_OnEnd :: bool
  o_OnStreamStart :: bool
  o_OnStreamEnd :: bool

text \<open>\<open>cc_closeWriter d\<close> says that the target of direction \<open>d\<close> has a \<open>CloseWrite\<close>.\<close>

record copy_config =
  cc_closeWriter :: "bool \<Rightarrow> bool"
  cc_opts :: "FullDuplexCopyOpts option"

datatype copy_event = OnStart | OnEnd int int "gerr option" "bool option" | OnStreamStart bool | OnStreamEnd bool "gerr option"

text \<open>Where \<open>copyFull\<close> is in one direction, with its variables \<open>n\<close> and \<open>err\<close>.\<close>

datatype copy_stream = Starting | Copying | Copied int "gerr option" | Finishing int "gerr option" | Sent int "gerr option"

record copy_done =
  wasL2r :: bool
  written :: int
  derror :: "gerr option"

record copy_state =
  cp_streams :: "bool \<Rightarrow> copy_stream"
  cp_dones :: "copy_done list"
  cp_completed :: nat
  cp_l2r :: int
  cp_r2l :: int
  cp_rErr :: "gerr option"
  cp_errWasInL2r :: "bool option"
  cp_ctxDone :: bool
  cp_cancelSeen :: bool
  cp_closed :: bool
  cp_observed :: "copy_event list"
  cp_returned :: bool

section \<open>Operations\<close>

definition observe :: "copy_config \<Rightarrow> (FullDuplexCopyOpts \<Rightarrow> bool) \<Rightarrow> copy_event \<Rightarrow> copy_state \<Rightarrow> copy_state" where
  "observe c field e s = (case cc_opts c of
     Some opts \<Rightarrow> if field opts then s\<lparr>cp_observed := cp_observed s @ [e]\<rparr> else s
   | None \<Rightarrow> s)"

definition closeStreams :: "copy_state \<Rightarrow> copy_state" where
  "closeStreams s = s\<lparr>cp_closed := True\<rparr>"

text \<open>The start of the call; \<open>None\<close> streams are refused before anything is started.\<close>

definition FullDuplexCopy_start :: "copy_config \<Rightarrow> copy_state" where
  "FullDuplexCopy_start c = observe c o_OnStart OnStart
     \<lparr>cp_streams = (\<lambda>_. Starting), cp_dones = [], cp_completed = 0, cp_l2r = 0, cp_r2l = 0, cp_rErr = None,
      cp_errWasInL2r = None, cp_ctxDone = False, cp_cancelSeen = False, cp_closed = False, cp_observed = [], cp_returned = False\<rparr>"

definition FullDuplexCopy_guard :: "bool \<Rightarrow> bool \<Rightarrow> gerr option" where
  "FullDuplexCopy_guard left right =
     (if \<not> left \<or> \<not> right then Some (Errorf ''ssh: FullDuplexCopy requires two non-nil streams'' []) else None)"

definition relevant :: "gerr option \<Rightarrow> gerr option" where
  "relevant err = (if isRelevantIoError err then err else None)"

definition set_stream :: "bool \<Rightarrow> copy_stream \<Rightarrow> copy_state \<Rightarrow> copy_state" where
  "set_stream d x s = s\<lparr>cp_streams := (cp_streams s)(d := x)\<rparr>"

definition stream_start :: "copy_config \<Rightarrow> bool \<Rightarrow> copy_state \<Rightarrow> copy_state" where
  "stream_start c d s = set_stream d Copying (observe c o_OnStreamStart (OnStreamStart d) s)"

definition stream_copied :: "bool \<Rightarrow> int \<Rightarrow> gerr option \<Rightarrow> copy_state \<Rightarrow> copy_state" where
  "stream_copied d n err s = set_stream d (Copied n (relevant err)) s"

definition stream_halfClose :: "copy_config \<Rightarrow> bool \<Rightarrow> int \<Rightarrow> gerr option \<Rightarrow> gerr option \<Rightarrow> copy_state \<Rightarrow> copy_state" where
  "stream_halfClose c d n err closeErr s =
     (if err = None then
        (if cc_closeWriter c d then set_stream d (Finishing n (relevant closeErr)) s
         else set_stream d (Finishing n None) (closeStreams s))
      else set_stream d (Finishing n err) s)"

definition stream_send :: "copy_config \<Rightarrow> bool \<Rightarrow> int \<Rightarrow> gerr option \<Rightarrow> copy_state \<Rightarrow> copy_state" where
  "stream_send c d n err s =
     (let s1 = observe c o_OnStreamEnd (OnStreamEnd d err) s
      in set_stream d (Sent n err) (s1\<lparr>cp_dones := cp_dones s1 @ [\<lparr>wasL2r = d, written = n, derror = err\<rparr>]\<rparr>))"

text \<open>The two cases of the main loop, and its end.\<close>

definition loop_cancelled :: "copy_state \<Rightarrow> copy_state" where
  "loop_cancelled s = closeStreams (s\<lparr>cp_cancelSeen := True\<rparr>)"

definition loop_done :: "copy_done \<Rightarrow> copy_state \<Rightarrow> copy_state" where
  "loop_done v s =
     (let s1 = s\<lparr>cp_completed := cp_completed s + 1\<rparr>;
          s2 = (if wasL2r v then s1\<lparr>cp_l2r := written v\<rparr> else s1\<lparr>cp_r2l := written v\<rparr>)
      in if derror v \<noteq> None \<and> cp_rErr s2 = None
         then closeStreams (s2\<lparr>cp_errWasInL2r := Some (wasL2r v), cp_rErr := derror v\<rparr>)
         else s2)"

definition loop_return :: "copy_config \<Rightarrow> copy_state \<Rightarrow> copy_state" where
  "loop_return c s = (observe c o_OnEnd (OnEnd (cp_l2r s) (cp_r2l s) (cp_rErr s) (cp_errWasInL2r s)) s)\<lparr>cp_returned := True\<rparr>"

inductive copy_step :: "copy_config \<Rightarrow> copy_state \<Rightarrow> copy_state \<Rightarrow> bool" for c where
  start: "cp_streams s d = Starting \<Longrightarrow> copy_step c s (stream_start c d s)"
| copied: "cp_streams s d = Copying \<Longrightarrow> copy_step c s (stream_copied d n err s)"
| half_close: "cp_streams s d = Copied n err \<Longrightarrow> copy_step c s (stream_halfClose c d n err closeErr s)"
| send: "cp_streams s d = Finishing n err \<Longrightarrow> copy_step c s (stream_send c d n err s)"
| receive: "cp_completed s < 2 \<Longrightarrow> cp_dones s = v # rest \<Longrightarrow> copy_step c s (loop_done v (s\<lparr>cp_dones := rest\<rparr>))"
| cancelled: "cp_completed s < 2 \<Longrightarrow> cp_ctxDone s \<Longrightarrow> \<not> cp_cancelSeen s \<Longrightarrow> copy_step c s (loop_cancelled s)"
| return: "\<not> cp_completed s < 2 \<Longrightarrow> \<not> cp_returned s \<Longrightarrow> copy_step c s (loop_return c s)"
| cancel: "\<not> cp_ctxDone s \<Longrightarrow> copy_step c s (s\<lparr>cp_ctxDone := True\<rparr>)"

section \<open>What it reports\<close>

definition stream_result :: "copy_stream \<Rightarrow> (int \<times> gerr option) option" where
  "stream_result x = (case x of Sent n err \<Rightarrow> Some (n, err) | _ \<Rightarrow> None)"

text \<open>The reports sent, in order: those still in the channel and those received.\<close>

definition reported :: "copy_state \<Rightarrow> copy_done list \<Rightarrow> bool" where
  "reported s vs \<longleftrightarrow> cp_completed s + length (cp_dones s) = length vs \<and> cp_dones s = drop (cp_completed s) vs
     \<and> distinct (map wasL2r vs)
     \<and> (\<forall>d n err. cp_streams s d = Sent n err \<longleftrightarrow> \<lparr>wasL2r = d, written = n, derror = err\<rparr> \<in> set vs)"

definition received_ok :: "copy_state \<Rightarrow> copy_done list \<Rightarrow> bool" where
  "received_ok s us \<longleftrightarrow>
     (\<forall>v \<in> set us. if wasL2r v then cp_l2r s = written v else cp_r2l s = written v)
     \<and> (case filter (\<lambda>v. derror v \<noteq> None) us of
          [] \<Rightarrow> cp_rErr s = None \<and> cp_errWasInL2r s = None
        | v # _ \<Rightarrow> cp_rErr s = derror v \<and> cp_errWasInL2r s = Some (wasL2r v) \<and> cp_closed s)"

definition copy_inv :: "copy_state \<Rightarrow> bool" where
  "copy_inv s \<longleftrightarrow> (\<exists>vs. reported s vs \<and> received_ok s (take (cp_completed s) vs)) \<and> (cp_cancelSeen s \<longrightarrow> cp_closed s)
     \<and> (cp_returned s \<longrightarrow> cp_completed s = 2)"

lemma observe_simps [simp]:
  "cp_streams (observe c f e s) = cp_streams s" "cp_dones (observe c f e s) = cp_dones s"
  "cp_completed (observe c f e s) = cp_completed s" "cp_l2r (observe c f e s) = cp_l2r s"
  "cp_r2l (observe c f e s) = cp_r2l s" "cp_rErr (observe c f e s) = cp_rErr s"
  "cp_errWasInL2r (observe c f e s) = cp_errWasInL2r s" "cp_cancelSeen (observe c f e s) = cp_cancelSeen s"
  "cp_closed (observe c f e s) = cp_closed s" "cp_returned (observe c f e s) = cp_returned s"
  "cp_ctxDone (observe c f e s) = cp_ctxDone s"
  by (simp_all add: observe_def split: option.splits)

lemma set_stream_simps [simp]:
  "cp_dones (set_stream d x s) = cp_dones s"
  "cp_completed (set_stream d x s) = cp_completed s" "cp_l2r (set_stream d x s) = cp_l2r s"
  "cp_r2l (set_stream d x s) = cp_r2l s" "cp_rErr (set_stream d x s) = cp_rErr s"
  "cp_errWasInL2r (set_stream d x s) = cp_errWasInL2r s" "cp_cancelSeen (set_stream d x s) = cp_cancelSeen s"
  "cp_closed (set_stream d x s) = cp_closed s" "cp_returned (set_stream d x s) = cp_returned s"
  "cp_ctxDone (set_stream d x s) = cp_ctxDone s" "cp_observed (set_stream d x s) = cp_observed s"
  "cp_streams (set_stream d x s) = (cp_streams s)(d := x)"
  by (simp_all add: set_stream_def)

text \<open>Steps that change no report; a stream that moves is not at its end before or after.\<close>

lemma reported_cong:
  assumes "reported s vs" "cp_dones t = cp_dones s" "cp_completed t = cp_completed s"
    "\<And>d n err. cp_streams t d = Sent n err \<longleftrightarrow> cp_streams s d = Sent n err"
  shows "reported t vs"
  using assms by (simp add: reported_def)

lemma received_cong:
  assumes "received_ok s us" "cp_l2r t = cp_l2r s" "cp_r2l t = cp_r2l s" "cp_rErr t = cp_rErr s"
    "cp_errWasInL2r t = cp_errWasInL2r s" "cp_closed s \<Longrightarrow> cp_closed t"
  shows "received_ok t us"
  using assms by (auto simp: received_ok_def split: list.splits)

lemma reported_length: "reported s vs \<Longrightarrow> cp_completed s \<le> length vs" "reported s vs \<Longrightarrow> length vs = card (wasL2r ` set vs)"
  using distinct_card [of "map wasL2r vs"] by (simp_all add: reported_def)

lemma copy_inv_quiet:
  assumes "copy_inv s" "cp_dones t = cp_dones s" "cp_completed t = cp_completed s"
    "\<And>d n err. cp_streams t d = Sent n err \<longleftrightarrow> cp_streams s d = Sent n err"
    "cp_l2r t = cp_l2r s" "cp_r2l t = cp_r2l s" "cp_rErr t = cp_rErr s" "cp_errWasInL2r t = cp_errWasInL2r s"
    "cp_closed s \<Longrightarrow> cp_closed t" "cp_cancelSeen t = cp_cancelSeen s \<or> cp_closed t" "cp_returned t \<Longrightarrow> cp_completed t = 2"
  shows "copy_inv t"
proof -
  obtain vs where "reported s vs" "received_ok s (take (cp_completed s) vs)" using assms(1) by (auto simp: copy_inv_def)
  then have "reported t vs" "received_ok t (take (cp_completed t) vs)"
    using reported_cong [OF _ assms(2-4)] received_cong [OF _ assms(5-9)] assms(3) by simp_all
  then show ?thesis using assms by (auto simp: copy_inv_def)
qed

lemma copy_inv_send:
  assumes "copy_inv s" "cp_streams s d = Finishing n err"
  shows "copy_inv (stream_send c d n err s)"
proof -
  obtain vs where vs: "reported s vs" "received_ok s (take (cp_completed s) vs)" using assms(1) by (auto simp: copy_inv_def)
  let ?v = "\<lparr>wasL2r = d, written = n, derror = err\<rparr>"
  let ?t = "stream_send c d n err s"
  have "cp_streams s d \<noteq> Sent n' err'" for n' err' using assms(2) by simp
  then have absent: "\<lparr>wasL2r = d, written = n', derror = err'\<rparr> \<notin> set vs" for n' err' using vs(1) unfolding reported_def by blast
  then have new: "d \<notin> wasL2r ` set vs" by (metis (full_types) copy_done.surjective imageE old.unit.exhaust)
  have len: "cp_completed s \<le> length vs" using vs(1) by (simp add: reported_def)
  have "reported ?t (vs @ [?v])"
    using vs(1) assms(2) new len absent by (auto simp: reported_def stream_send_def set_stream_def Let_def)
  moreover have "received_ok ?t (take (cp_completed ?t) (vs @ [?v]))"
    using len received_cong [OF vs(2), of ?t] by (simp add: stream_send_def set_stream_def Let_def)
  ultimately show ?thesis using assms(1) by (auto simp: copy_inv_def stream_send_def set_stream_def Let_def)
qed

lemma first_error: "filter (\<lambda>v. \<exists>y. derror v = Some y) us = v # rest \<Longrightarrow> derror v \<noteq> None"
  by (auto dest: filter_eq_ConsD)

lemma copy_inv_receive:
  assumes "copy_inv s" "cp_completed s < 2" "cp_dones s = v # rest"
  shows "copy_inv (loop_done v (s\<lparr>cp_dones := rest\<rparr>))"
proof -
  obtain vs where vs: "reported s vs" "received_ok s (take (cp_completed s) vs)" using assms(1) by (auto simp: copy_inv_def)
  let ?t = "loop_done v (s\<lparr>cp_dones := rest\<rparr>)"
  let ?k = "cp_completed s"
  have drop: "drop ?k vs = v # rest" using vs(1) assms(3) by (simp add: reported_def)
  then have k: "?k < length vs" "vs ! ?k = v" "drop (Suc ?k) vs = rest"
    by (metis drop_eq_Nil leI list.distinct(1), metis drop_eq_Nil hd_drop_conv_nth leI list.distinct(1) list.sel(1), metis drop_Suc list.sel(3) tl_drop)
  have take: "take (Suc ?k) vs = take ?k vs @ [v]" using k by (simp add: take_Suc_conv_app_nth)
  have fields: "cp_completed ?t = Suc ?k" "cp_dones ?t = rest" "cp_streams ?t = cp_streams s"
    by (simp_all add: loop_done_def closeStreams_def Let_def)
  have "reported ?t vs" using vs(1) k assms(3) by (auto simp: reported_def fields)
  moreover have "received_ok ?t (take (Suc ?k) vs)"
  proof -
    have "distinct (map wasL2r (take (Suc ?k) vs))" using vs(1) by (simp add: reported_def flip: take_map)
    then have "wasL2r v \<notin> wasL2r ` set (take ?k vs)" by (simp add: take)
    then show ?thesis using vs(2)
      by (auto simp: received_ok_def take loop_done_def closeStreams_def Let_def split: list.splits dest: first_error)
  qed
  ultimately show ?thesis using assms by (auto simp: copy_inv_def fields loop_done_def closeStreams_def Let_def)
qed

lemma copy_inv_returned: "copy_inv s \<Longrightarrow> cp_returned s \<Longrightarrow> cp_completed s = 2"
  by (simp add: copy_inv_def)

text \<open>There are two directions, so there are at most two reports.\<close>

lemma copy_inv_completed: "copy_inv s \<Longrightarrow> cp_completed s \<le> 2"
proof -
  assume "copy_inv s"
  then obtain vs where "reported s vs" unfolding copy_inv_def by blast
  then show ?thesis using reported_length [of s vs] card_mono [of UNIV "wasL2r ` set vs"] by simp
qed

lemma copy_inv_move:
  assumes "copy_inv s" "stream_result (cp_streams s d) = None" "stream_result y = None"
  shows "copy_inv (set_stream d y s)"
proof -
  have "(cp_streams (set_stream d y s) d' = Sent n err) = (cp_streams s d' = Sent n err)" for d' n err
    using assms(2,3) by (cases "d' = d") (auto simp: stream_result_def)
  then show ?thesis by (intro copy_inv_quiet [OF assms(1)]) (use assms(1) copy_inv_returned [of s] in simp_all)
qed

lemma copy_inv_observe:
  assumes "copy_inv s"
  shows "copy_inv (observe c f e s)"
  using assms by (rule copy_inv_quiet) (use assms copy_inv_returned [of s] in simp_all)

lemma copy_inv_close:
  assumes "copy_inv s"
  shows "copy_inv (closeStreams s)"
  using assms by (rule copy_inv_quiet) (use assms copy_inv_returned [of s] in \<open>simp_all add: closeStreams_def\<close>)

lemma copy_inv_step: "copy_step c s t \<Longrightarrow> copy_inv s \<Longrightarrow> copy_inv t"
proof (induction rule: copy_step.induct)
  case (start s d)
  then show ?case by (simp add: stream_start_def copy_inv_move copy_inv_observe stream_result_def)
next
  case (copied s d n err)
  then show ?case by (simp add: stream_copied_def copy_inv_move stream_result_def)
next
  case (half_close s d n err closeErr)
  moreover have "cp_streams (closeStreams s) d = Copied n err" using half_close by (simp add: closeStreams_def)
  ultimately show ?case by (simp add: stream_halfClose_def copy_inv_move copy_inv_close stream_result_def)
next
  case (cancelled s)
  show ?case by (rule copy_inv_quiet [of s]) (use cancelled copy_inv_returned [of s] in \<open>simp_all add: loop_cancelled_def closeStreams_def\<close>)
next
  case (return s)
  show ?case by (rule copy_inv_quiet [of s]) (use return copy_inv_completed [of s] in \<open>simp_all add: loop_return_def\<close>)
next
  case (cancel s)
  show ?case by (rule copy_inv_quiet [of s]) (use cancel copy_inv_returned [of s] in \<open>simp_all\<close>)
qed (auto intro: copy_inv_send copy_inv_receive)

section \<open>What it shows its observer\<close>

text \<open>
  The observer channel has room for six callbacks. \<open>stream_events\<close> is how many of them a direction may
  have sent.
\<close>

definition stream_events :: "copy_stream \<Rightarrow> nat" where
  "stream_events x = (case x of Starting \<Rightarrow> 0 | Sent _ _ \<Rightarrow> 2 | _ \<Rightarrow> 1)"

definition observer_ok :: "copy_config \<Rightarrow> copy_state \<Rightarrow> bool" where
  "observer_ok c s \<longleftrightarrow>
     length (cp_observed s) \<le> 1 + stream_events (cp_streams s True) + stream_events (cp_streams s False) + (if cp_returned s then 1 else 0)
     \<and> (cp_returned s \<and> (\<exists>opts. cc_opts c = Some opts \<and> o_OnEnd opts) \<longrightarrow>
          cp_observed s \<noteq> [] \<and> last (cp_observed s) = OnEnd (cp_l2r s) (cp_r2l s) (cp_rErr s) (cp_errWasInL2r s))"

lemma observed_observe: "length (cp_observed (observe c f e s)) \<le> Suc (length (cp_observed s))"
  by (simp add: observe_def split: option.splits)

text \<open>The streams of a call that has returned have ended, so nothing moves any more.\<close>

lemma returned_streams:
  assumes "copy_inv s" "cp_completed s = 2"
  shows "\<exists>n err. cp_streams s d = Sent n err"
proof -
  obtain vs where vs: "reported s vs" using assms(1) by (auto simp: copy_inv_def)
  then have "card (wasL2r ` set vs) \<ge> card (UNIV :: bool set)" using reported_length [of s vs] assms(2) by simp
  then have "wasL2r ` set vs = UNIV" by (metis card_seteq finite subset_UNIV)
  then obtain v where "v \<in> set vs" "wasL2r v = d" by (metis UNIV_I imageE)
  then have "\<lparr>wasL2r = d, written = written v, derror = derror v\<rparr> = v" by simp
  then have "\<lparr>wasL2r = d, written = written v, derror = derror v\<rparr> \<in> set vs" using \<open>v \<in> set vs\<close> by (rule ssubst)
  then show ?thesis using vs unfolding reported_def by blast
qed

lemma observer_step:
  assumes "copy_step c s t" "copy_inv s" "observer_ok c s"
  shows "observer_ok c t"
proof -
  have ended: "stream_result (cp_streams s d) \<noteq> None" "cp_completed s = 2" if "cp_returned s" for d
    using returned_streams [OF assms(2) copy_inv_returned [OF assms(2) that], of d] copy_inv_returned [OF assms(2) that]
    by (auto simp: stream_result_def)
  have less: "length (cp_observed (observe c f e s)) \<le> Suc (length (cp_observed s))" for f e by (rule observed_observe)
  from assms(1) show ?thesis
  proof cases
    case (start d)
    with ended(1) [of d] have "\<not> cp_returned s" by (auto simp: stream_result_def)
    with start assms(3) less [of o_OnStreamStart "OnStreamStart d"] show ?thesis
      by (cases d) (auto simp: observer_ok_def stream_start_def stream_events_def)
  next
    case (copied d n err)
    with ended(1) [of d] have "\<not> cp_returned s" by (auto simp: stream_result_def)
    with copied assms(3) show ?thesis by (cases d) (auto simp: observer_ok_def stream_copied_def stream_events_def)
  next
    case (half_close d n err closeErr)
    with ended(1) [of d] have "\<not> cp_returned s" by (auto simp: stream_result_def)
    with half_close assms(3) show ?thesis
      by (cases d) (auto simp: observer_ok_def stream_halfClose_def stream_events_def closeStreams_def)
  next
    case (send d n err)
    with ended(1) [of d] have "\<not> cp_returned s" by (auto simp: stream_result_def)
    with send assms(3) less [of o_OnStreamEnd "OnStreamEnd d err"] show ?thesis
      by (cases d) (auto simp: observer_ok_def stream_send_def stream_events_def Let_def)
  next
    case (receive v rest)
    with ended(2) have "\<not> cp_returned s" by auto
    with receive assms(3) show ?thesis by (auto simp: observer_ok_def loop_done_def closeStreams_def Let_def)
  next
    case return
    with assms(3) less [of o_OnEnd "OnEnd (cp_l2r s) (cp_r2l s) (cp_rErr s) (cp_errWasInL2r s)"] show ?thesis
      by (auto simp: observer_ok_def loop_return_def) (auto simp: observe_def)
  qed (use assms(3) in \<open>auto simp: observer_ok_def loop_cancelled_def closeStreams_def\<close>)
qed

interpretation copying: step_invariant "copy_step c" "\<lambda>s. copy_inv s \<and> observer_ok c s" for c
  by unfold_locales (blast intro: copy_inv_step observer_step)

lemma copy_reachable: "(copy_step c)\<^sup>*\<^sup>* (FullDuplexCopy_start c) s \<Longrightarrow> copy_inv s \<and> observer_ok c s"
proof (erule copying.steps_keep)
  have "copy_inv (FullDuplexCopy_start c)"
    unfolding FullDuplexCopy_start_def
    by (rule copy_inv_observe) (auto simp: copy_inv_def reported_def received_ok_def intro!: exI [of _ "[]"])
  moreover have "observer_ok c (FullDuplexCopy_start c)"
    by (auto simp: FullDuplexCopy_start_def observer_ok_def observe_def stream_events_def split: option.splits)
  ultimately show "copy_inv (FullDuplexCopy_start c) \<and> observer_ok c (FullDuplexCopy_start c)" ..
qed



definition copy_all_opts :: copy_config where
  "copy_all_opts = \<lparr>cc_closeWriter = (\<lambda>d. d), cc_opts = Some \<lparr>o_OnStart = True, o_OnEnd = True, o_OnStreamStart = True, o_OnStreamEnd = True\<rparr>\<rparr>"

text \<open>One direction from its start to its report, when its copy and its half close succeed.\<close>

definition run_stream :: "copy_config \<Rightarrow> bool \<Rightarrow> int \<Rightarrow> copy_state \<Rightarrow> copy_state" where
  "run_stream c d n s = stream_send c d n None (stream_halfClose c d n None None (stream_copied d n None (stream_start c d s)))"

lemma run_stream_steps:
  assumes "cp_streams s d = Starting"
  shows "(copy_step c)\<^sup>*\<^sup>* s (run_stream c d n s)"
proof -
  note [trans] = rtranclp.rtrancl_into_rtrancl
  have "copy_step c s (stream_start c d s)" (is "copy_step _ _ ?s1") using assms by (rule start)
  then have "(copy_step c)\<^sup>*\<^sup>* s ?s1" by blast
  also have "copy_step c ?s1 (stream_copied d n None ?s1)" (is "copy_step _ _ ?s2")
    by (rule copied) (simp add: stream_start_def)
  also have "copy_step c ?s2 (stream_halfClose c d n None None ?s2)" (is "copy_step _ _ ?s3")
    by (rule half_close) (simp add: stream_copied_def relevant_def)
  also have "copy_step c ?s3 (stream_send c d n None ?s3)"
    by (rule send) (simp add: stream_halfClose_def relevant_def closeStreams_def)
  finally show ?thesis by (simp add: run_stream_def)
qed

definition copied_both :: copy_state where
  "copied_both = run_stream copy_all_opts False 2 (run_stream copy_all_opts True 5 (FullDuplexCopy_start copy_all_opts))"

lemmas copy_eval = copied_both_def run_stream_def stream_start_def stream_copied_def stream_halfClose_def stream_send_def
  FullDuplexCopy_start_def observe_def copy_all_opts_def relevant_def closeStreams_def set_stream_def loop_done_def loop_return_def Let_def

lemma copied_both_reached: "(copy_step copy_all_opts)\<^sup>*\<^sup>* (FullDuplexCopy_start copy_all_opts) copied_both"
proof -
  have "(copy_step copy_all_opts)\<^sup>*\<^sup>* (FullDuplexCopy_start copy_all_opts) (run_stream copy_all_opts True 5 (FullDuplexCopy_start copy_all_opts))"
    by (rule run_stream_steps) (simp add: FullDuplexCopy_start_def)
  also have "(copy_step copy_all_opts)\<^sup>*\<^sup>* (run_stream copy_all_opts True 5 (FullDuplexCopy_start copy_all_opts)) copied_both"
    unfolding copied_both_def by (rule run_stream_steps) (simp add: copy_eval)
  finally show ?thesis .
qed



section \<open>It returns\<close>

definition stream_work :: "copy_stream \<Rightarrow> nat" where
  "stream_work x = (case x of Starting \<Rightarrow> 4 | Copying \<Rightarrow> 3 | Copied _ _ \<Rightarrow> 2 | Finishing _ _ \<Rightarrow> 1 | Sent _ _ \<Rightarrow> 0)"

definition copy_work :: "copy_state \<Rightarrow> nat" where
  "copy_work s = stream_work (cp_streams s True) + stream_work (cp_streams s False) + (2 - cp_completed s)
     + (if cp_cancelSeen s then 0 else 1) + (if cp_ctxDone s then 0 else 1) + (if cp_returned s then 0 else 1)"

lemma copy_step_work: "copy_step c s t \<Longrightarrow> copy_work t < copy_work s"
proof (induction rule: copy_step.induct)
  case (start s d)
  then show ?case by (cases d) (simp_all add: copy_work_def stream_start_def stream_work_def)
next
  case (copied s d n err)
  then show ?case by (cases d) (simp_all add: copy_work_def stream_copied_def stream_work_def)
next
  case (half_close s d n err closeErr)
  then show ?case by (cases d) (simp_all add: copy_work_def stream_halfClose_def stream_work_def closeStreams_def)
next
  case (send s d n err)
  then show ?case by (cases d) (simp_all add: copy_work_def stream_send_def stream_work_def Let_def)
next
  case (receive s v rest)
  let ?t = "loop_done v (s\<lparr>cp_dones := rest\<rparr>)"
  have same: "cp_streams ?t = cp_streams s" "cp_cancelSeen ?t = cp_cancelSeen s" "cp_ctxDone ?t = cp_ctxDone s"
    "cp_returned ?t = cp_returned s" by (simp_all add: loop_done_def closeStreams_def Let_def)
  have "cp_completed ?t = Suc (cp_completed s)" by (simp add: loop_done_def closeStreams_def Let_def)
  then have "2 - cp_completed ?t < 2 - cp_completed s" using receive(1) by linarith
  then show ?case unfolding copy_work_def same by linarith
qed (simp_all add: copy_work_def loop_cancelled_def loop_return_def closeStreams_def)

text \<open>\<open>io.Copy\<close> has returned in a direction.\<close>

definition copied_out :: "copy_state \<Rightarrow> bool \<Rightarrow> bool" where
  "copied_out s d \<longleftrightarrow> cp_streams s d \<notin> {Starting, Copying}"

lemma copied_out_step: "copy_step c s t \<Longrightarrow> copied_out s d \<Longrightarrow> copied_out t d"
proof (induction rule: copy_step.induct)
  case (start s d')
  then show ?case by (cases "d = d'") (auto simp: copied_out_def stream_start_def)
next
  case (copied s d' n err)
  then show ?case by (cases "d = d'") (auto simp: copied_out_def stream_copied_def)
next
  case (half_close s d' n err closeErr)
  then show ?case by (cases "d = d'") (auto simp: copied_out_def stream_halfClose_def closeStreams_def)
next
  case (send s d' n err)
  then show ?case by (cases "d = d'") (auto simp: copied_out_def stream_send_def Let_def)
qed (auto simp: copied_out_def loop_done_def loop_cancelled_def loop_return_def closeStreams_def Let_def)

lemma copy_not_stuck:
  assumes "copy_inv s" "\<not> cp_returned s" "\<And>d. copied_out s d"
  obtains t where "copy_step c s t"
proof (cases "\<exists>d n err. cp_streams s d = Copied n err \<or> cp_streams s d = Finishing n err")
  case True
  then show thesis using half_close send that by blast
next
  case False
  then have sent: "\<exists>n err. cp_streams s d = Sent n err" for d
    using assms(3) [of d] by (cases "cp_streams s d") (auto simp: copied_out_def)
  show thesis
  proof (cases "cp_completed s < 2")
    case True
    obtain vs where vs: "reported s vs" using assms(1) by (auto simp: copy_inv_def)
    have "d \<in> wasL2r ` set vs" for d
    proof -
      obtain n err where "\<lparr>wasL2r = d, written = n, derror = err\<rparr> \<in> set vs" using sent [of d] vs unfolding reported_def by blast
      then show ?thesis by (rule rev_image_eqI) simp
    qed
    then have "wasL2r ` set vs = UNIV" by blast
    then have "length vs = 2" using reported_length(2) [OF vs] by simp
    then have "cp_dones s \<noteq> []" using vs True by (auto simp: reported_def)
    then obtain v rest where "cp_dones s = v # rest" by (cases "cp_dones s") auto
    then show thesis using receive True that by blast
  next
    case False
    then show thesis using return assms(2) that by blast
  qed
qed

interpretation copy_end: ending_steps "copy_step c" "\<lambda>s. copy_inv s \<and> (\<forall>d. copied_out s d)" copy_work cp_returned for c
proof unfold_locales
  fix s
  assume "copy_inv s \<and> (\<forall>d. copied_out s d)" "\<not> cp_returned s"
  then show "\<exists>t. copy_step c s t" using copy_not_stuck [of s c] by blast
qed (auto intro: copy_inv_step copied_out_step copy_step_work)

text \<open>
  C33. The copy returns: every step reduces a measure, and once \<open>io.Copy\<close> has returned in both
  directions, which closing the streams makes it do, there is always a next step until the copy has
  returned.
\<close>

theorem copy_returns:
  assumes "(copy_step c)\<^sup>*\<^sup>* (FullDuplexCopy_start c) s"
  shows "(\<forall>t. copy_step c s t \<longrightarrow> copy_work t < copy_work s)
    \<and> ((\<forall>d. copied_out s d) \<longrightarrow> (\<exists>t. (copy_step c)\<^sup>*\<^sup>* s t \<and> cp_returned t))"
  using copy_reachable [OF assms] copy_end.steps_end [of s c] copy_step_work by blast

theorem copy_returns_witness:
  "\<exists>t. (copy_step copy_all_opts)\<^sup>*\<^sup>* copied_both t \<and> cp_returned t"
proof -
  have "copied_out copied_both d" for d by (cases d) (simp_all add: copied_out_def copy_eval)
  with copy_returns [OF copied_both_reached] show ?thesis by blast
qed

end
