(* ===== verification/ForwardConnections.thy ===== *)
theory ForwardConnections
  imports Channel Forwarding
begin

text \<open>
  The connections that are forwarded: the channel handlers for local forwards (\<open>DirectTCPIPHandler\<close>,
  \<open>DirectStreamLocalHandler\<close>), the opening of a channel towards the client (\<open>openForwardedChannel\<close>)
  and one turn of the accept loops that use it (\<open>tcpip.go\<close>, \<open>streamlocal.go\<close>, \<open>agent.go\<close>). What
  callbacks, dialers, listeners and the peer do are inputs.
\<close>

abbreviation gossh_Prohibited :: uint32 where "gossh_Prohibited \<equiv> 1"

section \<open>Local forwards\<close>

text \<open>
  What a handler does besides answering its channel; a connection has been dialed also when a
  callback returns it together with an error.
\<close>

datatype conn_event = AcquisitionBegun | Dialed | AcquisitionEnded bool | ConnClosed | ChannelClosed | Unregistered

datatype dprog =
    DReturn "gerr option"
  | DAccept "gerr option \<Rightarrow> dprog"
  | DReject uint32 string dprog
  | DDo conn_event dprog

text \<open>As a program of the channel worker; and alone, the channel's \<open>Accept\<close> returning \<open>a\<close>: its answers, events and result.\<close>

primrec channel_prog :: "dprog \<Rightarrow> cprog" where
  "channel_prog (DReturn err) = CReturn err"
| "channel_prog (DAccept f) = CAccept (\<lambda>a. channel_prog (f a))"
| "channel_prog (DReject reason message p) = CReject reason message (\<lambda>_. channel_prog p)"
| "channel_prog (DDo e p) = channel_prog p"

primrec direct_events :: "gerr option \<Rightarrow> dprog \<Rightarrow> conn_event list" where
  "direct_events a (DReturn err) = []"
| "direct_events a (DAccept f) = direct_events a (f a)"
| "direct_events a (DReject reason message p) = direct_events a p"
| "direct_events a (DDo e p) = e # direct_events a p"

primrec direct_answers :: "gerr option \<Rightarrow> dprog \<Rightarrow> bool list" where
  "direct_answers a (DReturn err) = []"
| "direct_answers a (DAccept f) = True # direct_answers a (f a)"
| "direct_answers a (DReject reason message p) = False # direct_answers a p"
| "direct_answers a (DDo e p) = direct_answers a p"

primrec direct_result :: "gerr option \<Rightarrow> dprog \<Rightarrow> gerr option" where
  "direct_result a (DReturn err) = err"
| "direct_result a (DAccept f) = direct_result a (f a)"
| "direct_result a (DReject reason message p) = direct_result a p"
| "direct_result a (DDo e p) = direct_result a p"

record direct_input =
  dn_channel :: bool
  dn_context :: bool
  dn_payload :: "gerr + string \<times> uint32"
  dn_callback :: "(bool \<times> gerr option) option"
  dn_open :: bool
  dn_dial :: "bool \<times> gerr option"
  dn_copy :: "gerr option"

definition finish_direct :: "string \<Rightarrow> gerr option \<Rightarrow> dprog" where
  "finish_direct what err = DDo ConnClosed (DDo ChannelClosed (DDo Unregistered
     (DReturn (map_option (\<lambda>e. locateError ErrorScopeForwarding ErrorOperationForward (WrapErr what [] e)) err))))"

definition DirectTCPIPHandler :: "direct_input \<Rightarrow> dprog" where
  "DirectTCPIPHandler inp =
     (if \<not> dn_channel inp then DReturn None
      else if \<not> dn_context inp then DReject gossh_ConnectionFailed ''missing server connection context'' (DReturn None)
      else (case dn_payload inp of
        Inl e \<Rightarrow> DReturn (Some (locateError ErrorScopeChannel ErrorOperationParse (WrapErr ''parse direct-tcpip channel data: %w'' [] e)))
      | Inr (addr, port) \<Rightarrow>
          (case dn_callback inp of
             None \<Rightarrow> DReject gossh_Prohibited ''port forwarding is disabled'' (DReturn None)
           | Some (_, Some e) \<Rightarrow>
               DReturn (Some (locateError ErrorScopeForwarding ErrorOperationHandle
                 (WrapErr ''authorize direct-tcpip destination %s:%d: %w'' [AStr addr, AInt (uint port)] e)))
           | Some (False, None) \<Rightarrow> DReject gossh_Prohibited ''port forwarding is disabled'' (DReturn None)
           | Some (True, None) \<Rightarrow>
               (let dest = joinHostPort addr (formatUint (unat port))
                in if \<not> dn_open inp then DReject gossh_ConnectionFailed ''connection is closing'' (DReturn None)
                   else DDo AcquisitionBegun
                     (case snd (dn_dial inp) of
                        Some e \<Rightarrow> DDo (AcquisitionEnded False)
                          (DReturn (Some (locateError ErrorScopeForwarding ErrorOperationDial
                            (WrapErr ''dial direct-tcpip destination %s: %w'' [AStr dest] e))))
                      | None \<Rightarrow> DDo Dialed (DDo (AcquisitionEnded True) (DAccept (\<lambda>a. case a of
                            Some e \<Rightarrow> DDo ConnClosed (DDo Unregistered
                              (DReturn (Some (locateError ErrorScopeChannel ErrorOperationAccept
                                (WrapErr ''accept direct-tcpip channel: %w'' [] e)))))
                          | None \<Rightarrow> finish_direct ''forward direct-tcpip connection: %w'' (dn_copy inp)))))))))"

definition DirectStreamLocalHandler :: "direct_input \<Rightarrow> dprog" where
  "DirectStreamLocalHandler inp =
     (if \<not> dn_channel inp then DReturn None
      else if \<not> dn_context inp then DReject gossh_ConnectionFailed ''missing server connection context'' (DReturn None)
      else (case dn_payload inp of
        Inl e \<Rightarrow> DReturn (Some (locateError ErrorScopeChannel ErrorOperationParse (WrapErr ''parse direct-streamlocal channel data: %w'' [] e)))
      | Inr (path, _) \<Rightarrow>
          if dn_callback inp = None then DReject gossh_Prohibited ''unix forwarding is disabled'' (DReturn None)
          else if \<not> dn_open inp then DReject gossh_ConnectionFailed ''connection is closing'' (DReturn None)
          else DDo AcquisitionBegun ((if fst (dn_dial inp) then DDo Dialed else id)
            (case dn_dial inp of
               (_, Some e) \<Rightarrow> DDo (AcquisitionEnded False)
                 (if errors_Is e (Var ErrServerPermissionDenied)
                  then DReject gossh_Prohibited ''unix forwarding is denied'' (DReturn None)
                  else DReturn (Some (locateError ErrorScopeForwarding ErrorOperationDial
                    (WrapErr ''dial direct-streamlocal destination %q: %w'' [AQuoted path] e))))
             | (False, None) \<Rightarrow> DDo (AcquisitionEnded False)
                 (DReturn (Some (locateError ErrorScopeForwarding ErrorOperationDial
                   (Errorf ''dial direct-streamlocal destination %q: callback returned no connection'' [AQuoted path]))))
             | (True, None) \<Rightarrow> DDo (AcquisitionEnded True) (DAccept (\<lambda>a. case a of
                   Some e \<Rightarrow> DDo ConnClosed (DDo Unregistered
                     (DReturn (Some (locateError ErrorScopeChannel ErrorOperationAccept
                       (WrapErr ''accept direct-streamlocal channel: %w'' [] e)))))
                 | None \<Rightarrow> finish_direct ''forward direct-streamlocal connection: %w'' (dn_copy inp)))))))"

text \<open>A dialed connection is closed, later, and taken off the resources at the end.\<close>

definition connection_released :: "conn_event list \<Rightarrow> bool" where
  "connection_released es \<longleftrightarrow> (if Dialed \<in> set es
     then ConnClosed \<in> set (dropWhile (\<lambda>e. e \<noteq> Dialed) es) \<and> last es = Unregistered \<and> count_list es Dialed = 1
     else ConnClosed \<notin> set es \<and> Unregistered \<notin> set es)"

definition acquisition_ended :: "conn_event list \<Rightarrow> bool" where
  "acquisition_ended es \<longleftrightarrow> count_list es AcquisitionBegun = count_list es (AcquisitionEnded True) + count_list es (AcquisitionEnded False)"

definition direct_ok :: "direct_input \<Rightarrow> bool \<Rightarrow> gerr option \<Rightarrow> dprog \<Rightarrow> bool" where
  "direct_ok inp owned a p \<longleftrightarrow> length (direct_answers a p) \<le> 1
     \<and> (direct_answers a p = [] \<longrightarrow> direct_result a p \<noteq> None \<or> \<not> dn_channel inp)
     \<and> acquisition_ended (direct_events a p)
     \<and> (if owned then connection_released (direct_events a p) else ConnClosed \<notin> set (direct_events a p))"

lemmas direct_eval = direct_ok_def acquisition_ended_def connection_released_def finish_direct_def

lemma direct_ok_returns:
  "direct_ok inp True a (DReturn (Some e))"
  "direct_ok inp True a (DReject reason message (DReturn None))"
  "\<not> dn_channel inp \<Longrightarrow> direct_ok inp True a (DReturn None)"
  by (simp_all add: direct_eval)

lemma direct_ok_failed_dial:
  "direct_ok inp True a (DDo AcquisitionBegun (DDo (AcquisitionEnded False) (DReturn (Some e))))"
  "direct_ok inp True a (DDo AcquisitionBegun (DDo (AcquisitionEnded False) (DReject reason message (DReturn None))))"
  "direct_ok inp False a (DDo AcquisitionBegun (DDo Dialed (DDo (AcquisitionEnded False) (DReturn (Some e)))))"
  "direct_ok inp False a (DDo AcquisitionBegun (DDo Dialed (DDo (AcquisitionEnded False) (DReject reason message (DReturn None)))))"
  by (simp_all add: direct_eval)

lemma direct_ok_dialed:
  "direct_ok inp True a (DDo AcquisitionBegun (DDo Dialed (DDo (AcquisitionEnded True) (DAccept (\<lambda>a. case a of
     Some e \<Rightarrow> DDo ConnClosed (DDo Unregistered (DReturn (Some (f e)))) | None \<Rightarrow> finish_direct what err)))))"
  by (cases a) (simp_all add: direct_eval)

lemmas direct_ok_intros = direct_ok_returns direct_ok_failed_dial direct_ok_dialed

text \<open>
  C34. A handler for local forwards answers its channel at most once, and does answer it unless it returns an
  error, which the worker then reports. It ends the acquisition it begins, and what it dials it
  closes and takes off the resources. The Unix handler leaves alone a connection that its callback
  returns together with an error, since only a successful callback hands its connection over.
\<close>

theorem direct_forward_outcome:
  "direct_ok inp True a (DirectTCPIPHandler inp)
   \<and> direct_ok inp (\<not> (dn_channel inp \<and> dn_context inp \<and> dn_callback inp \<noteq> None \<and> dn_open inp \<and> (\<exists>x. dn_payload inp = Inr x)
        \<and> fst (dn_dial inp) \<and> snd (dn_dial inp) \<noteq> None)) a (DirectStreamLocalHandler inp)"
proof
  show "direct_ok inp True a (DirectTCPIPHandler inp)"
    by (auto simp: DirectTCPIPHandler_def Let_def direct_ok_intros split: sum.splits option.splits bool.splits)
  show "direct_ok inp (\<not> (dn_channel inp \<and> dn_context inp \<and> dn_callback inp \<noteq> None \<and> dn_open inp \<and> (\<exists>x. dn_payload inp = Inr x)
        \<and> fst (dn_dial inp) \<and> snd (dn_dial inp) \<noteq> None)) a (DirectStreamLocalHandler inp)"
  proof (cases "dn_channel inp \<and> dn_context inp \<and> dn_callback inp \<noteq> None \<and> dn_open inp \<and> (\<exists>x. dn_payload inp = Inr x)")
    case True
    obtain path n where "dn_payload inp = Inr (path, n)" using True by fastforce
    with True show ?thesis
      by (cases "fst (dn_dial inp)"; cases "snd (dn_dial inp)"; cases "dn_dial inp") (auto simp: DirectStreamLocalHandler_def direct_ok_intros)
  next
    case False
    then show ?thesis
      by (auto simp: DirectStreamLocalHandler_def direct_ok_intros split: sum.splits)
  qed
qed

section \<open>Opening a channel to the client\<close>

text \<open>
  \<open>openForwardedChannel\<close> runs rounds; each starts a goroutine that opens a channel, and the loop takes what
  comes first. The choices of its \<open>select\<close>s are inputs, one record a round: whether context and
  forward are done at the start; what the first wait sees, and after the end of the forward the second one;
  what the goroutine's \<open>OpenChannel\<close> returns after it was abandoned, \<open>None\<close> if it saw that before it
  called; and what the wait before a retry sees, any \<open>GotResult\<close> standing for its timer. Delays are in nanoseconds.
\<close>

datatype open_result = Opened nat | OpenFailed gerr

datatype open_wait = GotResult open_result | ContextDone | ForwardDone | TimedOut

record open_round =
  or_ctxDone :: bool
  or_forwardDone :: bool
  or_wait :: open_wait
  or_wait2 :: open_wait
  or_late :: "open_result option"
  or_retry :: open_wait

text \<open>The channels that the rounds opened, those that abandoned goroutines closed, and the delays.\<close>

record channel_opening =
  op_opened :: "nat list"
  op_closed :: "nat list"
  op_delays :: "int list"

definition isForwardRegistrationRace :: "gerr \<Rightarrow> bool" where
  "isForwardRegistrationRace err = (case errors_As is_open_channel_error err of
     Some (reason, message) \<Rightarrow> reason = gossh_Prohibited \<and> message = ''no forward for address''
   | None \<Rightarrow> False)"

fun channels_of :: "open_result \<Rightarrow> nat list" where
  "channels_of (Opened ch) = [ch]"
| "channels_of (OpenFailed e) = []"

text \<open>The result of a goroutine that \<open>received\<close> is handed over; otherwise the goroutine closes what it opens.\<close>

definition received :: "open_result \<Rightarrow> channel_opening \<Rightarrow> channel_opening" where
  "received x t = t\<lparr>op_opened := op_opened t @ channels_of x\<rparr>"

definition abandoned :: "open_round \<Rightarrow> channel_opening \<Rightarrow> channel_opening" where
  "abandoned r t = (case or_late r of
     None \<Rightarrow> t
   | Some x \<Rightarrow> t\<lparr>op_opened := op_opened t @ channels_of x, op_closed := op_closed t @ channels_of x\<rparr>)"

text \<open>One round: a result, or another round with the next delay.\<close>

definition open_once :: "gerr \<Rightarrow> string \<Rightarrow> open_round \<Rightarrow> int \<Rightarrow> channel_opening \<Rightarrow> (open_result + int) \<times> channel_opening" where
  "open_once cause ctype r delay t =
     (if or_ctxDone r then (Inl (OpenFailed cause), t)
      else if or_forwardDone r then (Inl (OpenFailed (Var NetErrClosed)), t)
      else (case or_wait r of
        ContextDone \<Rightarrow> (Inl (OpenFailed cause), abandoned r t)
      | TimedOut \<Rightarrow> (Inl (OpenFailed (WrapErr ''open %s channel: %w'' [AStr ctype] (Var ContextDeadlineExceeded))), abandoned r t)
      | ForwardDone \<Rightarrow>
          (case or_wait2 r of
             GotResult (Opened ch) \<Rightarrow> (Inl (Opened ch), received (Opened ch) t)
           | GotResult (OpenFailed e) \<Rightarrow> (Inl (OpenFailed (Var NetErrClosed)), t)
           | ContextDone \<Rightarrow> (Inl (OpenFailed cause), abandoned r t)
           | _ \<Rightarrow> (Inl (OpenFailed (Var NetErrClosed)), abandoned r t))
      | GotResult (Opened ch) \<Rightarrow> (Inl (Opened ch), received (Opened ch) t)
      | GotResult (OpenFailed e) \<Rightarrow>
          if \<not> isForwardRegistrationRace e then (Inl (OpenFailed e), t)
          else (case or_retry r of
                  ContextDone \<Rightarrow> (Inl (OpenFailed cause), t)
                | ForwardDone \<Rightarrow> (Inl (OpenFailed (Var NetErrClosed)), t)
                | TimedOut \<Rightarrow> (Inl (OpenFailed e), t)
                | GotResult _ \<Rightarrow> (Inr (if delay < 50000000 then 2 * delay else delay), t))))"

text \<open>The loop over the rounds that happen; \<open>None\<close> while it is still at work.\<close>

fun open_rounds :: "gerr \<Rightarrow> string \<Rightarrow> open_round list \<Rightarrow> int \<Rightarrow> channel_opening \<Rightarrow> open_result option \<times> channel_opening" where
  "open_rounds cause ctype [] delay t = (None, t)"
| "open_rounds cause ctype (r # rs) delay t =
     (case open_once cause ctype r delay (t\<lparr>op_delays := op_delays t @ [delay]\<rparr>) of
        (Inl x, t1) \<Rightarrow> (Some x, t1)
      | (Inr delay', t1) \<Rightarrow> open_rounds cause ctype rs delay' t1)"

definition openForwardedChannel :: "gerr \<Rightarrow> string \<Rightarrow> open_round list \<Rightarrow> open_result option \<times> channel_opening" where
  "openForwardedChannel cause ctype rs = open_rounds cause ctype rs 1000000 \<lparr>op_opened = [], op_closed = [], op_delays = []\<rparr>"

definition kept :: "open_result option \<Rightarrow> nat list" where
  "kept x = (case x of Some y \<Rightarrow> channels_of y | None \<Rightarrow> [])"

lemma open_once_accounts:
  assumes "open_once cause ctype r delay t = (x, t')" "mset (op_opened t) = mset (op_closed t)"
  shows "mset (op_opened t') = mset (op_closed t') + mset (kept (case x of Inl y \<Rightarrow> Some y | Inr _ \<Rightarrow> None))"
    and "op_delays t' = op_delays t" and "x = Inr delay' \<Longrightarrow> delay' = (if delay < 50000000 then 2 * delay else delay)"
  using assms
  by (auto simp: open_once_def abandoned_def received_def kept_def split: if_splits open_wait.splits open_result.splits option.splits)

lemma open_rounds_account:
  assumes "open_rounds cause ctype rs delay t = (x, t')" "mset (op_opened t) = mset (op_closed t)"
    "\<forall>d \<in> set (op_delays t). d \<le> 64000000" "1000000 \<le> delay" "delay \<le> 64000000"
    "\<exists>k. delay = 1000000 * 2 ^ k"
  shows "mset (op_opened t') = mset (op_closed t') + mset (kept x) \<and> (\<forall>d \<in> set (op_delays t'). d \<le> 64000000)"
  using assms
proof (induction rs arbitrary: delay t)
  case Nil
  then show ?case by (simp add: kept_def)
next
  case (Cons r rs)
  let ?t = "t\<lparr>op_delays := op_delays t @ [delay]\<rparr>"
  obtain y t1 where once: "open_once cause ctype r delay ?t = (y, t1)" by (meson surj_pair)
  note account = open_once_accounts [OF once, simplified, OF Cons.prems(2)]
  show ?case
  proof (cases y)
    case (Inl res)
    then show ?thesis using Cons.prems once account(1,2) by auto
  next
    case (Inr d)
    then have rest: "open_rounds cause ctype rs d t1 = (x, t')" using Cons.prems(1) once by simp
    have d: "d = (if delay < 50000000 then 2 * delay else delay)" using account(3) Inr by simp
    obtain k where k: "delay = 1000000 * 2 ^ k" using Cons.prems(6) by blast
    have "d \<le> 64000000"
    proof (cases "delay < 50000000")
      case True
      then have "(2::int) ^ k < 50" using k by simp
      then have "k < 6" using power_increasing [of 6 k "2::int"] by (cases "k < 6") auto
      then have "(2::int) ^ k \<le> 2 ^ 5" by (intro power_increasing) auto
      then show ?thesis using True d k by simp
    qed (use Cons.prems(5) d in simp)
    moreover have "\<exists>k. d = 1000000 * 2 ^ k" using d k by (cases "delay < 50000000") (auto intro: exI [of _ "Suc k"])
    moreover have "1000000 \<le> d" using d Cons.prems(4) by simp
    moreover have "mset (op_opened t1) = mset (op_closed t1)" using account(1) Inr by (simp add: kept_def)
    moreover have "\<forall>d \<in> set (op_delays t1). d \<le> 64000000" using account(2) Cons.prems(3,5) by simp
    ultimately show ?thesis using Cons.IH [OF rest] by blast
  qed
qed

text \<open>
  C35. Opening a channel to the client loses none: every channel that one of its goroutines opens is the one it
  returns or is closed, also when a context, a forward or the timeout ends the wait while the
  client answers; and it waits at most 64 milliseconds between two attempts.
\<close>

theorem forwarded_channels_not_lost:
  "case openForwardedChannel cause ctype rs of (x, t) \<Rightarrow>
     mset (op_opened t) = mset (op_closed t) + mset (kept x) \<and> list_all (\<lambda>d. d \<le> 64000000) (op_delays t)"
proof -
  have "\<exists>k. (1000000::int) = 1000000 * 2 ^ k" by (rule exI [of _ 0]) simp
  then show ?thesis
    using open_rounds_account [of cause ctype rs 1000000 "\<lparr>op_opened = [], op_closed = [], op_delays = []\<rparr>"]
    by (auto simp: openForwardedChannel_def list_all_iff split: prod.splits)
qed

section \<open>Accept loops\<close>

text \<open>
  One turn of an accept loop for forward \<open>i\<close>; \<open>n\<close> is the number of the close function of the connection it
  accepts, an odd one, as it is no forward. The inputs: what \<open>Accept\<close> returns, and on an error whether the
  context lives, the answer of the error handler and whether the wait for a retry ran its course.
  The connection was not accepted, is closed, or has been handed to a worker.
\<close>

datatype conn_fate = NoConn | ConnRefused | ConnHanded

record accept_input =
  ai_error :: "gerr option"
  ai_ctxAlive :: bool
  ai_dispatch :: bool
  ai_retry :: bool

definition accept_again :: "accept_input \<Rightarrow> bool" where
  "accept_again inp \<longleftrightarrow> ai_ctxAlive inp \<and> \<not> isClosedError (ai_error inp) \<and> ai_dispatch inp \<and> ai_retry inp"

text \<open>\<open>unregisterConn(); endOpen(); limiter.release(); closeQuietly(c)\<close> and the like: what a refused connection gives back.\<close>

definition refuse_conn :: "forward_config \<Rightarrow> nat \<Rightarrow> nat option \<Rightarrow> bool \<Rightarrow> forwarding \<Rightarrow> forwarding" where
  "refuse_conn c n opened slot s =
     (let s1 = s\<lparr>fw_resources := unregister n (fw_resources s)\<rparr>;
          s2 = (case opened of Some i \<Rightarrow> endOpen i s1 | None \<Rightarrow> s1)
      in if slot then s2\<lparr>fw_counters := channelLimiter_release (fc_channels c) (fw_counters s2)\<rparr> else s2)"

definition accepted_conn :: "bool \<Rightarrow> forward_config \<Rightarrow> nat \<Rightarrow> nat \<Rightarrow> forwarding \<Rightarrow> bool \<times> conn_fate \<times> forwarding" where
  "accepted_conn tcp c i n s = (case channelLimiter_reserve (fc_channels c) (fw_counters s) of
     (False, k) \<Rightarrow> (True, ConnRefused, refuse_conn c n None False (s\<lparr>fw_counters := k\<rparr>))
   | (True, k) \<Rightarrow>
       (case beginOpen i (s\<lparr>fw_counters := k\<rparr>) of
          (False, s1) \<Rightarrow> (False, ConnRefused, refuse_conn c n None True s1)
        | (True, s1) \<Rightarrow>
            (case goRun (fw_workers s1) of
               (True, ws) \<Rightarrow> (True, ConnHanded, s1\<lparr>fw_workers := ws\<rparr>)
             | (False, ws) \<Rightarrow> (tcp, ConnRefused, refuse_conn c n (Some i) True s1))))"

text \<open>The first result says whether the loop goes on.\<close>

definition accept_turn :: "bool \<Rightarrow> forward_config \<Rightarrow> nat \<Rightarrow> nat \<Rightarrow> accept_input \<Rightarrow> forwarding \<Rightarrow> bool \<times> conn_fate \<times> forwarding" where
  "accept_turn tcp c i n inp s = (case beginAcquisition (fw_resources s) of
     (False, r) \<Rightarrow> (False, NoConn, s\<lparr>fw_resources := r\<rparr>)
   | (True, r) \<Rightarrow>
       (case ai_error inp of
          Some e \<Rightarrow> (accept_again inp, NoConn, s\<lparr>fw_resources := snd (finishAcquisition None r)\<rparr>)
        | None \<Rightarrow> accepted_conn tcp c i n (s\<lparr>fw_resources := snd (finishAcquisition (Some n) r)\<rparr>)))"

text \<open>The accept loop for agent connections has neither resources nor a forward.\<close>

definition agent_turn :: "forward_config \<Rightarrow> gerr option \<Rightarrow> forwarding \<Rightarrow> bool \<times> conn_fate \<times> forwarding" where
  "agent_turn c err s =
     (if err \<noteq> None then (False, NoConn, s)
      else (case channelLimiter_reserve (fc_channels c) (fw_counters s) of
        (False, k) \<Rightarrow> (True, ConnRefused, s\<lparr>fw_counters := k\<rparr>)
      | (True, k) \<Rightarrow>
          (case goRun (fw_workers s) of
             (True, ws) \<Rightarrow> (True, ConnHanded, s\<lparr>fw_counters := k, fw_workers := ws\<rparr>)
           | (False, ws) \<Rightarrow> (False, ConnRefused, s\<lparr>fw_counters := channelLimiter_release (fc_channels c) k\<rparr>))))"

lemma finish_acquired:
  "\<not> cr_closed r \<Longrightarrow> beginAcquisition r = (True, r') \<Longrightarrow> snd (finishAcquisition None r') = r"
  "\<not> cr_closed r \<Longrightarrow> beginAcquisition r = (True, r') \<Longrightarrow> snd (finishAcquisition (Some n) r') = r\<lparr>cr_resources := n # cr_resources r\<rparr>"
  by (auto simp: beginAcquisition_def finishAcquisition_def finish_register_def finish_end_def Let_def)

lemma beginAcquisition_cases:
  obtains "cr_closed r" "beginAcquisition r = (False, r)"
  | "\<not> cr_closed r" "beginAcquisition r = (True, r\<lparr>cr_pendingAcquisitions := cr_pendingAcquisitions r + 1\<rparr>)"
  by (auto simp: beginAcquisition_def)

lemma unregister_undoes [simp]: "unregister n (r\<lparr>cr_resources := n # cr_resources r\<rparr>) = r"
  by (simp add: unregister_def)

lemma endOpen_undoes:
  "i < length (fw_objects s) \<Longrightarrow> beginOpen i s = (True, s') \<Longrightarrow> endOpen i s' = s"
  by (auto simp: beginOpen_def endOpen_def split: if_splits)

text \<open>What a turn leaves: nothing, or a connection with its slot, its open in flight, its worker and its close function.\<close>

definition conn_held :: "forward_config \<Rightarrow> nat \<Rightarrow> nat \<Rightarrow> forwarding \<Rightarrow> forwarding \<Rightarrow> bool" where
  "conn_held c i n s s' \<longleftrightarrow> \<not> cr_closed (fw_resources s) \<and> \<not> cw_closed (fw_workers s) \<and> \<not> f_closing (fw_objects s ! i)
     \<and> s' = s\<lparr>fw_resources := (fw_resources s)\<lparr>cr_resources := n # cr_resources (fw_resources s)\<rparr>,
        fw_workers := (fw_workers s)\<lparr>cw_running := cw_running (fw_workers s) + 1\<rparr>,
        fw_counters := snd (channelLimiter_reserve (fc_channels c) (fw_counters s)),
        fw_objects := (fw_objects s)[i := (fw_objects s ! i)\<lparr>f_pending := f_pending (fw_objects s ! i) + 1\<rparr>]\<rparr>
     \<and> fst (channelLimiter_reserve (fc_channels c) (fw_counters s))"

lemma accepted_conn_outcome:
  assumes "i < length (fw_objects s)" "\<not> cr_closed (fw_resources s)"
    "accepted_conn tcp c i n (s\<lparr>fw_resources := (fw_resources s)\<lparr>cr_resources := n # cr_resources (fw_resources s)\<rparr>\<rparr>) = (again, fate, s')"
  shows "if fate = ConnHanded then conn_held c i n s s' else s' = s"
  using assms chan_slots.refused [of "fc_channels c" "fw_counters s"] chan_slots.release_undoes_reserve [of "fc_channels c" "fw_counters s"]
  by (auto simp: accepted_conn_def refuse_conn_def beginOpen_def endOpen_def goRun_def conn_held_def Let_def
      split: prod.splits bool.splits if_splits)

text \<open>
  Every turn of an accept loop, for TCP, Unix or agent connections, ends in one of two ways: the accepted
  connection is with a worker and holds one channel slot, is counted among the opens of its
  forward and is registered to be closed with the connection; or there is no connection left and
  slots, opens, registrations and workers are exactly as before the turn.
\<close>

lemma accept_turn_outcome:
  assumes "i < length (fw_objects s)"
  shows "case accept_turn tcp c i n inp s of (_, fate, s') \<Rightarrow> if fate = ConnHanded then conn_held c i n s s' else s' = s"
proof (rule beginAcquisition_cases [of "fw_resources s"])
  assume closed: "cr_closed (fw_resources s)" "beginAcquisition (fw_resources s) = (False, fw_resources s)"
  then show ?thesis by (simp add: accept_turn_def)
next
  assume "\<not> cr_closed (fw_resources s)"
    "beginAcquisition (fw_resources s) = (True, (fw_resources s)\<lparr>cr_pendingAcquisitions := cr_pendingAcquisitions (fw_resources s) + 1\<rparr>)"
  with finish_acquired [OF this] accepted_conn_outcome [OF assms this(1), of tcp c n] show ?thesis
    by (auto simp: accept_turn_def split: option.splits prod.splits)
qed

lemma agent_turn_outcome:
  "case agent_turn c err s of (_, fate, s') \<Rightarrow> if fate = ConnHanded
     then s' = s\<lparr>fw_counters := snd (channelLimiter_reserve (fc_channels c) (fw_counters s)), fw_workers := snd (goRun (fw_workers s))\<rparr>
     else s' = s"
  using chan_slots.refused [of "fc_channels c" "fw_counters s"] chan_slots.release_undoes_reserve [of "fc_channels c" "fw_counters s"]
  by (auto simp: agent_turn_def goRun_def split: prod.splits bool.splits if_splits)

definition one_forward :: forwarding where
  "one_forward = idle_forwarding\<lparr>fw_objects := [\<lparr>f_key = ''p'', f_closing = False, f_pending = 0\<rparr>]\<rparr>"

end
