(* ===== verification/Auth.thy ===== *)
theory Auth
  imports Algorithms Contexts GoErrors
begin

text \<open>
  The authentication callbacks of a connection (\<open>server.go\<close>): \<open>configForConnection\<close> puts the handlers of the
  server and the callbacks of a \<open>gossh.ServerConfig\<close> together, so that the context shows the
  permissions and the public key of the attempt that counts. \<open>gossh\<close> calls them. Callbacks are functions
  of the state of the handshake and may change all of it. Pointers to permissions, keys
  and signers are numbers; \<open>au_next\<close> is the next free one for permissions.
\<close>

section \<open>The state of a handshake\<close>

record publicKeyAuthState =
  pk_candidate :: "nat option"
  pk_pending :: "nat option"

record authCallbackConflicts =
  conflict_password :: bool
  conflict_publicKey :: bool
  conflict_keyboardInteractive :: bool

text \<open>\<open>au_failure\<close> and \<open>au_transportClosed\<close> are \<open>handshakeCallbackFailure\<close>; \<open>au_conflicts\<close> is a value of the context.\<close>

record auth_state =
  au_ctx :: sshContext
  au_next :: nat
  au_failure :: "gerr option"
  au_transportClosed :: bool
  au_keys :: publicKeyAuthState
  au_conflicts :: authCallbackConflicts

definition on_ctx :: "(sshContext \<Rightarrow> sshContext) \<Rightarrow> auth_state \<Rightarrow> auth_state" where
  "on_ctx f s = s\<lparr>au_ctx := f (au_ctx s)\<rparr>"

definition failure_record :: "gerr option \<Rightarrow> auth_state \<Rightarrow> gerr option \<times> auth_state" where
  "failure_record err s = (if err = None then (None, s)
     else (err, s\<lparr>au_failure := (if au_failure s = None then err else au_failure s), au_transportClosed := True\<rparr>))"

definition failure_result :: "auth_state \<Rightarrow> gerr option" where
  "failure_result s = au_failure s"

definition publishAuthPermissions :: "nat option \<Rightarrow> auth_state \<Rightarrow> auth_state" where
  "publishAuthPermissions permissions s = (case permissions of
     None \<Rightarrow> (on_ctx (SetValue ContextKeyPermissions (Ref_value (au_next s))) s)\<lparr>au_next := au_next s + 1\<rparr>
   | Some p \<Rightarrow> on_ctx (SetValue ContextKeyPermissions (Ref_value p)) s)"

definition beginAuthAttempt :: "auth_state \<Rightarrow> nat \<times> auth_state" where
  "beginAuthAttempt s = (au_next s, publishAuthPermissions (Some (au_next s)) (s\<lparr>au_next := au_next s + 1\<rparr>))"

definition recordVerified :: "nat \<Rightarrow> gerr option \<Rightarrow> publicKeyAuthState \<Rightarrow> publicKeyAuthState" where
  "recordVerified key err k = (case err of
     None \<Rightarrow> k\<lparr>pk_candidate := Some key\<rparr>
   | Some e \<Rightarrow> if errors_As is_partial_success e \<noteq> None then k\<lparr>pk_candidate := Some key\<rparr> else k\<lparr>pk_candidate := None\<rparr>)"

definition publish_key :: "nat option \<Rightarrow> auth_state \<Rightarrow> auth_state" where
  "publish_key key = on_ctx (SetValue ContextKeyPublicKey (case key of Some k \<Rightarrow> Ref_value k | None \<Rightarrow> Nil_value))"

definition finishAttempt :: "string \<Rightarrow> gerr option \<Rightarrow> auth_state \<Rightarrow> auth_state" where
  "finishAttempt method err s =
     (if method \<noteq> ''publickey''
      then (if err = None \<and> pk_pending (au_keys s) \<noteq> None then publish_key (pk_pending (au_keys s)) s else s)
      else let candidate = pk_candidate (au_keys s);
               s1 = s\<lparr>au_keys := (au_keys s)\<lparr>pk_candidate := None\<rparr>\<rparr>
           in (case err of
                 None \<Rightarrow> if candidate \<noteq> None
                         then publish_key candidate (s1\<lparr>au_keys := (au_keys s1)\<lparr>pk_pending := candidate\<rparr>\<rparr>) else s1
               | Some e \<Rightarrow>
                   if errors_As is_partial_success e \<noteq> None
                   then publish_key candidate (s1\<lparr>au_keys := (au_keys s1)\<lparr>pk_pending := candidate\<rparr>\<rparr>)
                   else if pk_pending (au_keys s1) = None then publish_key None s1 else s1))"

section \<open>Callbacks\<close>

type_synonym auth_result = "nat option \<times> gerr option"
type_synonym 'i auth_callback = "connMetadata \<Rightarrow> 'i \<Rightarrow> auth_state \<Rightarrow> auth_result \<times> auth_state"
type_synonym 'i auth_handler = "connMetadata \<Rightarrow> 'i \<Rightarrow> auth_state \<Rightarrow> (bool \<times> gerr option) \<times> auth_state"
type_synonym verified_callback = "connMetadata \<Rightarrow> nat \<Rightarrow> nat option \<Rightarrow> string \<Rightarrow> auth_state \<Rightarrow> auth_result \<times> auth_state"

text \<open>
  A partial success names the callbacks that come next; the application's are even numbers, the odd
  number after one is its wrapping.
\<close>

definition wrapAuthError :: "gerr option \<Rightarrow> gerr option" where
  "wrapAuthError err = (case err of
     None \<Rightarrow> None
   | Some e \<Rightarrow> (case errors_As is_partial_success e of
                  Some n \<Rightarrow> Some (PartialSuccess (2 * n + 1))
                | None \<Rightarrow> Some e))"

definition conflict_callback :: "'i auth_callback" where
  "conflict_callback conn i s = ((None, Some (Var ErrServerAuthCallbackConflict)), s)"

text \<open>The callback made of a handler; password, public key and keyboard-interactive handlers are treated alike.\<close>

definition handler_callback :: "'i auth_handler \<Rightarrow> 'i auth_callback" where
  "handler_callback v conn i s =
     (let s1 = on_ctx (applyConnMetadata conn) s;
          (permissions, s2) = beginAuthAttempt s1;
          ((ok, err), s3) = v conn i s2
      in if err \<noteq> None then (case failure_record err s3 of (e, s4) \<Rightarrow> ((Some permissions, e), s4))
         else if \<not> ok then ((Some permissions, Some (Var ErrServerPermissionDenied)), s3)
         else ((Some permissions, None), s3))"

definition wrapPasswordCallback :: "'i auth_callback \<Rightarrow> 'i auth_callback" where
  "wrapPasswordCallback callback conn i s =
     (let s1 = snd (beginAuthAttempt (on_ctx (applyConnMetadata conn) s));
          ((permissions, err), s2) = callback conn i s1;
          s3 = (if err = None then publishAuthPermissions permissions s2 else s2)
      in ((permissions, wrapAuthError err), s3))"

definition wrapPublicKeyCallback :: "'i auth_callback \<Rightarrow> 'i auth_callback" where
  "wrapPublicKeyCallback callback conn i s =
     (let s1 = snd (beginAuthAttempt (on_ctx (applyConnMetadata conn) s));
          ((permissions, err), s2) = callback conn i s1
      in ((permissions, wrapAuthError err), s2))"

definition wrapKeyboardInteractiveCallback :: "'i auth_callback \<Rightarrow> 'i auth_callback" where
  "wrapKeyboardInteractiveCallback callback conn i s =
     (let s1 = snd (beginAuthAttempt (on_ctx (applyConnMetadata conn) s));
          ((permissions, err), s2) = callback conn i s1;
          s3 = (if err = None then publishAuthPermissions permissions s2 else s2)
      in ((permissions, wrapAuthError err), s3))"

text \<open>A GSSAPI configuration, here its \<open>AllowLogin\<close>, which may be nil.\<close>

definition wrapGSSAPIWithMICConfig :: "string auth_callback option option \<Rightarrow> string auth_callback option option" where
  "wrapGSSAPIWithMICConfig config = (case config of
     None \<Rightarrow> None
   | Some None \<Rightarrow> Some None
   | Some (Some allowLogin) \<Rightarrow> Some (Some (\<lambda>conn srcName s.
       (let s1 = snd (beginAuthAttempt (on_ctx (applyConnMetadata conn) s));
            ((permissions, err), s2) = allowLogin conn srcName s1;
            s3 = (if err = None then publishAuthPermissions permissions s2 else s2)
        in ((permissions, wrapAuthError err), s3)))))"





section \<open>The configuration of a connection\<close>

record serverConfig =
  sc_PreAuthConnCallback :: "(connMetadata \<Rightarrow> auth_state \<Rightarrow> auth_state) option"
  sc_AuthLogCallback :: "(connMetadata \<Rightarrow> string \<Rightarrow> gerr option \<Rightarrow> auth_state \<Rightarrow> auth_state) option"
  sc_Ciphers :: "string list"
  sc_KeyExchanges :: "string list"
  sc_MACs :: "string list"
  sc_hostKeys :: "nat list"
  sc_NoClientAuth :: bool
  sc_ServerVersion :: string
  sc_BannerCallback :: "(connMetadata \<Rightarrow> auth_state \<Rightarrow> string \<times> auth_state) option"
  sc_NoClientAuthCallback :: "(connMetadata \<Rightarrow> auth_state \<Rightarrow> auth_result \<times> auth_state) option"
  sc_PasswordCallback :: "bytes auth_callback option"
  sc_PublicKeyCallback :: "nat auth_callback option"
  sc_VerifiedPublicKeyCallback :: "verified_callback option"
  sc_KeyboardInteractiveCallback :: "nat auth_callback option"
  sc_GSSAPIWithMICConfig :: "string auth_callback option option"

record auth_server =
  as_ServerConfigCallback :: "(serverConfig \<Rightarrow> auth_state \<Rightarrow> (gerr option \<times> serverConfig) \<times> auth_state) option"
  as_PasswordHandler :: "bytes auth_handler option"
  as_PublicKeyHandler :: "nat auth_handler option"
  as_KeyboardInteractiveHandler :: "nat auth_handler option"
  as_BannerHandler :: "(connMetadata \<Rightarrow> auth_state \<Rightarrow> (string \<times> gerr option) \<times> auth_state) option"
  as_RequireClientAuth :: bool
  as_Version :: string
  as_Ciphers :: "uint8 list"
  as_KeyExchanges :: "uint8 list"
  as_MessageAuthentications :: "uint8 list"
  as_HostSigners :: "nat list"
  as_generatedHostSigners :: "nat list"

definition emptyConfig :: serverConfig where
  "emptyConfig = \<lparr>sc_PreAuthConnCallback = None, sc_AuthLogCallback = None, sc_Ciphers = [], sc_KeyExchanges = [], sc_MACs = [],
     sc_hostKeys = [], sc_NoClientAuth = False, sc_ServerVersion = [], sc_BannerCallback = None, sc_NoClientAuthCallback = None,
     sc_PasswordCallback = None, sc_PublicKeyCallback = None, sc_VerifiedPublicKeyCallback = None,
     sc_KeyboardInteractiveCallback = None, sc_GSSAPIWithMICConfig = None\<rparr>"

definition hostSigners :: "auth_server \<Rightarrow> nat list" where
  "hostSigners srv = (if length (as_HostSigners srv) \<noteq> 0 then as_HostSigners srv else as_generatedHostSigners srv)"

definition config_logging :: "serverConfig \<Rightarrow> serverConfig" where
  "config_logging config = config\<lparr>
     sc_PreAuthConnCallback := map_option (\<lambda>cb conn s. cb conn (on_ctx (applyConnMetadata conn) s)) (sc_PreAuthConnCallback config),
     sc_AuthLogCallback := Some (\<lambda>conn method err s.
       (let s1 = finishAttempt method err (on_ctx (applyConnMetadata conn) s)
        in case sc_AuthLogCallback config of Some cb \<Rightarrow> cb conn method err s1 | None \<Rightarrow> s1))\<rparr>"

definition config_algorithms :: "auth_server \<Rightarrow> serverConfig \<Rightarrow> serverConfig" where
  "config_algorithms srv config = config\<lparr>
     sc_Ciphers := (if \<not> Ciphers_IsEmpty (as_Ciphers srv) \<or> length (sc_Ciphers config) = 0
       then map Cipher_String (if Ciphers_IsEmpty (as_Ciphers srv) then DefaultCiphers else as_Ciphers srv)
       else sc_Ciphers config),
     sc_KeyExchanges := (if \<not> KeyExchanges_IsEmpty (as_KeyExchanges srv) \<or> length (sc_KeyExchanges config) = 0
       then map KeyExchange_String (if KeyExchanges_IsEmpty (as_KeyExchanges srv) then DefaultKeyExchanges else as_KeyExchanges srv)
       else sc_KeyExchanges config),
     sc_MACs := (if \<not> MessageAuthentications_IsEmpty (as_MessageAuthentications srv) \<or> length (sc_MACs config) = 0
       then map MessageAuthentication_String
         (if MessageAuthentications_IsEmpty (as_MessageAuthentications srv) then DefaultMessageAuthentications else as_MessageAuthentications srv)
       else sc_MACs config)\<rparr>"

text \<open>Host keys, \<open>NoClientAuth\<close> and the version; \<open>addHostKey\<close> is the method of \<open>gossh.ServerConfig\<close>.\<close>

definition config_identity :: "(nat \<Rightarrow> nat list \<Rightarrow> nat list) \<Rightarrow> auth_server \<Rightarrow> serverConfig \<Rightarrow> serverConfig" where
  "config_identity addHostKey srv config = config\<lparr>
     sc_hostKeys := fold addHostKey (hostSigners srv) (sc_hostKeys config),
     sc_NoClientAuth := (if \<not> as_RequireClientAuth srv \<and> as_PasswordHandler srv = None \<and> as_PublicKeyHandler srv = None
         \<and> as_KeyboardInteractiveHandler srv = None \<and> sc_PasswordCallback config = None \<and> sc_PublicKeyCallback config = None
         \<and> sc_KeyboardInteractiveCallback config = None \<and> sc_GSSAPIWithMICConfig config = None
       then True else sc_NoClientAuth config),
     sc_ServerVersion := (if as_Version srv \<noteq> [] then ''SSH-2.0-'' @ as_Version srv else sc_ServerVersion config)\<rparr>"

definition banner_callback :: "auth_server \<Rightarrow> serverConfig \<Rightarrow> (connMetadata \<Rightarrow> auth_state \<Rightarrow> string \<times> auth_state) option" where
  "banner_callback srv config = (case as_BannerHandler srv of
     Some v \<Rightarrow> Some (\<lambda>conn s.
       (case v conn (on_ctx (applyConnMetadata conn) s) of
          ((banner, Some err), s1) \<Rightarrow> ([], snd (failure_record (Some err) s1))
        | ((banner, None), s1) \<Rightarrow> (banner, s1)))
   | None \<Rightarrow> map_option (\<lambda>cb conn s. cb conn (on_ctx (applyConnMetadata conn) s)) (sc_BannerCallback config))"

definition noClientAuth_callback :: "serverConfig \<Rightarrow> (connMetadata \<Rightarrow> auth_state \<Rightarrow> auth_result \<times> auth_state) option" where
  "noClientAuth_callback config = (if \<not> sc_NoClientAuth config then sc_NoClientAuthCallback config
     else Some (\<lambda>conn s.
       (let (permissions, s1) = beginAuthAttempt (on_ctx (applyConnMetadata conn) s)
        in case sc_NoClientAuthCallback config of
             None \<Rightarrow> ((Some permissions, None), publishAuthPermissions (Some permissions) s1)
           | Some cb \<Rightarrow>
               (case cb conn s1 of
                  ((p, Some err), s2) \<Rightarrow> ((p, wrapAuthError (Some err)), s2)
                | ((p, None), s2) \<Rightarrow> ((p, None), publishAuthPermissions p s2)))))"

text \<open>The two branches of the code build the same callback around the source's.\<close>

definition verified_publicKey_callback :: "verified_callback option \<Rightarrow> verified_callback" where
  "verified_publicKey_callback source conn key permissions alg s =
     (let s1 = on_ctx (applyConnMetadata conn) s;
          accept = (\<lambda>p t. ((p, None), publishAuthPermissions p (t\<lparr>au_keys := recordVerified key None (au_keys t)\<rparr>)))
      in case source of
           None \<Rightarrow> accept permissions s1
         | Some cb \<Rightarrow>
             (case cb conn key permissions alg s1 of
                ((p, Some err), s2) \<Rightarrow> ((p, wrapAuthError (Some err)), s2\<lparr>au_keys := recordVerified key (Some err) (au_keys s2)\<rparr>)
              | ((p, None), s2) \<Rightarrow> accept p s2))"

text \<open>The handler of the server and the source's callback for one method: both is a conflict.\<close>

definition method_callback :: "('i auth_callback \<Rightarrow> 'i auth_callback) \<Rightarrow> 'i auth_handler option \<Rightarrow> 'i auth_callback option \<Rightarrow> 'i auth_callback option" where
  "method_callback wrap handler custom = (case handler of
     Some v \<Rightarrow> if custom \<noteq> None then Some conflict_callback else Some (handler_callback v)
   | None \<Rightarrow> map_option wrap custom)"

definition config_methods :: "auth_server \<Rightarrow> serverConfig \<Rightarrow> serverConfig" where
  "config_methods srv config = config\<lparr>
     sc_BannerCallback := banner_callback srv config,
     sc_NoClientAuthCallback := noClientAuth_callback config,
     sc_PasswordCallback := method_callback wrapPasswordCallback (as_PasswordHandler srv) (sc_PasswordCallback config),
     sc_PublicKeyCallback := method_callback wrapPublicKeyCallback (as_PublicKeyHandler srv) (sc_PublicKeyCallback config),
     sc_VerifiedPublicKeyCallback := Some (verified_publicKey_callback (sc_VerifiedPublicKeyCallback config)),
     sc_KeyboardInteractiveCallback := method_callback wrapKeyboardInteractiveCallback (as_KeyboardInteractiveHandler srv)
       (sc_KeyboardInteractiveCallback config),
     sc_GSSAPIWithMICConfig := wrapGSSAPIWithMICConfig (sc_GSSAPIWithMICConfig config)\<rparr>"

definition set_conflicts :: "auth_server \<Rightarrow> auth_state \<Rightarrow> auth_state" where
  "set_conflicts srv s = s\<lparr>au_conflicts := \<lparr>conflict_password = as_PasswordHandler srv \<noteq> None,
     conflict_publicKey = as_PublicKeyHandler srv \<noteq> None,
     conflict_keyboardInteractive = as_KeyboardInteractiveHandler srv \<noteq> None\<rparr>\<rparr>"

definition configForConnection ::
  "(nat \<Rightarrow> nat list \<Rightarrow> nat list) \<Rightarrow> auth_server \<Rightarrow> auth_state \<Rightarrow> (gerr + serverConfig) \<times> auth_state" where
  "configForConnection addHostKey srv s =
     (case (case as_ServerConfigCallback srv of Some v \<Rightarrow> v emptyConfig s | None \<Rightarrow> ((None, emptyConfig), s)) of
        ((Some err, _), s1) \<Rightarrow> (Inl err, s1)
      | ((None, source), s1) \<Rightarrow>
          (Inr (config_methods srv (config_identity addHostKey srv (config_algorithms srv (config_logging source)))), set_conflicts srv s1))"

section \<open>What the configuration offers\<close>

definition source_config :: "auth_server \<Rightarrow> auth_state \<Rightarrow> serverConfig" where
  "source_config srv s = (case as_ServerConfigCallback srv of Some v \<Rightarrow> snd (fst (v emptyConfig s)) | None \<Rightarrow> emptyConfig)"

lemma configured:
  assumes "configForConnection addHostKey srv s = (Inr cfg, s')"
  shows "cfg = config_methods srv (config_identity addHostKey srv (config_algorithms srv (config_logging (source_config srv s))))"
  using assms by (auto simp: configForConnection_def source_config_def split: option.splits prod.splits)


section \<open>Permissions\<close>

text \<open>An accepted attempt leaves in the context the permissions that it returns, and new ones when it returns none.\<close>

definition publishes :: "auth_result \<times> auth_state \<Rightarrow> bool" where
  "publishes out = (case out of
     ((p, None), t) \<Rightarrow> (case ctx_Permissions (au_ctx t) of None \<Rightarrow> False | Some q \<Rightarrow> p = None \<or> p = Some q)
   | ((p, Some err), t) \<Rightarrow> True)"

lemma published [simp]:
  "ctx_Permissions (au_ctx (publishAuthPermissions p s)) = Some (case p of Some q \<Rightarrow> q | None \<Rightarrow> au_next s)"
  by (simp add: publishAuthPermissions_def on_ctx_def ctx_Permissions_def split: option.splits)

lemma begun [simp]: "ctx_Permissions (au_ctx (snd (beginAuthAttempt s))) = Some (au_next s)" "fst (beginAuthAttempt s) = au_next s"
  by (simp_all add: beginAuthAttempt_def)

lemma wrapAuthError_None [simp]: "wrapAuthError err = None \<longleftrightarrow> err = None"
  by (simp add: wrapAuthError_def split: option.splits)

lemma conflict_publishes: "publishes (conflict_callback conn i s)"
  by (simp add: publishes_def conflict_callback_def)

lemma wrapped_publishes:
  "publishes (wrapPasswordCallback cb conn i s)" "publishes (wrapKeyboardInteractiveCallback cb conn i s)"
  by (auto simp: publishes_def wrapPasswordCallback_def wrapKeyboardInteractiveCallback_def Let_def split: prod.splits option.splits)

lemma handler_publishes:
  assumes "\<And>conn i t. ctx_Permissions (au_ctx (snd (v conn i t))) = ctx_Permissions (au_ctx t)"
  shows "publishes (handler_callback v conn i s)"
proof -
  let ?s1 = "on_ctx (applyConnMetadata conn) s"
  obtain ok err s3 where v: "v conn i (snd (beginAuthAttempt ?s1)) = ((ok, err), s3)" by (metis surj_pair)
  have "ctx_Permissions (au_ctx s3) = Some (au_next ?s1)" using assms [of conn i "snd (beginAuthAttempt ?s1)"] by (simp add: v)
  then show ?thesis using v
    by (auto simp: publishes_def handler_callback_def failure_record_def Let_def beginAuthAttempt_def split: prod.splits)
qed

text \<open>
  C5. The permissions in the context are those of the attempt that was accepted, never those of an
  earlier one: for a password, for keyboard-interactive, GSSAPI and no authentication, and for a
  public key when its signature has been verified. The handlers must not replace the permissions
  themselves.
\<close>

theorem accepted_attempts_publish_permissions:
  assumes "configForConnection addHostKey srv s = (Inr cfg, s')"
    and "\<And>v conn i t. as_PasswordHandler srv = Some v \<Longrightarrow> ctx_Permissions (au_ctx (snd (v conn i t))) = ctx_Permissions (au_ctx t)"
    and "\<And>v conn i t. as_KeyboardInteractiveHandler srv = Some v \<Longrightarrow> ctx_Permissions (au_ctx (snd (v conn i t))) = ctx_Permissions (au_ctx t)"
  shows "(\<forall>cb \<in> set_option (sc_PasswordCallback cfg). publishes (cb conn pw t))
    \<and> (\<forall>cb \<in> set_option (sc_KeyboardInteractiveCallback cfg). publishes (cb conn challenge t))
    \<and> (\<forall>cb \<in> set_option (sc_VerifiedPublicKeyCallback cfg). publishes (cb conn key p alg t))
    \<and> (\<forall>gss \<in> set_option (sc_GSSAPIWithMICConfig cfg). \<forall>cb \<in> set_option gss. publishes (cb conn srcName t))
    \<and> (if sc_NoClientAuth cfg then \<forall>cb \<in> set_option (sc_NoClientAuthCallback cfg). publishes (cb conn t) else True)"
proof -
  let ?c = "config_identity addHostKey srv (config_algorithms srv (config_logging (source_config srv s)))"
  have cfg: "cfg = config_methods srv ?c" using configured [OF assms(1)] .
  have "publishes (cb conn pw t)" if "sc_PasswordCallback cfg = Some cb" for cb
    using that assms(2) unfolding cfg
    by (auto simp: config_methods_def method_callback_def conflict_publishes wrapped_publishes intro!: handler_publishes split: option.splits if_splits)
  moreover have "publishes (cb conn challenge t)" if "sc_KeyboardInteractiveCallback cfg = Some cb" for cb
    using that assms(3) unfolding cfg
    by (auto simp: config_methods_def method_callback_def conflict_publishes wrapped_publishes intro!: handler_publishes split: option.splits if_splits)
  moreover have "publishes (verified_publicKey_callback source conn key p alg t)" for source
    by (auto simp: publishes_def verified_publicKey_callback_def Let_def split: option.splits prod.splits)
  then have "publishes (cb conn key p alg t)" if "sc_VerifiedPublicKeyCallback cfg = Some cb" for cb
    using that unfolding cfg by (auto simp: config_methods_def)
  moreover have "publishes (cb conn srcName t)" if "sc_GSSAPIWithMICConfig cfg = Some (Some cb)" for cb
    using that unfolding cfg
    by (auto simp: config_methods_def wrapGSSAPIWithMICConfig_def publishes_def Let_def split: option.splits prod.splits)
  moreover have "publishes (cb conn t)" if "sc_NoClientAuth cfg" "sc_NoClientAuthCallback cfg = Some cb" for cb
    using that unfolding cfg
    by (auto simp: config_methods_def noClientAuth_callback_def publishes_def Let_def split: option.splits prod.splits if_splits)
  ultimately show ?thesis by auto
qed

section \<open>The public key in the context\<close>

text \<open>
  What \<open>gossh\<close> tells the state during a handshake: the result of the verified callback for a key, and the end of
  an attempt.
\<close>

datatype key_event = KeyVerified nat "gerr option" | AttemptFinished string "gerr option"

definition key_event :: "key_event \<Rightarrow> auth_state \<Rightarrow> auth_state" where
  "key_event e s = (case e of
     KeyVerified key err \<Rightarrow> s\<lparr>au_keys := recordVerified key err (au_keys s)\<rparr>
   | AttemptFinished method err \<Rightarrow> finishAttempt method err s)"

definition no_keys :: publicKeyAuthState where
  "no_keys = \<lparr>pk_candidate = None, pk_pending = None\<rparr>"

definition succeeds :: "gerr option \<Rightarrow> bool" where
  "succeeds err \<longleftrightarrow> (case err of None \<Rightarrow> True | Some e \<Rightarrow> errors_As is_partial_success e \<noteq> None)"

definition about_keys :: "key_event \<Rightarrow> bool" where
  "about_keys e = (case e of KeyVerified key err \<Rightarrow> True | AttemptFinished method err \<Rightarrow> method = ''publickey'')"

text \<open>
  Key \<open>k\<close> was verified by a callback that accepted it, and the attempt it was verified in ended with a full
  or partial success.
\<close>

definition approved :: "key_event list \<Rightarrow> nat \<Rightarrow> bool" where
  "approved evs k \<longleftrightarrow> (\<exists>xs e ys r zs. evs = xs @ KeyVerified k e # ys @ AttemptFinished ''publickey'' r # zs
     \<and> succeeds e \<and> succeeds r \<and> list_all (\<lambda>ev. \<not> about_keys ev) ys)"

text \<open>The last event about keys is the verification of \<open>k\<close>.\<close>

definition verified_last :: "key_event list \<Rightarrow> nat \<Rightarrow> bool" where
  "verified_last evs k \<longleftrightarrow> (\<exists>xs e ys. evs = xs @ KeyVerified k e # ys \<and> succeeds e \<and> list_all (\<lambda>ev. \<not> about_keys ev) ys)"

definition key_inv :: "key_event list \<Rightarrow> auth_state \<Rightarrow> bool" where
  "key_inv evs s \<longleftrightarrow> (case pk_candidate (au_keys s) of None \<Rightarrow> True | Some k \<Rightarrow> verified_last evs k)
     \<and> (case pk_pending (au_keys s) of None \<Rightarrow> True | Some k \<Rightarrow> approved evs k)
     \<and> (case ctx_Value (au_ctx s) ContextKeyPublicKey of Nil_value \<Rightarrow> True | Ref_value k \<Rightarrow> approved evs k | _ \<Rightarrow> False)"

lemma approved_snoc: "approved evs k \<Longrightarrow> approved (evs @ [e]) k"
  unfolding approved_def by (metis append.assoc append_Cons)

lemma verified_last_snoc: "verified_last evs k \<Longrightarrow> \<not> about_keys e \<Longrightarrow> verified_last (evs @ [e]) k"
proof -
  assume "verified_last evs k" "\<not> about_keys e"
  then obtain xs err ys where "evs = xs @ KeyVerified k err # ys" "succeeds err" "list_all (\<lambda>ev. \<not> about_keys ev) (ys @ [e])"
    by (auto simp: verified_last_def)
  then show ?thesis unfolding verified_last_def by (metis append.assoc append_Cons)
qed

lemma verified_now: "succeeds e \<Longrightarrow> verified_last (evs @ [KeyVerified k e]) k"
  unfolding verified_last_def by (metis list.pred_inject(1))

lemma approved_now: "verified_last evs k \<Longrightarrow> succeeds r \<Longrightarrow> approved (evs @ [AttemptFinished ''publickey'' r]) k"
  unfolding verified_last_def approved_def by fastforce

lemma key_inv_step: "key_inv evs s \<Longrightarrow> key_inv (evs @ [e]) (key_event e s)"
proof (cases e)
  case (KeyVerified k err)
  assume inv: "key_inv evs s"
  let ?k' = "recordVerified k err (au_keys s)"
  have "pk_candidate ?k' = (if succeeds err then Some k else None)" "pk_pending ?k' = pk_pending (au_keys s)"
    by (auto simp: recordVerified_def succeeds_def split: option.splits)
  then show ?thesis using inv verified_now [of err evs k] unfolding KeyVerified
    by (auto simp: key_inv_def key_event_def dest: approved_snoc split: option.splits ctx_value.splits)
next
  case (AttemptFinished m err)
  assume inv: "key_inv evs s"
  let ?a = "\<lambda>k. approved (evs @ [AttemptFinished m err]) k"
  have old: "?a k" if "approved evs k" for k using that by (rule approved_snoc)
  show ?thesis
  proof (cases "m = ''publickey''")
    case True
    have new: "?a k" if "pk_candidate (au_keys s) = Some k" "succeeds err" for k
      using inv that approved_now [of evs k err] True by (simp add: key_inv_def)
    show ?thesis using inv old new unfolding AttemptFinished
      by (auto simp: key_inv_def key_event_def finishAttempt_def True publish_key_def on_ctx_def succeeds_def Let_def
          split: option.splits ctx_value.splits if_splits)
  next
    case False
    have kept: "verified_last (evs @ [AttemptFinished m err]) k" if "verified_last evs k" for k
      using that False by (intro verified_last_snoc) (simp_all add: about_keys_def)
    show ?thesis using inv old kept unfolding AttemptFinished
      by (auto simp: key_inv_def key_event_def finishAttempt_def False publish_key_def on_ctx_def
          split: option.splits ctx_value.splits if_splits)
  qed
qed

text \<open>
  C3. Whatever callbacks and attempts a handshake has, the public key that the context shows was verified by
  a callback that accepted it, in an attempt that then succeeded, fully or in part: never a key
  that was only offered, whose verification failed, or whose attempt was refused afterwards.
\<close>

theorem published_key_was_verified:
  assumes "ctx_Value (au_ctx s) ContextKeyPublicKey = Nil_value" "au_keys s = no_keys"
  shows "case ctx_Value (au_ctx (fold key_event evs s)) ContextKeyPublicKey of
     Nil_value \<Rightarrow> True | Ref_value k \<Rightarrow> approved evs k | _ \<Rightarrow> False"
proof -
  have "key_inv evs (fold key_event evs s)"
  proof (induction evs rule: rev_induct)
    case Nil
    show ?case using assms by (simp add: key_inv_def no_keys_def)
  qed (simp add: key_inv_step)
  then show ?thesis by (simp add: key_inv_def)
qed

definition fresh_auth :: auth_state where
  "fresh_auth = \<lparr>au_ctx = newContextWithParent (\<lambda>_. Nil_value) 0 0, au_next = 1, au_failure = None, au_transportClosed = False,
     au_keys = no_keys, au_conflicts = \<lparr>conflict_password = False, conflict_publicKey = False, conflict_keyboardInteractive = False\<rparr>\<rparr>"

lemma fresh_auth_key: "ctx_Value (au_ctx fresh_auth) ContextKeyPublicKey = Nil_value" "au_keys fresh_auth = no_keys"
  by (simp_all add: fresh_auth_def newContextWithParent_def) (simp add: ctx_Value_def)

theorem published_key_was_verified_witness:
  "let evs = [KeyVerified 7 None, AttemptFinished ''publickey'' None]
   in ctx_Value (au_ctx (fold key_event evs fresh_auth)) ContextKeyPublicKey = Ref_value 7 \<and> approved evs 7"
proof -
  let ?evs = "[KeyVerified 7 None, AttemptFinished ''publickey'' None]"
  have "ctx_Value (au_ctx (fold key_event ?evs fresh_auth)) ContextKeyPublicKey = Ref_value 7"
    by (simp add: key_event_def finishAttempt_def recordVerified_def publish_key_def on_ctx_def Let_def)
  with published_key_was_verified [OF fresh_auth_key, of ?evs] show ?thesis by simp
qed

section \<open>Partial success\<close>

text \<open>A partial success in the error of a result names wrapped callbacks.\<close>

definition wrapped_error :: "gerr option \<Rightarrow> bool" where
  "wrapped_error err = (case err of
     None \<Rightarrow> True
   | Some e \<Rightarrow> (case errors_As is_partial_success e of None \<Rightarrow> True | Some n \<Rightarrow> odd n))"


lemma wrapAuthError_wraps [simp]: "wrapped_error (wrapAuthError err)"
  by (auto simp: wrapped_error_def wrapAuthError_def split: option.splits)





section \<open>Witnesses\<close>

text \<open>A server with a password handler, and no configuration of the application.\<close>

definition password_server :: auth_server where
  "password_server = \<lparr>as_ServerConfigCallback = None, as_PasswordHandler = Some (\<lambda>conn pw s. ((pw = [1], None), s)),
     as_PublicKeyHandler = None, as_KeyboardInteractiveHandler = None, as_BannerHandler = None, as_RequireClientAuth = False,
     as_Version = [], as_Ciphers = [], as_KeyExchanges = [], as_MessageAuthentications = [], as_HostSigners = [3], as_generatedHostSigners = []\<rparr>"

definition password_config :: serverConfig where
  "password_config = config_methods password_server (config_identity (#) password_server (config_algorithms password_server (config_logging emptyConfig)))"

lemma password_configured: "configForConnection (#) password_server fresh_auth = (Inr password_config, set_conflicts password_server fresh_auth)"
  by (simp add: configForConnection_def password_config_def password_server_def)


theorem accepted_attempts_publish_permissions_witness:
  "\<exists>cb. sc_PasswordCallback password_config = Some cb \<and> publishes (cb (sample_metadata ''a'') [1] fresh_auth)
     \<and> fst (cb (sample_metadata ''a'') [1] fresh_auth) = (Some 1, None)"
proof -
  have cb: "sc_PasswordCallback password_config = Some (handler_callback (\<lambda>conn pw s. ((pw = [1], None), s)))"
    by (simp add: password_config_def config_methods_def config_identity_def config_algorithms_def config_logging_def
        method_callback_def password_server_def emptyConfig_def)
  have "\<forall>cb \<in> set_option (sc_PasswordCallback password_config). publishes (cb (sample_metadata ''a'') [1] fresh_auth)"
    by (rule conjunct1 [OF accepted_attempts_publish_permissions [OF password_configured]]) (auto simp: password_server_def)
  then show ?thesis unfolding cb
    by (simp add: handler_callback_def beginAuthAttempt_def publishAuthPermissions_def on_ctx_def fresh_auth_def Let_def)
qed

end
