(* ===== verification/Server.thy ===== *)
theory Server
  imports Auth Lifecycle Limits
begin

text \<open>
  The server around its connections (\<open>server.go\<close>, \<open>options.go\<close>, \<open>proxyproto.go\<close>): its host keys and options, the
  accept loop of \<open>Serve\<close>, and \<open>handleConn\<close>, which takes one connection from its acceptance through
  the handshake to its end. The parts it uses, the scope, the limiter, the authentication
  configuration, are those of the theories they are modelled in; the SSH handshake, callbacks and
  the dispatch of errors are inputs.
\<close>

section \<open>Host keys\<close>

text \<open>A signer is its number and the type of its public key.\<close>

type_synonym signer = "nat \<times> string"

fun replace_hostKey :: "signer \<Rightarrow> signer list \<Rightarrow> signer list option" where
  "replace_hostKey key [] = None"
| "replace_hostKey key (k # ks) =
     (if snd k = snd key then Some (key # ks) else map_option ((#) k) (replace_hostKey key ks))"

definition AddHostKey :: "signer \<Rightarrow> signer list \<Rightarrow> signer list" where
  "AddHostKey key keys = (case replace_hostKey key keys of Some keys' \<Rightarrow> keys' | None \<Rightarrow> keys @ [key])"

text \<open>
  \<open>prepare\<close>: the work of its goroutine, which runs once, on the signers, \<open>RequireHostSigners\<close> and what
  \<open>generateSigner\<close> returns: the error and the generated signers; and the wait for it, which the end of the
  context may cut short.
\<close>

definition prepare_once :: "signer list \<Rightarrow> bool \<Rightarrow> gerr + signer \<Rightarrow> gerr option \<times> signer list" where
  "prepare_once HostSigners requireHostSigners generated =
     (if length HostSigners \<noteq> 0 then (None, [])
      else if requireHostSigners then (Some (Var ErrServerHostSignerRequired), [])
      else (case generated of Inl err \<Rightarrow> (Some err, []) | Inr s \<Rightarrow> (None, [s])))"

text \<open>\<open>generateSigner\<close>: the key generator of the standard library, then \<open>gossh\<close>, which makes a signer of the key.\<close>

definition generateSigner :: "gerr + 'key \<Rightarrow> ('key \<Rightarrow> gerr + signer) \<Rightarrow> gerr + signer" where
  "generateSigner generatedKey newSignerFromKey =
     (case generatedKey of Inl err \<Rightarrow> Inl err | Inr key \<Rightarrow> newSignerFromKey key)"

lemma prepared_signers:
  "prepare_once hosts required (generateSigner k mk) = (e, ss) \<Longrightarrow>
   (e = None \<longleftrightarrow> hosts @ ss \<noteq> []) \<and> (ss \<noteq> [] \<longrightarrow> \<not> required \<and> (\<exists>key s. k = Inr key \<and> mk key = Inr s \<and> ss = [s]))"
  by (auto simp: prepare_once_def generateSigner_def split: if_splits sum.splits)

definition prepare :: "gerr option \<Rightarrow> gerr option \<times> signer list \<Rightarrow> gerr option" where
  "prepare cancelled outcome = (case cancelled of Some cause \<Rightarrow> Some cause | None \<Rightarrow> fst outcome)"

lemma replace_hostKey_types:
  "replace_hostKey key ks = Some ks' \<Longrightarrow> map snd ks' = map snd ks"
  "replace_hostKey key ks = None \<longleftrightarrow> snd key \<notin> snd ` set ks"
  by (induction ks arbitrary: ks') (auto split: if_splits)

lemma replace_hostKey_set:
  "replace_hostKey key ks = Some ks' \<Longrightarrow> distinct (map snd ks) \<Longrightarrow> set ks' = insert key {k \<in> set ks. snd k \<noteq> snd key}"
proof (induction ks arbitrary: ks')
  case (Cons k ks)
  show ?case
  proof (cases "snd k = snd key")
    case True
    have "snd j \<noteq> snd key" if "j \<in> set ks" for j
      using Cons.prems(2) that True [symmetric] by (auto simp: image_iff)
    then show ?thesis using Cons.prems True by auto
  next
    case False
    then obtain ks1 where "replace_hostKey key ks = Some ks1" "ks' = k # ks1" using Cons.prems(1) by auto
    with Cons False show ?thesis by auto
  qed
qed simp

lemma AddHostKey_replaces:
  assumes "distinct (map snd ks)"
  shows "distinct (map snd (AddHostKey key ks)) \<and> set (AddHostKey key ks) = insert key {k \<in> set ks. snd k \<noteq> snd key}"
proof (cases "replace_hostKey key ks")
  case None
  then have new: "snd key \<notin> snd ` set ks" using replace_hostKey_types(2) by blast
  then have "snd k \<noteq> snd key" if "k \<in> set ks" for k
    using imageI [OF that, of snd] by metis
  then have "{k \<in> set ks. snd k \<noteq> snd key} = set ks" by blast
  then show ?thesis using assms None new by (simp add: AddHostKey_def)
next
  case (Some ks')
  then show ?thesis using assms replace_hostKey_types(1) [OF Some] replace_hostKey_set [OF Some] by (simp add: AddHostKey_def)
qed

text \<open>\<open>k\<close> is the last of its type in a list.\<close>

definition last_of_type :: "signer list \<Rightarrow> signer \<Rightarrow> bool" where
  "last_of_type keys k \<longleftrightarrow> (\<exists>xs ys. keys = xs @ k # ys \<and> list_all (\<lambda>j. snd j \<noteq> snd k) ys)"

lemma last_of_type_snoc: "last_of_type (keys @ [key]) k \<longleftrightarrow> k = key \<or> snd k \<noteq> snd key \<and> last_of_type keys k"
proof
  assume "last_of_type (keys @ [key]) k"
  then obtain xs ys where split: "keys @ [key] = xs @ k # ys" "list_all (\<lambda>j. snd j \<noteq> snd k) ys" by (auto simp: last_of_type_def)
  show "k = key \<or> snd k \<noteq> snd key \<and> last_of_type keys k"
  proof (cases ys rule: rev_cases)
    case (snoc zs z)
    with split have "keys = xs @ k # zs" "z = key" "snd key \<noteq> snd k" "list_all (\<lambda>j. snd j \<noteq> snd k) zs" by auto
    then show ?thesis unfolding last_of_type_def by metis
  qed (use split in simp)
next
  assume "k = key \<or> snd k \<noteq> snd key \<and> last_of_type keys k"
  then show "last_of_type (keys @ [key]) k"
  proof
    assume "k = key"
    then have "keys @ [key] = keys @ k # [] \<and> list_all (\<lambda>j. snd j \<noteq> snd k) []" by simp
    then show ?thesis unfolding last_of_type_def by metis
  next
    assume other: "snd k \<noteq> snd key \<and> last_of_type keys k"
    then obtain xs ys where "keys = xs @ k # ys" "list_all (\<lambda>j. snd j \<noteq> snd k) ys" by (auto simp: last_of_type_def)
    then have "keys @ [key] = xs @ k # (ys @ [key]) \<and> list_all (\<lambda>j. snd j \<noteq> snd k) (ys @ [key])" using other by auto
    then show ?thesis unfolding last_of_type_def by metis
  qed
qed

text \<open>
  However often host keys are added, the server has one for each type of key, the one that was added last.
\<close>

theorem host_keys_one_per_type:
  "distinct (map snd (fold AddHostKey keys [])) \<and> set (fold AddHostKey keys []) = Collect (last_of_type keys)"
proof (induction keys rule: rev_induct)
  case Nil
  show ?case by (simp add: last_of_type_def)
next
  case (snoc key keys)
  then show ?case using AddHostKey_replaces [of "fold AddHostKey keys []" key] by (auto simp: last_of_type_snoc)
qed

section \<open>One connection\<close>

text \<open>
  What happens to a connection besides the changes of the scope, in order; transports are numbers.
\<close>

datatype conn_action =
    ConnClose nat | FailureReported gerr | SetConnDeadline | Handshaken | Serving | CtxCancel | SSHClose
  | ResourcesClosed | WorkersWaited | Disconnected

record conn_run =
  cn_scope :: serveContext
  cn_counters :: counters
  cn_actions :: "conn_action list"
  cn_tracked :: bool

text \<open>
  \<open>hi_env i\<close> is what other goroutines do to the scope before its \<open>i\<close>-th use here. \<open>hi_dispatch\<close> is the error that the
  dispatch of an error returns, \<open>hi_failed\<close> and \<open>hi_disconnect\<close> the callbacks for failures and at the end,
  \<open>hi_proxy\<close> the wrapping for the PROXY protocol when it is enabled, \<open>hi_callback\<close> what \<open>ConnCallback\<close> returns,
  \<open>hi_config\<close> the configuration and \<open>hi_handshake\<close> the result of the handshake.
\<close>

record handle_input =
  hi_env :: "nat \<Rightarrow> serveContext \<Rightarrow> serveContext"
  hi_report :: bool
  hi_dispatch :: "gerr \<Rightarrow> gerr option"
  hi_failed :: "(gerr \<Rightarrow> gerr option) option"
  hi_disconnect :: "gerr option option"
  hi_proxy :: "(gerr + nat) option"
  hi_callback :: "(nat option \<times> gerr option) option"
  hi_config :: "gerr + serverConfig"
  hi_gssServer :: bool
  hi_requireAuth :: bool
  hi_handshake :: "gerr option"
  hi_callbackFailure :: "gerr option"
  hi_maxConnections :: "int option"

definition act :: "conn_action list \<Rightarrow> conn_run \<Rightarrow> conn_run" where
  "act xs s = s\<lparr>cn_actions := cn_actions s @ xs\<rparr>"

text \<open>A method of the scope at its \<open>i\<close>-th use.\<close>

definition scope_use :: "handle_input \<Rightarrow> nat \<Rightarrow> (serveContext \<Rightarrow> serveContext) \<Rightarrow> conn_run \<Rightarrow> conn_run" where
  "scope_use inp i f s = s\<lparr>cn_scope := f (hi_env inp i (cn_scope s))\<rparr>"

definition conn_untrack :: "handle_input \<Rightarrow> nat \<Rightarrow> nat \<Rightarrow> conn_run \<Rightarrow> conn_run" where
  "conn_untrack inp i a s = (if cn_tracked s then (scope_use inp i (untrackConnection a) s)\<lparr>cn_tracked := False\<rparr> else s)"

definition serverConfigHasClientAuth :: "bool \<Rightarrow> serverConfig \<Rightarrow> bool" where
  "serverConfigHasClientAuth gssServer config \<longleftrightarrow> \<not> sc_NoClientAuth config \<and>
     (sc_PasswordCallback config \<noteq> None \<or> sc_PublicKeyCallback config \<noteq> None \<or> sc_KeyboardInteractiveCallback config \<noteq> None
      \<or> (case sc_GSSAPIWithMICConfig config of Some (Some allowLogin) \<Rightarrow> gssServer | _ \<Rightarrow> False))"

definition conn_fail :: "handle_input \<Rightarrow> gerr \<Rightarrow> conn_run \<Rightarrow> gerr option \<times> conn_run" where
  "conn_fail inp err s =
     (let (err', s') = (if hi_report inp
            then (case hi_failed inp of
                    Some v \<Rightarrow> (case errors_Join [Some err, v err] of Some e \<Rightarrow> (e, act [FailureReported err] s) | None \<Rightarrow> (err, s))
                  | None \<Rightarrow> (err, s))
            else (err, s))
      in (hi_dispatch inp err', s'))"

text \<open>
  Up to the wrapping in a \<open>serverConn\<close>: a result, or the transport to go on with.
\<close>

definition conn_proxy :: "handle_input \<Rightarrow> nat \<Rightarrow> nat \<Rightarrow> conn_run \<Rightarrow> (gerr option + nat) \<times> conn_run" where
  "conn_proxy inp a conn s = (case hi_proxy inp of
     None \<Rightarrow> (Inr conn, s)
   | Some (Inl err) \<Rightarrow> (case conn_fail inp err (act [ConnClose conn] s) of (r, s1) \<Rightarrow> (Inl r, s1))
   | Some (Inr proxyConn) \<Rightarrow>
       (if fst (updateConnection a proxyConn (hi_env inp 1 (cn_scope s)))
        then (Inr proxyConn, scope_use inp 1 (snd \<circ> updateConnection a proxyConn) s)
        else (let s1 = scope_use inp 1 id (act [ConnClose proxyConn] s)
              in (Inl (connectionCause a (cn_scope s1)), s1))))"

definition conn_callback :: "handle_input \<Rightarrow> nat \<Rightarrow> nat \<Rightarrow> conn_run \<Rightarrow> (gerr option + nat) \<times> conn_run" where
  "conn_callback inp a conn s = (case hi_callback inp of
     None \<Rightarrow> (Inr conn, s)
   | Some (cbConn, Some err) \<Rightarrow>
       (case conn_fail inp err (act [ConnClose (case cbConn of Some c \<Rightarrow> c | None \<Rightarrow> conn)] s) of (r, s1) \<Rightarrow> (Inl r, s1))
   | Some (None, None) \<Rightarrow> (Inl None, act [ConnClose conn] s)
   | Some (Some cbConn, None) \<Rightarrow>
       (if fst (updateConnection a cbConn (hi_env inp 2 (cn_scope s)))
        then (Inr cbConn, scope_use inp 2 (snd \<circ> updateConnection a cbConn) s)
        else (let s1 = scope_use inp 2 id (act [ConnClose cbConn] s)
              in (Inl (connectionCause a (cn_scope s1)), s1))))"

definition conn_setup :: "handle_input \<Rightarrow> nat \<Rightarrow> nat \<Rightarrow> conn_run \<Rightarrow> (gerr option + nat) \<times> conn_run" where
  "conn_setup inp a conn s =
     (if \<not> fst (updateCancel a (hi_env inp 0 (cn_scope s)))
      then (let s1 = scope_use inp 0 id (act [ConnClose conn] s) in (Inl (connectionCause a (cn_scope s1)), s1))
      else (case conn_proxy inp a conn (scope_use inp 0 (snd \<circ> updateCancel a) s) of
              (Inl r, s1) \<Rightarrow> (Inl r, s1)
            | (Inr conn1, s1) \<Rightarrow> conn_callback inp a conn1 (act [SetConnDeadline] s1)))"

definition conn_handshake :: "handle_input \<Rightarrow> nat \<Rightarrow> conn_run \<Rightarrow> (gerr option + unit) \<times> conn_run" where
  "conn_handshake inp conn s =
     (let failed = (\<lambda>err. case conn_fail inp err (act [ConnClose conn] s) of (r, s1) \<Rightarrow> (Inl r, s1))
      in case hi_config inp of
           Inl err \<Rightarrow> failed err
         | Inr config \<Rightarrow>
             if hi_requireAuth inp \<and> \<not> serverConfigHasClientAuth (hi_gssServer inp) config
             then failed (Var ErrServerClientAuthRequired)
             else (case hi_handshake inp of
                     Some err \<Rightarrow> failed (case hi_callbackFailure inp of Some e \<Rightarrow> e | None \<Rightarrow> err)
                   | None \<Rightarrow> (Inr (), act [Handshaken] s)))"

text \<open>
  After the handshake: the reservation of an authenticated connection, the channel loop and the end of
  the connection; then the deferred calls, first for the disconnect callback, then the release.
\<close>

definition conn_limiter :: "handle_input \<Rightarrow> limiter" where
  "conn_limiter inp = [\<lparr>rl_limit = configuredLimit (hi_maxConnections inp) DefaultMaxConnections, rl_active = Some 0\<rparr>]"

definition conn_teardown :: "handle_input \<Rightarrow> nat \<Rightarrow> conn_run \<Rightarrow> conn_run" where
  "conn_teardown inp a s =
     act [WorkersWaited] (conn_untrack inp 4 a (act [ResourcesClosed] (act [SSHClose] (act [CtxCancel] s))))"

definition conn_serve :: "handle_input \<Rightarrow> nat \<Rightarrow> conn_run \<Rightarrow> conn_run" where
  "conn_serve inp a s = conn_teardown inp a (act [Serving] (scope_use inp 3 (releaseStartup a) s))"

definition conn_disconnect :: "handle_input \<Rightarrow> nat \<Rightarrow> gerr option \<Rightarrow> conn_run \<Rightarrow> gerr option \<times> conn_run" where
  "conn_disconnect inp a result s = (case hi_disconnect inp of
     None \<Rightarrow> (result, s)
   | Some callbackErr \<Rightarrow>
       (let result' = (case callbackErr of None \<Rightarrow> result | Some e \<Rightarrow> errors_Join [result, hi_dispatch inp e])
        in (result', conn_untrack inp 5 a (act [CtxCancel, SSHClose, Disconnected] s))))"

definition conn_established :: "handle_input \<Rightarrow> nat \<Rightarrow> conn_run \<Rightarrow> gerr option \<times> conn_run" where
  "conn_established inp a s = (case resourceLimiter_reserve (conn_limiter inp) (cn_counters s) of
     (False, k) \<Rightarrow> conn_disconnect inp a None (s\<lparr>cn_counters := k\<rparr>)
   | (True, k) \<Rightarrow>
       (case conn_disconnect inp a None (conn_serve inp a (s\<lparr>cn_counters := k\<rparr>)) of
          (r, s1) \<Rightarrow> (r, s1\<lparr>cn_counters := resourceLimiter_release (conn_limiter inp) (cn_counters s1)\<rparr>)))"

text \<open>The deferred calls of the whole function.\<close>

definition conn_finish :: "handle_input \<Rightarrow> nat \<Rightarrow> conn_run \<Rightarrow> conn_run" where
  "conn_finish inp a s = conn_untrack inp 6 a (act [CtxCancel] s)"

definition handleConn :: "handle_input \<Rightarrow> nat \<Rightarrow> nat \<Rightarrow> conn_run \<Rightarrow> gerr option \<times> conn_run" where
  "handleConn inp a conn s = (case conn_setup inp a conn s of
     (Inl r, s1) \<Rightarrow> (r, conn_finish inp a s1)
   | (Inr conn1, s1) \<Rightarrow>
       (case (case conn_handshake inp conn1 s1 of
                (Inl r, s2) \<Rightarrow> (r, s2)
              | (Inr _, s2) \<Rightarrow> conn_established inp a s2) of
          (r, s3) \<Rightarrow> (r, conn_finish inp a (act [ConnClose conn1] s3))))"

subsection \<open>How it ends\<close>

text \<open>Other goroutines change the scope by its own steps only.\<close>

definition scope_env :: "handle_input \<Rightarrow> bool" where
  "scope_env inp \<longleftrightarrow> (\<forall>i s. scope_step\<^sup>*\<^sup>* s (hi_env inp i s))"

text \<open>A part of the function adds actions and moves the scope on.\<close>

definition moves :: "conn_run \<Rightarrow> conn_action list \<Rightarrow> conn_run \<Rightarrow> bool" where
  "moves s xs t \<longleftrightarrow> cn_actions t = cn_actions s @ xs \<and> cn_counters t = cn_counters s \<and> cn_tracked t = cn_tracked s
     \<and> scope_step\<^sup>*\<^sup>* (cn_scope s) (cn_scope t)"

lemma moves_refl [simp]: "moves s [] s"
  by (simp add: moves_def)

lemma moves_trans: "moves s xs t \<Longrightarrow> moves t ys u \<Longrightarrow> moves s (xs @ ys) u"
  by (auto simp: moves_def intro: rtranclp_trans)

lemma moves_act: "moves s xs (act xs s)"
  by (simp add: moves_def act_def)

lemma moves_use: "scope_env inp \<Longrightarrow> (\<And>x. scope_step x (f x) \<or> f x = x) \<Longrightarrow> moves s [] (scope_use inp i f s)"
  by (auto simp: moves_def scope_use_def scope_env_def) (metis rtranclp.simps)

lemma scope_use_steps:
  "scope_env inp \<Longrightarrow> moves s [] (scope_use inp i id s)"
  "scope_env inp \<Longrightarrow> moves s [] (scope_use inp i (snd \<circ> updateConnection a c) s)"
  "scope_env inp \<Longrightarrow> moves s [] (scope_use inp i (snd \<circ> updateCancel a) s)"
  "scope_env inp \<Longrightarrow> moves s [] (scope_use inp i (releaseStartup a) s)"
  by (auto intro!: moves_use step_updateConnection step_updateCancel step_releaseStartup)

text \<open>What may happen before the handshake: at most one report, and only with an error; a result only after a close.\<close>

fun is_report :: "conn_action \<Rightarrow> bool" where
  "is_report (FailureReported e) = True"
| "is_report _ = False"

fun is_close :: "conn_action \<Rightarrow> bool" where
  "is_close (ConnClose c) = True"
| "is_close _ = False"

definition early :: "conn_action list \<Rightarrow> bool" where
  "early xs \<longleftrightarrow> list_all (\<lambda>x. is_report x \<or> is_close x \<or> x = SetConnDeadline) xs \<and> length (filter is_report xs) \<le> 1"

definition ended :: "conn_run \<Rightarrow> conn_run \<Rightarrow> bool" where
  "ended s t \<longleftrightarrow> (\<exists>xs. moves s xs t \<and> early xs \<and> list_ex is_close xs)"

lemma conn_fail_moves: "conn_fail inp err s = (r, t) \<Longrightarrow> \<exists>xs. moves s xs t \<and> list_all is_report xs \<and> length xs \<le> 1"
  by (auto simp: conn_fail_def Let_def moves_act split: if_splits option.splits intro: exI [of _ "[]"] exI [of _ "[FailureReported err]"])

lemma failed_ended:
  assumes "conn_fail inp err (act [ConnClose c] s) = (r, t)"
  shows "ended s t"
proof -
  obtain xs where xs: "moves (act [ConnClose c] s) xs t" "list_all is_report xs" "length xs \<le> 1" using conn_fail_moves [OF assms] by blast
  have "moves s ([ConnClose c] @ xs) t" using moves_trans [OF moves_act xs(1)] .
  moreover have "early ([ConnClose c] @ xs)" using xs(2,3) by (cases xs) (auto simp: early_def)
  ultimately show ?thesis unfolding ended_def by (intro exI [of _ "[ConnClose c] @ xs"]) simp
qed

lemma ended_trans:
  assumes "moves s xs t" "list_all (\<lambda>x. x = SetConnDeadline) xs" "ended t u"
  shows "ended s u"
proof -
  obtain ys where "moves t ys u" "early ys" "list_ex is_close ys" using assms(3) by (auto simp: ended_def)
  moreover have "filter is_report xs = []" using assms(2) by (auto simp: filter_empty_conv list_all_iff)
  ultimately have "moves s (xs @ ys) u" "early (xs @ ys)" "list_ex is_close (xs @ ys)"
    using moves_trans [OF assms(1)] assms(2) by (auto simp: early_def list_all_iff)
  then show ?thesis unfolding ended_def by blast
qed

lemma closed_ended:
  assumes "scope_env inp"
  shows "ended s (act [ConnClose c] s)" "ended s (scope_use inp i id (act [ConnClose c] s))"
proof -
  have "moves s [ConnClose c] (act [ConnClose c] s)" by (rule moves_act)
  moreover from this have "moves s [ConnClose c] (scope_use inp i id (act [ConnClose c] s))"
    using moves_trans [OF _ scope_use_steps(1) [OF assms]] by fastforce
  ultimately show "ended s (act [ConnClose c] s)" "ended s (scope_use inp i id (act [ConnClose c] s))"
    unfolding ended_def by (auto simp: early_def intro!: exI [of _ "[ConnClose c]"])
qed

text \<open>The outcome of a part before the handshake: it has ended, or goes on quietly.\<close>

definition part_ok :: "conn_run \<Rightarrow> ('r + 'b) \<times> conn_run \<Rightarrow> bool" where
  "part_ok s out = (case out of
     (Inl r, t) \<Rightarrow> ended s t
   | (Inr c, t) \<Rightarrow> \<exists>xs. moves s xs t \<and> list_all (\<lambda>x. x = SetConnDeadline) xs)"

lemma conn_proxy_ok: "scope_env inp \<Longrightarrow> part_ok s (conn_proxy inp a conn s)"
  using scope_use_steps(2)
  by (auto simp: part_ok_def conn_proxy_def Let_def closed_ended failed_ended split: option.splits sum.splits prod.splits
      intro!: exI [of _ "[]"])

lemma conn_callback_ok: "scope_env inp \<Longrightarrow> part_ok s (conn_callback inp a conn s)"
  using scope_use_steps(2)
  by (auto simp: part_ok_def conn_callback_def Let_def closed_ended failed_ended split: option.splits prod.splits
      intro!: exI [of _ "[]"])

lemma part_ok_after:
  assumes "moves s xs t" "list_all (\<lambda>x. x = SetConnDeadline) xs" "part_ok t out"
  shows "part_ok s out"
proof (cases out)
  case (Pair x u)
  show ?thesis
  proof (cases x)
    case (Inl r)
    with assms ended_trans Pair show ?thesis by (auto simp: part_ok_def)
  next
    case (Inr c)
    then obtain ys where "moves t ys u" "list_all (\<lambda>x. x = SetConnDeadline) ys" using assms(3) Pair by (auto simp: part_ok_def)
    with moves_trans [OF assms(1)] assms(2) Inr Pair show ?thesis by (auto simp: part_ok_def intro!: exI [of _ "xs @ ys"])
  qed
qed

lemma conn_setup_ok:
  assumes "scope_env inp"
  shows "part_ok s (conn_setup inp a conn s)"
proof (cases "fst (updateCancel a (hi_env inp 0 (cn_scope s)))")
  case True
  let ?s0 = "scope_use inp 0 (snd \<circ> updateCancel a) s"
  have s0: "moves s [] ?s0" using scope_use_steps(3) [OF assms] .
  obtain x s1 where proxy: "conn_proxy inp a conn ?s0 = (x, s1)" by (metis surj_pair)
  have ok: "part_ok s (x, s1)" using part_ok_after [OF s0 _ conn_proxy_ok [OF assms, of ?s0 a conn]] proxy by simp
  show ?thesis
  proof (cases x)
    case (Inl r)
    with ok proxy True show ?thesis by (simp add: conn_setup_def)
  next
    case (Inr c)
    then obtain xs where xs: "moves s xs s1" "list_all (\<lambda>x. x = SetConnDeadline) xs" using ok by (auto simp: part_ok_def)
    from part_ok_after [OF moves_trans [OF xs(1) moves_act [of s1 "[SetConnDeadline]"]] _ conn_callback_ok [OF assms]] xs(2) Inr proxy True
    show ?thesis by (simp add: conn_setup_def)
  qed
next
  case False
  then show ?thesis by (simp add: conn_setup_def part_ok_def Let_def closed_ended [OF assms])
qed

lemma conn_handshake_ok:
  assumes "conn_handshake inp conn s = (x, t)"
  shows "case x of
      Inl r \<Rightarrow> ended s t
    | Inr _ \<Rightarrow> t = act [Handshaken] s \<and>
        (\<exists>config. hi_config inp = Inr config \<and> (hi_requireAuth inp \<longrightarrow> serverConfigHasClientAuth (hi_gssServer inp) config))"
  using assms
  by (auto simp: conn_handshake_def Let_def intro: failed_ended split: sum.splits prod.splits if_splits option.splits)

text \<open>The connection is gone from the scope.\<close>

definition untracked :: "nat \<Rightarrow> conn_run \<Rightarrow> conn_action list \<Rightarrow> conn_run \<Rightarrow> bool" where
  "untracked a s xs t \<longleftrightarrow> cn_actions t = cn_actions s @ xs \<and> cn_counters t = cn_counters s \<and> \<not> cn_tracked t
     \<and> scope_step\<^sup>*\<^sup>* (cn_scope s) (cn_scope t) \<and> a \<notin> set (scope_connections (cn_scope t))"

lemma untrackConnection_steps: "scope_step\<^sup>*\<^sup>* x (untrackConnection a x)"
proof -
  have "scope_step x (releaseStartup a x)" by (rule step_releaseStartup)
  moreover have "scope_step (releaseStartup a x) (untrackDelete a (releaseStartup a x))"
    by (rule step_untrackDelete) (simp add: releaseStartup_def Let_def)
  ultimately show ?thesis by (simp add: untrackConnection_def)
qed

lemma untrackConnection_gone: "a \<notin> set (scope_connections (untrackConnection a x))"
  by (simp add: untrackConnection_def untrackDelete_def maybeCloseDrainedLocked_def)

text \<open>Untracking where it is due; what has been untracked stays so.\<close>

lemma conn_untrack_ok:
  assumes "scope_env inp" "if cn_tracked s then moves s0 xs s \<and> cn_tracked s0 else untracked a s0 xs s"
  shows "untracked a s0 xs (conn_untrack inp i a s)"
proof (cases "cn_tracked s")
  case True
  have "scope_step\<^sup>*\<^sup>* (cn_scope s) (untrackConnection a (hi_env inp i (cn_scope s)))"
    using assms(1) untrackConnection_steps unfolding scope_env_def by (meson rtranclp_trans)
  with True assms(2) show ?thesis
    by (auto simp: untracked_def moves_def conn_untrack_def scope_use_def untrackConnection_gone intro: rtranclp_trans)
qed (use assms(2) in \<open>simp add: conn_untrack_def\<close>)

lemma untracked_act: "untracked a s xs t \<Longrightarrow> untracked a s (xs @ ys) (act ys t)"
  by (simp add: untracked_def act_def)

lemma moves_untracked: "moves s xs t \<Longrightarrow> untracked a t ys u \<Longrightarrow> untracked a s (xs @ ys) u"
  by (auto simp: untracked_def moves_def intro: rtranclp_trans)

lemma conn_serve_ok:
  assumes "scope_env inp" "cn_tracked s"
  shows "untracked a s [Serving, CtxCancel, SSHClose, ResourcesClosed, WorkersWaited] (conn_serve inp a s)"
proof -
  let ?t = "act [Serving, CtxCancel, SSHClose, ResourcesClosed] (scope_use inp 3 (releaseStartup a) s)"
  have "moves s ([] @ [Serving, CtxCancel, SSHClose, ResourcesClosed]) ?t"
    by (rule moves_trans [OF scope_use_steps(4) [OF assms(1)] moves_act])
  then have "untracked a s [Serving, CtxCancel, SSHClose, ResourcesClosed] (conn_untrack inp 4 a ?t)"
    using assms by (intro conn_untrack_ok) (auto simp: moves_def)
  from untracked_act [OF this, of "[WorkersWaited]"] show ?thesis by (simp add: conn_serve_def conn_teardown_def act_def)
qed

definition disconnect_actions :: "handle_input \<Rightarrow> conn_action list" where
  "disconnect_actions inp = (if hi_disconnect inp = None then [] else [CtxCancel, SSHClose, Disconnected])"

lemma conn_disconnect_ok:
  assumes "scope_env inp" "conn_disconnect inp a r0 s = (r, t)"
    "if cn_tracked s then moves s0 xs s \<and> cn_tracked s0 else untracked a s0 xs s"
  shows "if cn_tracked t then moves s0 (xs @ disconnect_actions inp) t \<and> cn_tracked s0 else untracked a s0 (xs @ disconnect_actions inp) t"
proof (cases "hi_disconnect inp")
  case None
  then have "t = s" "disconnect_actions inp = []" using assms(2) by (simp_all add: conn_disconnect_def disconnect_actions_def)
  then show ?thesis using assms(3) by (simp split: if_splits)
next
  case (Some e)
  let ?s1 = "act [CtxCancel, SSHClose, Disconnected] s"
  have "if cn_tracked ?s1 then moves s0 (xs @ [CtxCancel, SSHClose, Disconnected]) ?s1 \<and> cn_tracked s0
      else untracked a s0 (xs @ [CtxCancel, SSHClose, Disconnected]) ?s1"
    using assms(3) untracked_act moves_trans [OF _ moves_act] by (auto simp: act_def)
  from conn_untrack_ok [OF assms(1) this, of 5]
  have "untracked a s0 (xs @ [CtxCancel, SSHClose, Disconnected]) t"
    using assms(2) Some by (auto simp: conn_disconnect_def Let_def split: option.splits)
  then show ?thesis using Some by (simp add: disconnect_actions_def untracked_def)
qed

lemma untracked_disconnect: "conn_disconnect inp a r0 s = (r, t) \<Longrightarrow> \<not> cn_tracked s \<Longrightarrow> \<not> cn_tracked t"
  by (auto simp: conn_disconnect_def conn_untrack_def act_def Let_def split: option.splits)

definition established_actions :: "handle_input \<Rightarrow> conn_run \<Rightarrow> conn_action list" where
  "established_actions inp s = (if fst (resourceLimiter_reserve (conn_limiter inp) (cn_counters s))
     then [Serving, CtxCancel, SSHClose, ResourcesClosed, WorkersWaited] else []) @ disconnect_actions inp"

text \<open>A run that is to be finished: tracked still, or not any more.\<close>

definition to_finish :: "nat \<Rightarrow> conn_run \<Rightarrow> conn_action list \<Rightarrow> conn_run \<Rightarrow> bool" where
  "to_finish a s xs t \<longleftrightarrow> (if cn_tracked t then moves s xs t \<and> cn_tracked s else untracked a s xs t)"

lemma to_finish_act: "to_finish a s xs t \<Longrightarrow> to_finish a s (xs @ ys) (act ys t)"
  using moves_trans [OF _ moves_act] untracked_act by (auto simp: to_finish_def act_def)

lemma to_finish_after: "moves s xs t \<Longrightarrow> to_finish a t ys u \<Longrightarrow> to_finish a s (xs @ ys) u"
  using moves_trans moves_untracked by (auto simp: to_finish_def moves_def split: if_splits)

lemma conn_finish_ok:
  assumes "scope_env inp" "to_finish a s xs t"
  shows "untracked a s (xs @ [CtxCancel]) (conn_finish inp a t)"
  using conn_untrack_ok [OF assms(1) to_finish_act [OF assms(2), unfolded to_finish_def]] by (simp add: conn_finish_def)

lemma conn_established_ok:
  assumes "scope_env inp" "cn_tracked s" "conn_established inp a s = (r, t)"
  shows "to_finish a s (established_actions inp s) t"
proof (cases "resourceLimiter_reserve (conn_limiter inp) (cn_counters s)")
  case (Pair ok k)
  show ?thesis
  proof (cases ok)
    case True
    let ?s1 = "s\<lparr>cn_counters := k\<rparr>"
    obtain t1 where t1: "conn_disconnect inp a None (conn_serve inp a ?s1) = (r, t1)"
      "t = t1\<lparr>cn_counters := resourceLimiter_release (conn_limiter inp) (cn_counters t1)\<rparr>"
      using assms(3) Pair True by (auto simp: conn_established_def split: prod.splits)
    have served: "untracked a ?s1 [Serving, CtxCancel, SSHClose, ResourcesClosed, WorkersWaited] (conn_serve inp a ?s1)"
      using conn_serve_ok [OF assms(1), of ?s1] assms(2) by simp
    then have "untracked a ?s1 ([Serving, CtxCancel, SSHClose, ResourcesClosed, WorkersWaited] @ disconnect_actions inp) t1"
      using conn_disconnect_ok [OF assms(1) t1(1), of ?s1 "[Serving, CtxCancel, SSHClose, ResourcesClosed, WorkersWaited]"]
        untracked_disconnect [OF t1(1)] served by (simp add: untracked_def)
    moreover have "resourceLimiter_release (conn_limiter inp) k = cn_counters s"
      using Pair True by (auto intro: res_slots.release_undoes_reserve)
    ultimately show ?thesis using Pair True by (simp add: to_finish_def untracked_def established_actions_def t1(2))
  next
    case False
    then have "k = cn_counters s" using Pair by (auto dest: res_slots.refused)
    then have "conn_disconnect inp a None s = (r, t)" using assms(3) Pair False by (simp add: conn_established_def)
    from conn_disconnect_ok [OF assms(1) this, of s "[]"] assms(2) Pair False show ?thesis
      by (cases "cn_tracked t") (simp_all add: to_finish_def established_actions_def)
  qed
qed

text \<open>The parts put together.\<close>

lemma handleConn_ends:
  assumes "scope_env inp" "cn_tracked s" "cn_actions s = []"
  shows "case handleConn inp a conn s of (r, t) \<Rightarrow>
     scope_step\<^sup>*\<^sup>* (cn_scope s) (cn_scope t) \<and> a \<notin> set (scope_connections (cn_scope t)) \<and> cn_counters t = cn_counters s
     \<and> list_ex is_close (cn_actions t) \<and> length (filter is_report (cn_actions t)) \<le> 1
     \<and> (if Handshaken \<in> set (cn_actions t)
        then filter is_report (cn_actions t) = []
          \<and> (\<exists>config. hi_config inp = Inr config \<and> (hi_requireAuth inp \<longrightarrow> serverConfigHasClientAuth (hi_gssServer inp) config))
          \<and> (\<exists>c. dropWhile (\<lambda>x. x \<noteq> Handshaken) (cn_actions t) = Handshaken # established_actions inp s @ [ConnClose c, CtxCancel])
        else Serving \<notin> set (cn_actions t) \<and> Disconnected \<notin> set (cn_actions t))"
proof -
  obtain x s1 where su: "conn_setup inp a conn s = (x, s1)" by (metis surj_pair)
  have ok: "part_ok s (x, s1)" using conn_setup_ok [OF assms(1), of s a conn] su by simp
  have early_end: ?thesis if run: "handleConn inp a conn s = (r, conn_finish inp a u)" and early: "ended s u0" and u: "u = u0 \<or> u = act [ConnClose c] u0" for r u u0 c
  proof -
    obtain xs where xs: "moves s xs u0" "early xs" "list_ex is_close xs" using early by (auto simp: ended_def)
    then have fin: "to_finish a s xs u0" using assms(2) by (simp add: to_finish_def moves_def)
    have "to_finish a s (xs @ []) u0" using fin by simp
    moreover have "to_finish a s (xs @ [ConnClose c]) (act [ConnClose c] u0)" using to_finish_act [OF fin] .
    ultimately obtain ys where ys: "ys = [] \<or> ys = [ConnClose c]" "to_finish a s (xs @ ys) u" using u by metis
    let ?t = "conn_finish inp a u"
    have fin: "untracked a s ((xs @ ys) @ [CtxCancel]) ?t" using conn_finish_ok [OF assms(1) ys(2)] .
    then have acts: "cn_actions ?t = (xs @ ys) @ [CtxCancel]" using assms(3) by (simp add: untracked_def)
    have none: "Handshaken \<notin> set (cn_actions ?t)" "Serving \<notin> set (cn_actions ?t)" "Disconnected \<notin> set (cn_actions ?t)"
      unfolding acts using xs(2) ys(1) by (auto simp: early_def list_all_iff)
    have "list_ex is_close (cn_actions ?t)" "length (filter is_report (cn_actions ?t)) \<le> 1"
      unfolding acts using xs(2,3) ys(1) by (auto simp: early_def)
    with none fin run show ?thesis by (simp add: untracked_def)
  qed
  show ?thesis
  proof (cases x)
    case (Inl r)
    then have "handleConn inp a conn s = (r, conn_finish inp a s1)" "ended s s1" using su ok by (simp_all add: handleConn_def part_ok_def)
    then show ?thesis by (intro early_end) auto
  next
    case (Inr c)
    obtain xs where xs: "moves s xs s1" "list_all (\<lambda>x. x = SetConnDeadline) xs" using ok Inr by (auto simp: part_ok_def)
    obtain y s2 where hs: "conn_handshake inp c s1 = (y, s2)" by (metis surj_pair)
    show ?thesis
    proof (cases y)
      case (Inl r)
      then have "handleConn inp a conn s = (r, conn_finish inp a (act [ConnClose c] s2))" "ended s s2"
        using su hs \<open>x = Inr c\<close> conn_handshake_ok [OF hs] ended_trans [OF xs] by (simp_all add: handleConn_def)
      then show ?thesis by (intro early_end) auto
    next
      case (Inr u)
      obtain r t where est: "conn_established inp a s2 = (r, t)" by (metis surj_pair)
      have s2: "s2 = act [Handshaken] s1" and config: "\<exists>config. hi_config inp = Inr config \<and> (hi_requireAuth inp \<longrightarrow> serverConfigHasClientAuth (hi_gssServer inp) config)"
        using conn_handshake_ok [OF hs] Inr by simp_all
      have moved: "moves s (xs @ [Handshaken]) s2" unfolding s2 by (rule moves_trans [OF xs(1) moves_act])
      then have "cn_tracked s2" "cn_counters s2 = cn_counters s" using assms(2) by (simp_all add: moves_def)
      then have "to_finish a s2 (established_actions inp s) t"
        using conn_established_ok [OF assms(1) _ est] by (simp add: established_actions_def)
      from conn_finish_ok [OF assms(1) to_finish_act [OF to_finish_after [OF moved this], of "[ConnClose c]"]]
      have fin: "untracked a s (xs @ Handshaken # established_actions inp s @ [ConnClose c, CtxCancel]) (conn_finish inp a (act [ConnClose c] t))"
        by simp
      have run: "handleConn inp a conn s = (r, conn_finish inp a (act [ConnClose c] t))"
        using su hs est \<open>x = Inr c\<close> Inr by (simp add: handleConn_def)
      have quiet: "filter is_report xs = []" "Handshaken \<notin> set xs" using xs(2) by (auto simp: filter_empty_conv list_all_iff)
      then have "dropWhile (\<lambda>x. x \<noteq> Handshaken) (xs @ Handshaken # zs) = Handshaken # zs" for zs
        by (subst dropWhile_append2) auto
      moreover have "filter is_report (established_actions inp s) = []" by (simp add: established_actions_def disconnect_actions_def)
      ultimately show ?thesis using fin run config quiet assms(3) by (simp add: untracked_def)
    qed
  qed
qed

text \<open>
  C1. Whatever callbacks, the handshake and other goroutines do, the end of \<open>handleConn\<close> is the same: the scope no
  longer tracks the connection, the slot of an authenticated connection has been given back, a
  transport has been closed, and at most one failure has been reported, none after a handshake. A
  connection is served only after its handshake, with a free slot, and with an authentication
  method if the server requires one; then its end comes in this order: context, SSH connection, resources,
  workers, the disconnect callback, transport.
\<close>

theorem connections_end_cleanly:
  assumes "scope_env inp" "cn_tracked s" "cn_actions s = []"
  shows "case handleConn inp a conn s of (r, t) \<Rightarrow>
     scope_step\<^sup>*\<^sup>* (cn_scope s) (cn_scope t) \<and> a \<notin> set (scope_connections (cn_scope t)) \<and> cn_counters t = cn_counters s
     \<and> list_ex is_close (cn_actions t) \<and> length (filter is_report (cn_actions t)) \<le> 1
     \<and> (if Handshaken \<in> set (cn_actions t)
        then filter is_report (cn_actions t) = []
          \<and> (\<exists>config. hi_config inp = Inr config \<and> (hi_requireAuth inp \<longrightarrow> serverConfigHasClientAuth (hi_gssServer inp) config))
          \<and> (\<exists>c. dropWhile (\<lambda>x. x \<noteq> Handshaken) (cn_actions t) = Handshaken # established_actions inp s @ [ConnClose c, CtxCancel])
        else Serving \<notin> set (cn_actions t) \<and> Disconnected \<notin> set (cn_actions t))"
  using assms by (rule handleConn_ends)

text \<open>A connection without callbacks, whose handshake succeeds, in a scope that nobody else changes.\<close>

definition plain_input :: handle_input where
  "plain_input = \<lparr>hi_env = (\<lambda>_ s. s), hi_report = True, hi_dispatch = Some, hi_failed = None, hi_disconnect = None, hi_proxy = None,
     hi_callback = None, hi_config = Inr emptyConfig, hi_gssServer = False, hi_requireAuth = False, hi_handshake = None,
     hi_callbackFailure = None, hi_maxConnections = Some 0\<rparr>"

definition plain_run :: conn_run where
  "plain_run = \<lparr>cn_scope = scope_example, cn_counters = (\<lambda>_. 0), cn_actions = [], cn_tracked = True\<rparr>"

theorem connections_end_cleanly_witness:
  "Handshaken \<in> set (cn_actions (snd (handleConn plain_input 0 5 plain_run)))
   \<and> scope_connections (cn_scope (snd (handleConn plain_input 0 5 plain_run))) = [1]
   \<and> 0 \<notin> set (scope_connections (cn_scope (snd (handleConn plain_input 0 5 plain_run))))"
proof -
  let ?t = "snd (handleConn plain_input 0 5 plain_run)"
  have live: "scope_live 0 scope_example"
    by (simp add: scope_live_def scope_example_def newServeContext_def trackConnection_def effectiveMaxStartups_def
        maxStartupsDropRate_def go_div_def int64_def Let_def)
  then have acts: "cn_actions ?t = [SetConnDeadline, Handshaken] @ established_actions plain_input plain_run @ [ConnClose 5, CtxCancel]"
    "scope_connections (cn_scope ?t) = removeAll 0 (scope_connections scope_example)"
    by (auto simp: handleConn_def conn_setup_def conn_proxy_def conn_callback_def conn_handshake_def conn_established_def conn_serve_def conn_teardown_def conn_disconnect_def
        conn_finish_def conn_untrack_def scope_use_def act_def plain_input_def plain_run_def updateCancel_def untrackConnection_def untrackDelete_def
        releaseStartup_def maybeCloseDrainedLocked_def established_actions_def disconnect_actions_def conn_limiter_def rl_counter_def configuredLimit_def Let_def split: prod.splits)
  have "scope_env plain_input" "cn_tracked plain_run" "cn_actions plain_run = []" by (simp_all add: scope_env_def plain_input_def plain_run_def)
  from connections_end_cleanly [OF this, of 0 5] show ?thesis using acts by (simp add: scope_example_conns split: prod.splits)
qed

end
