(* ===== verification/ForwardWorkers.thy ===== *)
theory ForwardWorkers
  imports ForwardConnections
begin

text \<open>
  The worker of one forwarded connection, which an accept loop hands its connection to (\<open>tcpip.go\<close>, \<open>streamlocal.go\<close>,
  \<open>agent.go\<close>): it opens a channel to the client, copies, and gives back what the loop took. What it does is
  the list of its actions in order, deferred calls included; \<open>worker_effect\<close> is what an action does to the
  state that loop and worker share.
\<close>

datatype worker_action =
    OpenEnded | ErrorDispatched gerr | ForwardClosed | CopyDone | RequestsCancelled | OpenedClosed nat
  | AcceptedClosed | SlotReleased | CloseFnRemoved

text \<open>
  \<open>wi_opened\<close> is the result of \<open>openForwardedChannel\<close>, \<open>wi_done\<close> whether the forward had been closed by then, \<open>wi_continue\<close> the answer of
  the dispatch of an error and \<open>wi_copy\<close> the error of the copy.
\<close>

record worker_input =
  wi_opened :: open_result
  wi_done :: bool
  wi_continue :: bool
  wi_copy :: "gerr option"

definition worker_failed :: "worker_input \<Rightarrow> gerr \<Rightarrow> worker_action list" where
  "worker_failed inp err = ErrorDispatched err # (if wi_continue inp then [] else [ForwardClosed])"

text \<open>The workers of TCP and of Unix forwards; they differ in the order of their deferred calls.\<close>

definition tcp_worker :: "worker_input \<Rightarrow> worker_action list" where
  "tcp_worker inp = OpenEnded # (case wi_opened inp of
       OpenFailed err \<Rightarrow> if wi_done inp then [] else worker_failed inp err
     | Opened ch \<Rightarrow> CopyDone # (case wi_copy inp of Some err \<Rightarrow> worker_failed inp err | None \<Rightarrow> []) @ [RequestsCancelled, OpenedClosed ch])
   @ [SlotReleased, AcceptedClosed, CloseFnRemoved]"

definition unix_worker :: "worker_input \<Rightarrow> worker_action list" where
  "unix_worker inp = OpenEnded # (case wi_opened inp of
       OpenFailed err \<Rightarrow> if wi_done inp then [] else worker_failed inp err
     | Opened ch \<Rightarrow> CopyDone # (case wi_copy inp of Some err \<Rightarrow> worker_failed inp err | None \<Rightarrow> []) @ [OpenedClosed ch])
   @ [AcceptedClosed, SlotReleased, CloseFnRemoved]"

text \<open>The worker of an agent connection has no forward, and only logs its errors.\<close>

definition agent_worker :: "worker_input \<Rightarrow> worker_action list" where
  "agent_worker inp = (case wi_opened inp of OpenFailed err \<Rightarrow> [] | Opened ch \<Rightarrow> [CopyDone, OpenedClosed ch])
   @ [SlotReleased, AcceptedClosed]"

primrec worker_effect :: "forward_config \<Rightarrow> nat \<Rightarrow> nat \<Rightarrow> worker_action \<Rightarrow> forwarding \<Rightarrow> forwarding" where
  "worker_effect c i n OpenEnded s = endOpen i s"
| "worker_effect c i n (ErrorDispatched err) s = s"
| "worker_effect c i n ForwardClosed s = forward_close c i s"
| "worker_effect c i n CopyDone s = s"
| "worker_effect c i n RequestsCancelled s = s"
| "worker_effect c i n (OpenedClosed ch) s = s"
| "worker_effect c i n AcceptedClosed s = s"
| "worker_effect c i n SlotReleased s = s\<lparr>fw_counters := channelLimiter_release (fc_channels c) (fw_counters s)\<rparr>"
| "worker_effect c i n CloseFnRemoved s = s\<lparr>fw_resources := unregister n (fw_resources s)\<rparr>"

text \<open>The worker from its start to the end that \<open>connectionWorkers\<close> counts.\<close>

definition run_worker :: "forward_config \<Rightarrow> nat \<Rightarrow> nat \<Rightarrow> worker_action list \<Rightarrow> forwarding \<Rightarrow> forwarding" where
  "run_worker c i n acts s = (let s1 = fold (worker_effect c i n) acts s in s1\<lparr>fw_workers := worker_done (fw_workers s1)\<rparr>)"

text \<open>The accepted connection and the channel opened for it are each closed once.\<close>

definition closes_all :: "worker_input \<Rightarrow> worker_action list \<Rightarrow> bool" where
  "closes_all inp acts \<longleftrightarrow> length (filter ((=) AcceptedClosed) acts) = 1
     \<and> List.map_filter (\<lambda>a. case a of OpenedClosed ch \<Rightarrow> Some ch | _ \<Rightarrow> None) acts = channels_of (wi_opened inp)"

lemma workers_close_all: "closes_all inp (tcp_worker inp) \<and> closes_all inp (unix_worker inp) \<and> closes_all inp (agent_worker inp)"
  by (auto simp: closes_all_def tcp_worker_def unix_worker_def agent_worker_def worker_failed_def map_filter_simps
      split: open_result.splits option.splits)

text \<open>Giving a channel slot back and closing a forward do not get in each other's way.\<close>

lemma releases_commute:
  "resourceLimiter_release ls (channelLimiter_release l k) = channelLimiter_release l (resourceLimiter_release ls k)"
  by (simp add: channelLimiter_release_levels fun_eq_iff resourceLimiter_release_eq)

lemma held_ended:
  assumes "i < length (fw_objects s)" "conn_held c i n s s'"
  shows "endOpen i s' = s\<lparr>fw_resources := (fw_resources s)\<lparr>cr_resources := n # cr_resources (fw_resources s)\<rparr>,
      fw_workers := (fw_workers s)\<lparr>cw_running := cw_running (fw_workers s) + 1\<rparr>,
      fw_counters := snd (channelLimiter_reserve (fc_channels c) (fw_counters s))\<rparr>"
    "channelLimiter_release (fc_channels c) (snd (channelLimiter_reserve (fc_channels c) (fw_counters s))) = fw_counters s"
  using assms chan_slots.release_undoes_reserve [of "fc_channels c" "fw_counters s" "snd (channelLimiter_reserve (fc_channels c) (fw_counters s))"]
  by (auto simp: conn_held_def endOpen_def prod_eq_iff)

text \<open>The end of a worker undoes the end of a turn, whatever happened to the forward in between.\<close>

lemma given_back:
  assumes "i < length (fw_objects s)" "conn_held c i n s s'"
  defines "undo \<equiv> (\<lambda>t. t\<lparr>fw_counters := channelLimiter_release (fc_channels c) (fw_counters t), fw_resources := unregister n (fw_resources t),
      fw_workers := worker_done (fw_workers t)\<rparr>)"
  shows "undo (endOpen i s') = s" "undo (forward_close c i (endOpen i s')) = forward_close c i s"
proof -
  note ended = held_ended [OF assms(1,2)]
  show "undo (endOpen i s') = s" unfolding undo_def ended(1) by (simp add: ended(2) worker_done_def)
  show "undo (forward_close c i (endOpen i s')) = forward_close c i s"
    unfolding undo_def ended(1) by (simp add: forward_close_def worker_done_def ended(2) releases_commute [symmetric])
qed

lemma worker_gives_back:
  assumes "i < length (fw_objects s)" "conn_held c i n s s'" "acts = tcp_worker inp \<or> acts = unix_worker inp"
  shows "run_worker c i n acts s' = (if ForwardClosed \<in> set acts then forward_close c i s else s)"
proof -
  note given = given_back [OF assms(1,2)]
  show ?thesis
    using assms(3)
    by (cases "wi_opened inp"; cases "wi_done inp"; cases "wi_continue inp"; cases "wi_copy inp")
      (auto simp: run_worker_def tcp_worker_def unix_worker_def worker_failed_def Let_def given)
qed

lemma agent_gives_back:
  assumes "agent_turn c err s = (again, ConnHanded, s')"
  shows "run_worker c i n (agent_worker inp) s' = s"
  using assms chan_slots.release_undoes_reserve [of "fc_channels c" "fw_counters s"]
  by (auto simp: agent_turn_def run_worker_def agent_worker_def goRun_def worker_done_def Let_def
      split: if_splits prod.splits bool.splits open_result.splits)

text \<open>
  C36. What a forwarded connection takes it gives back. A turn of an accept loop, for TCP, Unix or agent connections,
  that leaves no connection with a worker changes nothing; after one that does, the worker, run to its
  end, closes the connection and the channel it opened once each and returns slots, opens in flight, registrations
  and workers to what they were before the turn, except that it closes the forward when an error handler
  does not want to go on. A forward that has been closed meanwhile is no error.
\<close>

theorem forwarded_connection_gives_back:
  assumes "i < length (fw_objects s)"
    and "accept_turn tcp c i n inp s = (again, fate, s')" "agent_turn c err s = (again', fate', s'')"
    and "acts = (if tcp then tcp_worker w else unix_worker w)"
  shows "(if fate = ConnHanded
       then run_worker c i n acts s' = (if ForwardClosed \<in> set acts then forward_close c i s else s)
       else s' = s)
     \<and> (if fate' = ConnHanded then run_worker c i n (agent_worker w) s'' = s else s'' = s)
     \<and> closes_all w acts \<and> closes_all w (agent_worker w)
     \<and> (wi_done w \<and> (\<exists>e. wi_opened w = OpenFailed e) \<longrightarrow> ForwardClosed \<notin> set acts)"
proof (intro conjI)
  show "if fate = ConnHanded
       then run_worker c i n acts s' = (if ForwardClosed \<in> set acts then forward_close c i s else s)
       else s' = s"
    using worker_gives_back [OF assms(1), where c = c and n = n and s' = s' and acts = acts and inp = w] accept_turn_outcome [OF assms(1), where tcp = tcp and c = c and n = n and inp = inp] assms(2,4) by auto
  show "if fate' = ConnHanded then run_worker c i n (agent_worker w) s'' = s else s'' = s"
    using agent_gives_back [where c = c and err = err and s = s and again = again' and s' = s'' and i = i and n = n and inp = w] agent_turn_outcome [where c = c and err = err and s = s] assms(3) by auto
  show "closes_all w acts" "closes_all w (agent_worker w)" using workers_close_all [of w] assms(4) by auto
  show "wi_done w \<and> (\<exists>e. wi_opened w = OpenFailed e) \<longrightarrow> ForwardClosed \<notin> set acts"
    using assms(4) by (auto simp: tcp_worker_def unix_worker_def)
qed

definition one_turn :: accept_input where
  "one_turn = \<lparr>ai_error = None, ai_ctxAlive = True, ai_dispatch = True, ai_retry = True\<rparr>"

definition copied_worker :: worker_input where
  "copied_worker = \<lparr>wi_opened = Opened 7, wi_done = False, wi_continue = False, wi_copy = Some (Var IoEOF)\<rparr>"

theorem forwarded_connection_gives_back_witness:
  "\<exists>again s'. accept_turn True plain_forwards 0 1 one_turn one_forward = (again, ConnHanded, s')
     \<and> run_worker plain_forwards 0 1 (tcp_worker copied_worker) s' = forward_close plain_forwards 0 one_forward"
proof -
  have i: "(0::nat) < length (fw_objects one_forward)" by (simp add: one_forward_def)
  obtain again fate s' where turn: "accept_turn True plain_forwards 0 1 one_turn one_forward = (again, fate, s')" by (metis surj_pair)
  obtain again' fate' s'' where agent: "agent_turn plain_forwards None one_forward = (again', fate', s'')" by (metis surj_pair)
  have "fate = ConnHanded"
    using turn by (auto simp: accept_turn_def accepted_conn_def beginAcquisition_def finishAcquisition_def finish_register_def finish_end_def
        one_turn_def one_forward_def idle_forwarding_def plain_forwards_def no_resources_def channelLimiter_reserve_def beginOpen_def goRun_def
        split: prod.splits if_splits)
  moreover have "ForwardClosed \<in> set (tcp_worker copied_worker)" by (simp add: tcp_worker_def copied_worker_def worker_failed_def)
  ultimately show ?thesis
    using forwarded_connection_gives_back [OF i turn agent, of "tcp_worker copied_worker" copied_worker] turn by auto
qed

end
