(* ===== verification/AcceptLoop.thy ===== *)
theory AcceptLoop
  imports Server ErrorHandling "HOL-Library.Sublist"
begin

text \<open>
  \<open>Serve\<close> and \<open>HandleConn\<close> (\<open>server.go\<close>): the scope of a call, the accept loop with its retries and its three ways
  to stop, and the single connection of \<open>HandleConn\<close>. What the listener returns, when the context
  is canceled and what other goroutines do to the scope meanwhile are inputs, one record a round.
\<close>

section \<open>The calls\<close>

text \<open>
  The scope of a call: \<open>outcome\<close> is that of the goroutine of \<open>prepare\<close>, \<open>cancelled\<close> the cause of a context that
  ended before it. The watch on the context is one of the other goroutines below.
\<close>

definition Server_newServeContext ::
  "gerr option \<Rightarrow> gerr option \<times> signer list \<Rightarrow> MaxStartupsConfig option \<Rightarrow> gerr option option \<Rightarrow> gerr option + serveContext" where
  "Server_newServeContext cancelled outcome maxStartups listener = (case prepare cancelled outcome of
     Some err \<Rightarrow> Inl (errors_Join [Some err, closeListener listener])
   | None \<Rightarrow> Inr (newServeContext maxStartups listener))"

text \<open>
  The watch on the context, which stops accepting when the context ends, and \<open>finish\<close>, which ends a watch that is there: \<open>Some True\<close> is
  a watch that has not been ended.
\<close>

definition scope_watch :: "bool option \<Rightarrow> serveContext \<Rightarrow> serveContext" where
  "scope_watch watch s = (if watch = Some True then snd (stopAccepting s) else s)"

definition scope_finish :: "bool option \<Rightarrow> bool option" where
  "scope_finish watch = map_option (\<lambda>_. False) watch"

text \<open>So the watch is one of those that change the scope during a call, and nobody once it has finished.\<close>

lemma scope_watch_steps: "scope_step\<^sup>*\<^sup>* s (scope_watch watch s)" "scope_watch (scope_finish watch) s = s"
  using step_stopAccepting [of s] by (auto simp: scope_watch_def scope_finish_def)

text \<open>
  \<open>sv_cause\<close> is the cause of the canceled context, \<open>sv_graceful\<close> what the handler for graceful shutdowns returns,
  \<open>sv_wait\<close> what happens while \<open>shutdown\<close> waits, \<open>sv_temporary\<close> says which errors are temporary \<open>net.Error\<close>s.
\<close>

record serve_call =
  sv_closeErr :: "nat \<Rightarrow> gerr option"
  sv_order :: "serveContext \<Rightarrow> nat list"
  sv_cause :: gerr
  sv_graceful :: "(duration \<times> gerr option) option"
  sv_wait :: "serveContext \<Rightarrow> bool \<times> serveContext"
  sv_handler :: "errorHandler option"
  sv_ctx :: goctx
  sv_temporary :: "gerr \<Rightarrow> bool"

definition serve_shutdown :: "serve_call \<Rightarrow> serveContext \<Rightarrow> gerr option \<times> serveContext" where
  "serve_shutdown c = shutdown (sv_closeErr c) (sv_order c) (Some (sv_cause c)) (sv_graceful c) (sv_wait c)"

text \<open>
  One round: what \<open>Accept\<close> returns after the changes \<open>ar_env\<close> to the scope; whether the context was canceled by
  then, after the dispatch of an error, which used error handler slots may affect and the cancellation cut off, or during
  the wait for a retry; and the changes to the scope in between.
\<close>

record accept_round =
  ar_env :: "serveContext \<Rightarrow> serveContext"
  ar_accept :: "gerr + nat"
  ar_now :: int
  ar_rnd :: int
  ar_cancelledAccept :: bool
  ar_slots :: nat
  ar_cutoff :: "nat option"
  ar_env2 :: "serveContext \<Rightarrow> serveContext"
  ar_cancelledDispatch :: bool
  ar_cancelledWait :: bool

definition acceptErrorAction :: "(gerr \<Rightarrow> bool) \<Rightarrow> 'a world_scheme action" where
  "acceptErrorAction temporary ctx scope operation err = State_Monad.return (case err of
     Some e \<Rightarrow> if temporary e then (True, None) else (False, Some e)
   | None \<Rightarrow> (False, None))"

text \<open>The error of an \<open>Accept\<close>: a result of the call, or another round with the new delay.\<close>

definition accept_failed :: "serve_call \<Rightarrow> accept_round \<Rightarrow> gerr \<Rightarrow> duration \<Rightarrow> serveContext \<Rightarrow> 'a world_scheme
    \<Rightarrow> (gerr option + duration) \<times> serveContext \<times> 'a world_scheme" where
  "accept_failed c r acceptErr tempDelay s w =
     (let stop = (\<lambda>t w. case serve_shutdown c t of (e, t') \<Rightarrow> (Inl e, t', w))
      in if ar_cancelledAccept r then stop s w
         else (case run_state (dispatchError (ar_cutoff r) (sv_ctx c)
                  (limitErrorHandler defaultMaxConcurrentErrorHandlers (ar_slots r) (sv_handler c))
                  ErrorScopeServer ErrorOperationAccept (Some acceptErr) None (Some (acceptErrorAction (sv_temporary c)))) w of
            (((canContinue, filteredErr), _), w1) \<Rightarrow>
              let s1 = ar_env2 r s
              in if ar_cancelledDispatch r then stop s1 w1
                 else (case filteredErr of
                   Some f \<Rightarrow> (case force (sv_closeErr c) f (sv_order c) s1 of (fe, s2) \<Rightarrow> (Inl (errors_Join [Some f, fe]), s2, w1))
                 | None \<Rightarrow>
                     if canContinue \<and> \<not> isClosedError (Some acceptErr)
                     then (case waitForRetry (ar_cancelledWait r) tempDelay of
                             (False, _) \<Rightarrow> stop s1 w1
                           | (True, delay) \<Rightarrow> (Inr delay, s1, w1))
                     else (case force (sv_closeErr c) acceptErr (sv_order c) s1 of (fe, s2) \<Rightarrow> (Inl fe, s2, w1)))))"

text \<open>The loop over the rounds that happen; \<open>None\<close> while it is still serving. \<open>started\<close> are the connections given to \<open>handleConn\<close>.\<close>

fun serve_rounds :: "serve_call \<Rightarrow> accept_round list \<Rightarrow> duration \<Rightarrow> (nat \<times> nat) list \<Rightarrow> serveContext \<Rightarrow> 'a world_scheme
    \<Rightarrow> gerr option option \<times> (nat \<times> nat) list \<times> serveContext \<times> 'a world_scheme" where
  "serve_rounds c [] tempDelay started s w = (None, started, s, w)"
| "serve_rounds c (r # rs) tempDelay started s w = (case ar_accept r of
     Inl acceptErr \<Rightarrow>
       (case accept_failed c r acceptErr tempDelay (ar_env r s) w of
          (Inl res, s1, w1) \<Rightarrow> (Some res, started, s1, w1)
        | (Inr delay, s1, w1) \<Rightarrow> serve_rounds c rs delay started s1 w1)
   | Inr conn \<Rightarrow>
       (case trackConnection conn (ar_now r) (ar_rnd r) (ar_env r s) of
          (Some active, s1) \<Rightarrow> serve_rounds c rs 0 (started @ [(active, conn)]) s1 w
        | (None, s1) \<Rightarrow> serve_rounds c rs 0 started s1 w))"

definition Serve :: "serve_call \<Rightarrow> gerr option + serveContext \<Rightarrow> accept_round list \<Rightarrow> 'a world_scheme
    \<Rightarrow> gerr option option \<times> (nat \<times> nat) list \<times> serveContext option \<times> 'a world_scheme" where
  "Serve c prepared rs w = (case prepared of
     Inl err \<Rightarrow> (Some err, [], None, w)
   | Inr scope \<Rightarrow> (case serve_rounds c rs 0 [] scope w of (res, started, s, w') \<Rightarrow> (res, started, Some s, w')))"

text \<open>
  \<open>HandleConn\<close>: the select sees the result of \<open>handleConn\<close>, or the end of the context, before the result or with it.
  \<open>other\<close> is what \<open>handleConn\<close> and others did to the scope when the context ended.
\<close>

datatype handle_select = HandleDone | ContextEnded bool "serveContext \<Rightarrow> serveContext"

definition HandleConn :: "serve_call \<Rightarrow> handle_input \<Rightarrow> gerr option + serveContext \<Rightarrow> nat \<Rightarrow> int \<Rightarrow> int \<Rightarrow> bool \<Rightarrow> handle_select
    \<Rightarrow> counters \<Rightarrow> gerr option \<times> serveContext option" where
  "HandleConn c inp prepared newConn now rnd cancelled select k = (case prepared of
     Inl err \<Rightarrow> (err, None)
   | Inr scope \<Rightarrow>
       (case trackConnection newConn now rnd scope of
          (None, s1) \<Rightarrow> if cancelled then map_prod id Some (serve_shutdown c s1) else (None, Some s1)
        | (Some active, s1) \<Rightarrow>
            (let result = (case handleConn (inp\<lparr>hi_report := False\<rparr>) active newConn
                             \<lparr>cn_scope = s1, cn_counters = k, cn_actions = [], cn_tracked = True\<rparr> of
                           (r, t) \<Rightarrow> (r, Some (cn_scope t)))
             in case select of
                  HandleDone \<Rightarrow> result
                | ContextEnded ready other \<Rightarrow> if ready then result else map_prod id Some (serve_shutdown c (other s1)))))"

section \<open>What later states of a scope keep\<close>

text \<open>The effects so far, the addresses in use and the result of closing the listener.\<close>

definition later :: "serveContext \<Rightarrow> serveContext \<Rightarrow> bool" where
  "later s t \<longleftrightarrow> prefix (scope_trace s) (scope_trace t) \<and> scope_next s \<le> scope_next t
     \<and> (scope_listenerClosed s \<noteq> None \<longrightarrow> scope_listenerClosed t = scope_listenerClosed s)"

lemma later_refl [simp]: "later s s"
  by (simp add: later_def)

lemma later_trans: "later s t \<Longrightarrow> later t u \<Longrightarrow> later s u"
  by (auto simp: later_def)

lemma later_stopAccepting: "later s (snd (stopAccepting s))"
  by (auto simp: later_def stopAccepting_def scope_closeListener_def maybeCloseDrainedLocked_def Let_def split: option.splits)

lemma later_step: "scope_step s t \<Longrightarrow> later s t"
proof (induction rule: scope_step.induct)
  case (step_force s order cause)
  then show ?case by (cases "scope_forced s") (simp_all add: force_locked_state later_def, simp_all add: force_locked_def)
qed (auto simp: later_stopAccepting, auto simp: later_def trackConnection_def updateConnection_def updateCancel_def
      releaseStartup_def untrackDelete_def maybeCloseDrainedLocked_def Let_def)

interpretation later: step_invariant scope_step "later s" for s
  by unfold_locales (rule later_trans [OF _ later_step])

lemma later_steps: "scope_step\<^sup>*\<^sup>* s t \<Longrightarrow> later s t"
  by (erule later.steps_keep) simp

lemma later_force:
  assumes "scope_inv s" "any_order order"
  shows "later s (snd (force closeErr cause order s)) \<and> scope_listenerClosed (snd (force closeErr cause order s)) \<noteq> None"
proof (cases "scope_forced s")
  case True
  then show ?thesis using stopAccepting_closed [of s] by (simp add: force_forced later_stopAccepting)
next
  case False
  show ?thesis
    using later_stopAccepting [of s] stopAccepting_closed [of s]
    by (auto simp: force_first [OF assms(2) scope_invD(1) [OF assms(1)] False] later_def intro: prefix_prefix)
qed

text \<open>Where \<open>shutdown\<close> ends: where the wait left the scope, or where it began, forced or not.\<close>

lemma shutdown_state:
  assumes "out = shutdown closeErr order ctxCause graceful wait s"
  shows "\<exists>t. (t = snd (stopAccepting s) \<or> t = snd (wait (snd (stopAccepting s)))) \<and> (snd out = t \<or> (\<exists>c. snd out = snd (force closeErr c order t)))"
proof -
  obtain le s1 where st: "stopAccepting s = (le, s1)" by fastforce
  obtain d s2 where w: "wait s1 = (d, s2)" by fastforce
  define c where "c = (case ctxCause of Some c \<Rightarrow> c | None \<Rightarrow> Var ContextCanceled)"
  have "snd out = (case graceful of
      None \<Rightarrow> snd (force closeErr c order s1)
    | Some (period, Some h) \<Rightarrow> snd (force closeErr (JoinErr [c, h]) order s1)
    | Some (period, None) \<Rightarrow>
        if period \<le> 0 then snd (force closeErr c order s1)
        else if d \<or> scope_connections s2 = [] then s2 else snd (force closeErr (JoinErr [c, Var ErrGracefulShutdownTimeout]) order s2))"
    by (simp add: assms shutdown_def st w c_def Let_def case_prod_beta split: option.split)
  then show ?thesis using st w by (auto split: option.splits if_splits)
qed

lemma later_shutdown:
  assumes "scope_inv s" "any_order order" "fair_wait wait"
  shows "later s (snd (shutdown closeErr order ctxCause graceful wait s))
    \<and> scope_listenerClosed (snd (shutdown closeErr order ctxCause graceful wait s)) \<noteq> None"
proof -
  let ?s1 = "snd (stopAccepting s)"
  have steps: "scope_step\<^sup>*\<^sup>* ?s1 (snd (wait ?s1))" using assms(3) by (simp add: fair_wait_def)
  have i1: "scope_inv ?s1" by (rule inv_stopAccepting [OF assms(1)])
  have after: "later ?s1 t" "scope_inv t" if "t = ?s1 \<or> t = snd (wait ?s1)" for t
    using that later_steps [OF steps] inv_steps [OF steps i1] i1 by auto
  obtain t where t: "t = ?s1 \<or> t = snd (wait ?s1)"
    "snd (shutdown closeErr order ctxCause graceful wait s) = t
     \<or> (\<exists>c. snd (shutdown closeErr order ctxCause graceful wait s) = snd (force closeErr c order t))"
    using shutdown_state [OF refl, where closeErr = closeErr and order = order and ctxCause = ctxCause and graceful = graceful and wait = wait and s = s]
    by (elim exE conjE) (rule that)
  have "later ?s1 (snd (shutdown closeErr order ctxCause graceful wait s))"
    using t(2)
  proof (elim disjE exE)
    fix c
    assume "snd (shutdown closeErr order ctxCause graceful wait s) = snd (force closeErr c order t)"
    moreover have "later t (snd (force closeErr c order t))" using later_force [OF after(2) [OF t(1)] assms(2)] by blast
    ultimately show ?thesis using later_trans [OF after(1) [OF t(1)]] by simp
  qed (simp add: after(1) [OF t(1)])
  moreover from this have "scope_listenerClosed (snd (shutdown closeErr order ctxCause graceful wait s)) = scope_listenerClosed ?s1"
    using stopAccepting_closed [of s] unfolding later_def by blast
  ultimately show ?thesis using later_trans [OF later_stopAccepting] stopAccepting_closed [of s] by simp
qed

section \<open>How \<open>Serve\<close> ends\<close>







text \<open>\<open>shutdown\<close> stops the scope, with an error that wraps the cause.\<close>

lemma shutdown_stops:
  assumes "scope_inv s" "any_order order" "fair_wait wait" "shutdown closeErr order (Some cause) graceful wait s = (res, t)"
  shows "scope_inv t \<and> stopped t \<and> (\<exists>e. res = Some e \<and> errors_Is e cause)"
proof -
  obtain le s1 where st: "stopAccepting s = (le, s1)" by fastforce
  then have s1: "scope_inv s1" "scope_stopping s1" using inv_stopAccepting [OF assms(1)] stopAccepting_state(3) [of s] by simp_all
  obtain d s2 where w: "wait s1 = (d, s2)" by fastforce
  then have steps: "scope_step\<^sup>*\<^sup>* s1 s2" and drained: "d \<Longrightarrow> scope_drained s2" using assms(3) by (auto simp: fair_wait_def dest: spec [of _ s1])
  have s2: "scope_inv s2" "scope_stopping s2" using inv_steps [OF steps s1(1)] stopping_steps [OF steps s1(2)] by simp_all
  have ended: "stopped s2" if "d \<or> scope_connections s2 = []"
    using that drained s2 scope_invD(7) [OF s2(1)] inv_empty [OF s2(1)] by (auto simp: stopped_def)
  have forced: "scope_inv (snd (force closeErr c order u)) \<and> stopped (snd (force closeErr c order u))" if "scope_inv u" for c u
    using inv_force [OF that assms(2), of closeErr c] inv_empty by (simp add: stopped_def)
  have wraps: "\<exists>e. errors_Join (Some c # es) = Some e \<and> errors_Is e cause" if "errors_Is c cause" for c es
    using Join_first [of c es] that by blast
  have joined: "errors_Is (JoinErr [cause, h]) cause" for h by simp
  show ?thesis
    using assms(4) ended forced [OF s1(1)] forced [OF s2(1)] s2(1) wraps [OF errors_Is_refl] wraps [OF joined]
    by (auto simp: shutdown_def st w Let_def case_prod_beta split: option.splits if_splits)
qed

text \<open>Without a handler the dispatch decides by the default action.\<close>

lemma dispatch_accept_default:
  "run_state (dispatchError cutoff ctx (limitErrorHandler slots used None) ErrorScopeServer ErrorOperationAccept (Some e) None
     (Some (acceptErrorAction temporary))) (w :: 'a world_scheme)
   = (((if temporary e then (True, None) else (False, Some e)),
       Some (response_expire (newErrorResponse (Some (unsupportedResponder ctx))))), w)"
  by (simp add: dispatchError_def dispatched_def limitErrorHandler_def acceptErrorAction_def case_prod_beta Let_def)

definition round_cancelled :: "accept_round \<Rightarrow> bool" where
  "round_cancelled r \<longleftrightarrow> ar_cancelledAccept r \<or> ar_cancelledDispatch r"


text \<open>The failures that end a server without a handler.\<close>

definition fatal_round :: "serve_call \<Rightarrow> accept_round \<Rightarrow> bool" where
  "fatal_round c r \<longleftrightarrow> (case ar_accept r of
     Inr conn \<Rightarrow> False
   | Inl e \<Rightarrow> round_cancelled r \<or> \<not> sv_temporary c e \<or> isClosedError (Some e) \<or> ar_cancelledWait r)"



text \<open>The connections that the rounds accept.\<close>

definition accepted :: "accept_round list \<Rightarrow> nat list" where
  "accepted rs = concat (map (\<lambda>r. case ar_accept r of Inr conn \<Rightarrow> [conn] | Inl e \<Rightarrow> []) rs)"

lemma accepted_simps [simp]:
  "accepted [] = []"
  "accepted (r # rs) = (case ar_accept r of Inr conn \<Rightarrow> [conn] | Inl e \<Rightarrow> []) @ accepted rs"
  by (simp_all add: accepted_def)



lemma serve_fatal_iff:
  assumes "sv_handler c = None"
  shows "fst (Serve c (Inr scope) rs w) \<noteq> None \<longleftrightarrow> list_ex (fatal_round c) rs"
proof -
  have failed: "(\<exists>res. fst (accept_failed c r e delay s w) = Inl res) \<longleftrightarrow> fatal_round c r" if "ar_accept r = Inl e" for r e delay s w
    using assms that
    by (cases "ar_cancelledWait r")
      (auto simp: accept_failed_def fatal_round_def round_cancelled_def dispatch_accept_default waitForRetry_def case_prod_beta Let_def)
  have "fst (serve_rounds c rs delay started s w) \<noteq> None \<longleftrightarrow> list_ex (fatal_round c) rs" for delay started s w
  proof (induction rs arbitrary: delay started s w)
    case (Cons r rs)
    show ?case
    proof (cases "ar_accept r")
      case (Inl e)
      obtain out t1 w1 where out: "accept_failed c r e delay (ar_env r s) w = (out, t1, w1)" by (metis surj_pair)
      then have "(\<exists>res. out = Inl res) \<longleftrightarrow> fatal_round c r" using failed [OF Inl, of delay "ar_env r s" w] by simp
      then show ?thesis using Cons.IH Inl out by (cases out) auto
    next
      case (Inr conn)
      then have "\<not> fatal_round c r" by (simp add: fatal_round_def)
      then show ?thesis using Cons.IH Inr by (simp split: prod.splits option.splits)
    qed
  qed simp
  then show ?thesis by (simp add: Serve_def case_prod_beta)
qed

text \<open>
  A server without an error handler goes on exactly as long as no round is fatal: a temporary error of \<open>Accept\<close>,
  unless it says that the listener is closed, is followed by another round, as is every connection; any
  other error, and any error after the context was canceled, makes \<open>Serve\<close> return.
\<close>

lemma serve_goes_on_until_fatal:
  assumes "sv_handler c = None"
  shows "fst (Serve c (Inr scope) rs w) \<noteq> None \<longleftrightarrow> list_ex (fatal_round c) rs"
  using assms by (rule serve_fatal_iff)

section \<open>How \<open>HandleConn\<close> ends\<close>

text \<open>
  C21. \<open>HandleConn\<close> owns its connection: one that the scope refuses has been closed, and any other is not tracked any more when the
  call returns, whether \<open>handleConn\<close> ended or the context did. If the context ended first, everything in the scope has been
  stopped and the result wraps the cause.
\<close>

theorem handled_connection_ends:
  assumes "scope_env inp" "any_order (sv_order c)" "fair_wait (sv_wait c)" "scope_reach scope"
    and "\<And>ready other s. select = ContextEnded ready other \<Longrightarrow> scope_step\<^sup>*\<^sup>* s (other s)"
    and "trackConnection conn now rnd scope = (active, s1)"
    and "HandleConn c inp (Inr scope) conn now rnd cancelled select k = (res, Some s)"
  shows "case active of
       None \<Rightarrow> CloseTransport conn \<in> set (scope_trace s)
         \<and> (if cancelled then stopped s \<and> (\<exists>e. res = Some e \<and> errors_Is e (sv_cause c)) else res = None)
     | Some a \<Rightarrow> a \<notin> set (scope_connections s)
         \<and> (case select of ContextEnded False other \<Rightarrow> stopped s \<and> (\<exists>e. res = Some e \<and> errors_Is e (sv_cause c)) | _ \<Rightarrow> True)"
proof -
  have inv: "scope_inv s1" using inv_track [OF inv_reach [OF assms(4)], of conn now rnd] assms(6) by simp
  have stop: "stopped t \<and> (\<exists>e. r = Some e \<and> errors_Is e (sv_cause c)) \<and> later u t"
    if "scope_inv u" "serve_shutdown c u = (r, t)" for u r t
    using shutdown_stops [OF that(1) assms(2,3) that(2) [unfolded serve_shutdown_def]]
      later_shutdown [OF that(1) assms(2,3)] that(2) unfolding serve_shutdown_def by (metis snd_conv)
  show ?thesis
  proof (cases active)
    case None
    then have closed: "CloseTransport conn \<in> set (scope_trace s1)"
      using assms(6) by (auto simp: trackConnection_def Let_def split: if_splits)
    show ?thesis
    proof (cases cancelled)
      case True
      then have "serve_shutdown c s1 = (res, s)" using assms(6,7) None by (auto simp: HandleConn_def map_prod_def split: prod.splits)
      from stop [OF inv this] have "stopped s" "\<exists>e. res = Some e \<and> errors_Is e (sv_cause c)" "prefix (scope_trace s1) (scope_trace s)"
        by (auto simp: later_def)
      then show ?thesis using None True closed set_mono_prefix by fastforce
    qed (use assms(6,7) None closed in \<open>simp add: HandleConn_def\<close>)
  next
    case (Some a)
    let ?run = "\<lparr>cn_scope = s1, cn_counters = k, cn_actions = [], cn_tracked = True\<rparr>"
    have env: "scope_env (inp\<lparr>hi_report := False\<rparr>)" using assms(1) by (simp add: scope_env_def)
    obtain r t where run: "handleConn (inp\<lparr>hi_report := False\<rparr>) a conn ?run = (r, t)" by (metis surj_pair)
    have gone: "a \<notin> set (scope_connections (cn_scope t))" using handleConn_ends [OF env, of ?run a conn] run by simp
    note call = assms(7) [unfolded HandleConn_def] assms(6) Some run
    show ?thesis
    proof (cases select)
      case HandleDone
      then show ?thesis using call gone by simp
    next
      case (ContextEnded ready other)
      have "scope_inv (other s1)" using inv_steps [OF assms(5) [OF ContextEnded] inv] .
      from stop [OF this surjective_pairing] have "stopped (snd (serve_shutdown c (other s1)))"
        "\<exists>e. fst (serve_shutdown c (other s1)) = Some e \<and> errors_Is e (sv_cause c)" by simp_all
      then show ?thesis using call gone ContextEnded
        by (cases ready) (auto simp: map_prod_def case_prod_beta stopped_def)
    qed
  qed
qed

section \<open>Witnesses\<close>

text \<open>A listener with one connection; then the context is canceled.\<close>

definition sample_call :: serve_call where
  "sample_call = \<lparr>sv_closeErr = (\<lambda>_. None), sv_order = scope_connections, sv_cause = Var ContextCanceled, sv_graceful = None,
     sv_wait = (\<lambda>s. (False, s)), sv_handler = None, sv_ctx = \<lparr>ctx_closer = False, ctx_conn = True, ctx_hasDone = True\<rparr>,
     sv_temporary = (\<lambda>_. False)\<rparr>"

definition sample_round :: "gerr + nat \<Rightarrow> bool \<Rightarrow> accept_round" where
  "sample_round x cancelled = \<lparr>ar_env = id, ar_accept = x, ar_now = 0, ar_rnd = 50, ar_cancelledAccept = cancelled, ar_slots = 0,
     ar_cutoff = None, ar_env2 = id, ar_cancelledDispatch = cancelled, ar_cancelledWait = cancelled\<rparr>"

definition sample_rounds :: "accept_round list" where
  "sample_rounds = [sample_round (Inr 5) False, sample_round (Inl (Var NetErrClosed)) True]"

definition quiet_world :: world where
  "quiet_world = \<lparr>w_trace = [], w_env = (\<lambda>_ _. None)\<rparr>"



theorem serve_goes_on_until_fatal_witness:
  "fst (Serve sample_call (Inr (newServeContext None None)) sample_rounds quiet_world) \<noteq> None
   \<and> fst (Serve sample_call (Inr (newServeContext None None)) (butlast sample_rounds) quiet_world) = None"
proof -
  have handler: "sv_handler sample_call = None" by (simp add: sample_call_def)
  show ?thesis
    using serve_goes_on_until_fatal [OF handler, of "newServeContext None None" sample_rounds quiet_world]
      serve_goes_on_until_fatal [OF handler, of "newServeContext None None" "butlast sample_rounds" quiet_world]
    by (simp add: sample_call_def sample_rounds_def sample_round_def fatal_round_def round_cancelled_def)
qed

theorem handled_connection_ends_witness:
  "\<exists>res s. HandleConn sample_call plain_input (Inr (newServeContext None None)) 9 0 50 False (ContextEnded False id) (\<lambda>_. 0) = (res, Some s)
     \<and> stopped s \<and> 0 \<notin> set (scope_connections s)"
proof -
  have new: "fst (trackConnection 9 0 50 (newServeContext None None)) = Some 0"
    by (simp add: newServeContext_def trackConnection_def effectiveMaxStartups_def maxStartupsDropRate_def DefaultMaxStartupsStart_def
        DefaultMaxStartupsRate_def DefaultMaxStartupsFull_def Let_def)
  then obtain s1 where track: "trackConnection 9 0 50 (newServeContext None None) = (Some 0, s1)" by (metis prod.collapse)
  obtain res s where out: "serve_shutdown sample_call s1 = (res, s)" by fastforce
  then have call: "HandleConn sample_call plain_input (Inr (newServeContext None None)) 9 0 50 False (ContextEnded False id) (\<lambda>_. 0) = (res, Some s)"
    using track by (simp add: HandleConn_def)
  have "scope_env plain_input" "any_order (sv_order sample_call)" "fair_wait (sv_wait sample_call)"
    by (simp_all add: scope_env_def plain_input_def sample_call_def any_order_def fair_wait_def)
  from handled_connection_ends [OF this reach_new _ track call] call show ?thesis by (auto simp: stopped_def)
qed

end
