(* ===== verification/Setup.thy ===== *)
theory Setup
  imports AcceptLoop Codec
begin

text \<open>
  Setting a server up: the functional options (\<open>options.go\<close>), the functions \<open>Serve\<close> and \<open>ListenAndServe\<close> of the package that apply
  them (\<open>ssh.go\<close>), the defaults for handlers that are not set (\<open>server.go\<close>), the wrapping of a connection for the
  PROXY protocol (\<open>proxyproto.go\<close>) and the listener for agent connections (\<open>agent.go\<close>). Handlers and connections
  are numbers; reading a file, parsing a key, listening and the functions of \<open>go-proxyproto\<close> are inputs.
\<close>

section \<open>PROXY protocol\<close>

text \<open>
  The policies are those of \<open>go-proxyproto\<close>, of which the code names two, here the parameters \<open>require\<close> and \<open>skip\<close>. A connection is
  plain or wrapped with options; a policy may depend on the addresses, here on the connection.
\<close>

datatype 'p proxy_option = WithPolicy 'p | ValidateHeader nat | SetReadHeaderTimeout int | WithBufferSize int

datatype 'p net_conn = PlainConn nat | ProxyConn nat "'p proxy_option list"

record 'p ProxyProtocolConfig =
  ConnPolicy :: "(nat \<Rightarrow> 'p \<times> gerr option) option"
  HeaderValidator :: "nat option"
  ReadHeaderTimeout :: int
  ReadBufferSize :: int

definition wrapProxyProtocolConn :: "'p \<Rightarrow> 'p \<Rightarrow> 'p net_conn \<Rightarrow> 'p ProxyProtocolConfig \<Rightarrow> gerr + 'p net_conn" where
  "wrapProxyProtocolConn require skip conn config = (case conn of
     ProxyConn _ _ \<Rightarrow> Inl (Errorf ''ssh: connection is already wrapped for PROXY protocol'' [])
   | PlainConn c \<Rightarrow>
       (case (case ConnPolicy config of None \<Rightarrow> (require, None) | Some policy \<Rightarrow> policy c) of
          (_, Some err) \<Rightarrow> Inl err
        | (policy, None) \<Rightarrow>
            if ConnPolicy config \<noteq> None \<and> policy = skip then Inr (PlainConn c)
            else Inr (ProxyConn c
              ([WithPolicy policy]
               @ (case HeaderValidator config of Some v \<Rightarrow> [ValidateHeader v] | None \<Rightarrow> [])
               @ (if ReadHeaderTimeout config < 0 then [SetReadHeaderTimeout 0]
                  else if ReadHeaderTimeout config > 0 then [SetReadHeaderTimeout (ReadHeaderTimeout config)] else [])
               @ (if ReadBufferSize config > 0 then [WithBufferSize (ReadBufferSize config)] else [])))))"

section \<open>The server and its options\<close>

text \<open>The fields of \<open>Server\<close> that options set, and those with default handlers.\<close>

record server =
  srv_Addr :: string
  srv_Handler :: "nat option"
  srv_HostSigners :: "signer list"
  srv_GracefulShutdownHandler :: "(nat \<Rightarrow> duration \<times> gerr option) option"
  srv_ErrorHandler :: "errorHandler option"
  srv_PasswordHandler :: "nat option"
  srv_PublicKeyHandler :: "nat option"
  srv_KeyboardInteractiveHandler :: "nat option"
  srv_PtyCallback :: "(Pty \<Rightarrow> bool \<times> gerr option) option"
  srv_ConnCallback :: "nat option"
  srv_ProxyProtocol :: "nat ProxyProtocolConfig option"
  srv_ChannelHandlers :: "(string \<rightharpoonup> nat) option"
  srv_RequestHandlers :: "(string \<rightharpoonup> nat) option"
  srv_SubsystemHandlers :: "(string \<rightharpoonup> nat) option"



text \<open>The constructors of options; a nil handler is \<open>None\<close>.\<close>

datatype server_option =
    WithGracefulShutdownHandler "(nat \<Rightarrow> duration \<times> gerr option) option"
  | WithGracefulShutdownTimeout duration
  | WithErrorHandler "errorHandler option"
  | PasswordAuth "nat option"
  | PublicKeyAuth "nat option"
  | KeyboardInteractiveAuth "nat option"
  | HostKeyFile string
  | HostKeyPEM bytes
  | NoPty
  | WrapConn "nat option"
  | EnableProxyProtocol "nat ProxyProtocolConfig list"


definition noProxyProtocol :: "nat ProxyProtocolConfig" where
  "noProxyProtocol = \<lparr>ConnPolicy = None, HeaderValidator = None, ReadHeaderTimeout = 0, ReadBufferSize = 0\<rparr>"





definition Server_ListenAndServe :: "(string \<Rightarrow> gerr + 'l) \<Rightarrow> (server \<Rightarrow> 'l \<Rightarrow> gerr option) \<Rightarrow> server \<Rightarrow> gerr option" where
  "Server_ListenAndServe listen serve srv =
     (let addr = (if srv_Addr srv = [] then '':22'' else srv_Addr srv)
      in case listen addr of Inl err \<Rightarrow> Some err | Inr ln \<Rightarrow> serve srv ln)"


section \<open>Default handlers\<close>

text \<open>What a connection uses where a server has no handlers of its own; the defaults are variables of the package.\<close>

record package_defaults =
  pd_DefaultHandler :: "nat option"

definition getDefaultHandler :: "package_defaults \<Rightarrow> nat option" where
  "getDefaultHandler pkg = pd_DefaultHandler pkg"

definition ssh_Handle :: "nat option \<Rightarrow> package_defaults \<Rightarrow> package_defaults" where
  "ssh_Handle handler pkg = pkg\<lparr>pd_DefaultHandler := handler\<rparr>"

definition Server_Handle :: "nat option \<Rightarrow> server \<Rightarrow> server" where
  "Server_Handle fn srv = srv\<lparr>srv_Handler := fn\<rparr>"

definition initial_ChannelHandlers :: "nat \<Rightarrow> (string \<rightharpoonup> nat)" where
  "initial_ChannelHandlers DefaultSessionHandler = [''session'' \<mapsto> DefaultSessionHandler]"

definition server_handler :: "nat option \<Rightarrow> server \<Rightarrow> nat option" where
  "server_handler DefaultHandler srv = (if srv_Handler srv \<noteq> None then srv_Handler srv else DefaultHandler)"

definition channelHandlers :: "(string \<rightharpoonup> nat) \<Rightarrow> server \<Rightarrow> (string \<rightharpoonup> nat)" where
  "channelHandlers DefaultChannelHandlers srv = (case srv_ChannelHandlers srv of Some m \<Rightarrow> m | None \<Rightarrow> DefaultChannelHandlers)"

definition requestHandlers :: "(string \<rightharpoonup> nat) \<Rightarrow> server \<Rightarrow> (string \<rightharpoonup> nat)" where
  "requestHandlers DefaultRequestHandlers srv = (case srv_RequestHandlers srv of Some m \<Rightarrow> m | None \<Rightarrow> DefaultRequestHandlers)"

definition subsystemHandlers :: "(string \<rightharpoonup> nat) \<Rightarrow> server \<Rightarrow> (string \<rightharpoonup> nat)" where
  "subsystemHandlers DefaultSubsystemHandlers srv = (case srv_SubsystemHandlers srv of Some m \<Rightarrow> m | None \<Rightarrow> DefaultSubsystemHandlers)"

lemma handlers_in_use:
  "server_handler d (Server_Handle (Some f) srv) = Some f"
  "server_handler (getDefaultHandler (ssh_Handle h pkg)) (Server_Handle None srv) = h"
  "srv_ChannelHandlers srv = None \<Longrightarrow> channelHandlers (initial_ChannelHandlers h') srv ''session'' = Some h'"
  by (simp_all add: server_handler_def Server_Handle_def getDefaultHandler_def ssh_Handle_def channelHandlers_def initial_ChannelHandlers_def)

text \<open>The error handler of a connection is that of its scope, and outside of one the server's.\<close>

definition errorHandlerFromContext :: "errorHandler option option \<Rightarrow> server option \<Rightarrow> errorHandler option" where
  "errorHandlerFromContext serveContext srv = (case serveContext of
     Some handler \<Rightarrow> handler
   | None \<Rightarrow> (case srv of Some s \<Rightarrow> srv_ErrorHandler s | None \<Rightarrow> None))"

text \<open>\<open>ConstantTimeCompare\<close> is 1 exactly for equal contents; keys are their \<open>Marshal\<close>.\<close>

definition KeysEqual :: "bytes option \<Rightarrow> bytes option \<Rightarrow> bool" where
  "KeysEqual ak bk = (case (ak, bk) of
     (Some a, Some b) \<Rightarrow> length a = length b \<and> a = b
   | _ \<Rightarrow> False)"

section \<open>The listener for agent connections\<close>

text \<open>A listener owns the temporary directory of its socket.\<close>

datatype dir_event = DirMade string | DirRemoved string | ListenerMade | ListenerClosed

definition NewAgentListener :: "gerr + string \<Rightarrow> gerr option \<Rightarrow> (gerr + string) \<times> dir_event list" where
  "NewAgentListener made listen = (case made of
     Inl err \<Rightarrow> (Inl err, [])
   | Inr dir \<Rightarrow>
       (case listen of
          Some err \<Rightarrow> (Inl err, [DirMade dir, DirRemoved dir])
        | None \<Rightarrow> (Inr dir, [DirMade dir, ListenerMade])))"

definition agentListener_Close :: "gerr option \<Rightarrow> gerr option \<Rightarrow> string \<Rightarrow> gerr option \<times> dir_event list" where
  "agentListener_Close closeErr removeErr dir = (errors_Join [closeErr, removeErr], [ListenerClosed, DirRemoved dir])"

section \<open>What a setup does\<close>

text \<open>
  The source of a connection comes from a PROXY header under the configured policy, which without a \<open>ConnPolicy\<close>
  requires the header. Only a policy that says so lets a connection through as it is; a policy that fails, and a connection that
  is wrapped already, are refused. The timeout and the buffer size of \<open>go-proxyproto\<close> stay as they are unless
  they are configured, and a negative timeout switches it off.
\<close>

lemma proxy_headers_are_required:
  "case wrapProxyProtocolConn require skip conn config of
     Inl err \<Rightarrow> (\<exists>c opts. conn = ProxyConn c opts) \<or> (\<exists>c policy. conn = PlainConn c \<and> ConnPolicy config = Some policy \<and> snd (policy c) = Some err)
   | Inr (PlainConn c) \<Rightarrow> conn = PlainConn c \<and> (\<exists>policy. ConnPolicy config = Some policy \<and> policy c = (skip, None))
   | Inr (ProxyConn c opts) \<Rightarrow> conn = PlainConn c \<and> distinct opts
       \<and> {p. WithPolicy p \<in> set opts} = {case ConnPolicy config of None \<Rightarrow> require | Some policy \<Rightarrow> fst (policy c)}
       \<and> {v. ValidateHeader v \<in> set opts} = set_option (HeaderValidator config)
       \<and> {t. SetReadHeaderTimeout t \<in> set opts} = (if ReadHeaderTimeout config = 0 then {} else {max 0 (ReadHeaderTimeout config)})
       \<and> {n. WithBufferSize n \<in> set opts} = (if ReadBufferSize config > 0 then {ReadBufferSize config} else {})"
  by (auto simp: wrapProxyProtocolConn_def split: net_conn.splits option.splits prod.splits if_splits)

text \<open>The error of an option, and the host key that it adds, depend on the option only.\<close>

definition parsed_key :: "(bytes \<Rightarrow> gerr + signer) \<Rightarrow> gerr + bytes \<Rightarrow> gerr + signer" where
  "parsed_key parse pem = (case pem of Inl err \<Rightarrow> Inl err | Inr b \<Rightarrow> parse b)"

definition option_key :: "(string \<Rightarrow> gerr + bytes) \<Rightarrow> (bytes \<Rightarrow> gerr + signer) \<Rightarrow> server_option \<Rightarrow> (gerr + signer) option" where
  "option_key readFile parse opt = (case opt of
     HostKeyFile path \<Rightarrow> Some (parsed_key parse (readFile path))
   | HostKeyPEM pem \<Rightarrow> Some (parse pem)
   | _ \<Rightarrow> None)"



definition options_keys :: "(string \<Rightarrow> gerr + bytes) \<Rightarrow> (bytes \<Rightarrow> gerr + signer) \<Rightarrow> server_option list \<Rightarrow> signer list" where
  "options_keys readFile parse opts =
     List.map_filter (\<lambda>opt. case option_key readFile parse opt of Some (Inr key) \<Rightarrow> Some key | _ \<Rightarrow> None) opts"

text \<open>The value that the last option of a kind sets.\<close>

definition last_setting :: "(server_option \<Rightarrow> 'v option) \<Rightarrow> server_option list \<Rightarrow> 'v \<Rightarrow> 'v" where
  "last_setting f opts v = fold (\<lambda>opt v. case f opt of Some v' \<Rightarrow> v' | None \<Rightarrow> v) opts v"

lemma last_setting_simps [simp]:
  "last_setting f [] v = v"
  "last_setting f (opt # opts) v = last_setting f opts (case f opt of Some v' \<Rightarrow> v' | None \<Rightarrow> v)"
  by (simp_all add: last_setting_def)

fun password_setting :: "server_option \<Rightarrow> nat option option" where
  "password_setting (PasswordAuth fn) = Some fn" | "password_setting _ = None"
fun publicKey_setting :: "server_option \<Rightarrow> nat option option" where
  "publicKey_setting (PublicKeyAuth fn) = Some fn" | "publicKey_setting _ = None"
fun interactive_setting :: "server_option \<Rightarrow> nat option option" where
  "interactive_setting (KeyboardInteractiveAuth fn) = Some fn" | "interactive_setting _ = None"
fun graceful_setting :: "server_option \<Rightarrow> (nat \<Rightarrow> duration \<times> gerr option) option option" where
  "graceful_setting (WithGracefulShutdownHandler handler) = Some handler"
| "graceful_setting (WithGracefulShutdownTimeout timeout) = Some (Some (\<lambda>ctx. (timeout, None)))" | "graceful_setting _ = None"
fun proxy_setting :: "server_option \<Rightarrow> nat ProxyProtocolConfig option option" where
  "proxy_setting (EnableProxyProtocol config) = Some (Some (case config of [] \<Rightarrow> noProxyProtocol | c # _ \<Rightarrow> c))" | "proxy_setting _ = None"



text \<open>The server after some options, in terms of the server before them.\<close>

definition options_applied :: "(string \<Rightarrow> gerr + bytes) \<Rightarrow> (bytes \<Rightarrow> gerr + signer) \<Rightarrow> server_option list \<Rightarrow> server \<Rightarrow> server \<Rightarrow> bool" where
  "options_applied readFile parse opts srv srv' \<longleftrightarrow>
     srv_HostSigners srv' = fold AddHostKey (options_keys readFile parse opts) (srv_HostSigners srv)
     \<and> srv_PasswordHandler srv' = last_setting password_setting opts (srv_PasswordHandler srv)
     \<and> srv_PublicKeyHandler srv' = last_setting publicKey_setting opts (srv_PublicKeyHandler srv)
     \<and> srv_KeyboardInteractiveHandler srv' = last_setting interactive_setting opts (srv_KeyboardInteractiveHandler srv)
     \<and> srv_GracefulShutdownHandler srv' = last_setting graceful_setting opts (srv_GracefulShutdownHandler srv)
     \<and> srv_ProxyProtocol srv' = last_setting proxy_setting opts (srv_ProxyProtocol srv)
     \<and> srv_Handler srv' = srv_Handler srv \<and> srv_Addr srv' = srv_Addr srv"

lemma options_applied_Nil [simp]: "options_applied readFile parse [] srv srv"
  by (simp add: options_applied_def options_keys_def map_filter_simps)






end
