(* ===== verification/ConnTimeouts.thy ===== *)
theory ConnTimeouts
  imports Server
begin

text \<open>
  What \<open>handleConn\<close> makes of the configured timeouts and limits (\<open>server.go\<close>, \<open>conn.go\<close>): the deadlines of a connection
  and its \<open>serverConn\<close>, the two timers that cancel it, and its limiters. Times are in nanoseconds; the scope's
  counters have the addresses 0 (authenticated connections), 1 (channels) and 2 (reverse forwards).
\<close>

section \<open>Deadlines and timers\<close>

definition deadline_after :: "duration \<Rightarrow> int \<Rightarrow> time" where
  "deadline_after timeout acceptedAt = (if timeout > 0 then Some (acceptedAt + timeout) else None)"

text \<open>The deadlines for the handshake and for the whole connection, from the configured timeouts.\<close>

definition conn_deadlines :: "duration option \<Rightarrow> duration option \<Rightarrow> int \<Rightarrow> time \<times> time" where
  "conn_deadlines handshakeTimeout maxTimeout acceptedAt =
     (deadline_after (configuredDuration handshakeTimeout DefaultHandshakeTimeout) acceptedAt,
      deadline_after (configuredDuration maxTimeout DefaultMaxTimeout) acceptedAt)"

text \<open>The deadline of the transport before the callbacks, and the \<open>serverConn\<close> after them.\<close>

definition transport_deadline :: "duration option \<Rightarrow> duration option \<Rightarrow> int \<Rightarrow> time" where
  "transport_deadline handshakeTimeout maxTimeout acceptedAt =
     (case conn_deadlines handshakeTimeout maxTimeout acceptedAt of (hs, mx) \<Rightarrow> earliestDeadline [hs, mx])"

definition conn_new :: "duration option \<Rightarrow> duration option \<Rightarrow> duration option \<Rightarrow> int \<Rightarrow> int \<Rightarrow> serverConn" where
  "conn_new handshakeTimeout maxTimeout idleTimeout acceptedAt now =
     (case conn_deadlines handshakeTimeout maxTimeout acceptedAt of (hs, mx) \<Rightarrow>
        updateDeadline now \<lparr>sc_idleTimeout = configuredDuration idleTimeout DefaultIdleTimeout, sc_handshakeDeadline = hs,
          sc_maxDeadline = mx, sc_closeCanceler = True,
          sc_deadline = transport_deadline handshakeTimeout maxTimeout acceptedAt, sc_canceled = False, sc_closed = False\<rparr>)"

text \<open>When a timer of \<open>cancelAt\<close> fires, if there is one; and what the two timers do to the context.\<close>

definition cancelAt :: "time \<Rightarrow> int option" where
  "cancelAt deadline = deadline"

definition handshake_timer :: "nat \<Rightarrow> serveContext \<Rightarrow> gerr option" where
  "handshake_timer a scope = (if isHandshaking a scope then Some (Var ContextDeadlineExceeded) else None)"

definition max_timer :: "gerr option" where
  "max_timer = Some (Var ContextDeadlineExceeded)"

section \<open>Limiters\<close>

text \<open>The limiters of a connection; \<open>own\<close> is the address of its counter of reverse forwards, \<open>channels\<close> of its channels.\<close>

definition conn_channelLimiter :: "int option \<Rightarrow> int option \<Rightarrow> nat \<Rightarrow> connectionChannelLimiter" where
  "conn_channelLimiter maxChannelsPerConnection maxChannels channels =
     \<lparr>cl_limit = configuredLimit maxChannelsPerConnection DefaultMaxChannelsPerConnection, cl_active = channels,
      cl_global = [\<lparr>rl_limit = configuredLimit maxChannels DefaultMaxChannels, rl_active = Some 1\<rparr>]\<rparr>"

definition conn_forwardLimiter :: "int option \<Rightarrow> int option \<Rightarrow> nat \<Rightarrow> limiter" where
  "conn_forwardLimiter maxReverseForwardsPerConnection maxReverseForwards own =
     [\<lparr>rl_limit = configuredLimit maxReverseForwardsPerConnection DefaultMaxReverseForwardsPerConnection, rl_active = Some own\<rparr>,
      \<lparr>rl_limit = configuredLimit maxReverseForwards DefaultMaxReverseForwards, rl_active = Some 2\<rparr>]"

section \<open>A connection never outlives its deadlines\<close>

fun clears :: "conn_op \<Rightarrow> bool" where
  "clears (OpClearHandshake now) = True"
| "clears _ = False"

lemma handshake_until_cleared:
  "\<not> list_ex clears ops \<Longrightarrow> sc_handshakeDeadline (fold conn_step ops c) = sc_handshakeDeadline c"
proof (induction ops arbitrary: c)
  case (Cons opr ops)
  then have "sc_handshakeDeadline (conn_step opr c) = sc_handshakeDeadline c" by (cases opr) (auto simp: conn_defs Let_def)
  with Cons show ?case by simp
qed simp

lemma conn_new_updated:
  "\<exists>c. conn_new hs mx idle acceptedAt now = updateDeadline now c
     \<and> sc_handshakeDeadline c = deadline_after (configuredDuration hs DefaultHandshakeTimeout) acceptedAt
     \<and> sc_maxDeadline c = deadline_after (configuredDuration mx DefaultMaxTimeout) acceptedAt
     \<and> sc_idleTimeout c = configuredDuration idle DefaultIdleTimeout"
  by (auto simp: conn_new_def conn_deadlines_def intro!: exI)

lemma update_keeps:
  "sc_handshakeDeadline (updateDeadline now c) = sc_handshakeDeadline c" "sc_maxDeadline (updateDeadline now c) = sc_maxDeadline c"
  "sc_idleTimeout (updateDeadline now c) = sc_idleTimeout c"
  by (simp_all add: conn_defs Let_def)

lemma conn_fields:
  "sc_idleTimeout (fold conn_step ops c) = sc_idleTimeout c \<and> sc_maxDeadline (fold conn_step ops c) = sc_maxDeadline c"
  by (induction ops arbitrary: c) (auto simp: conn_step_fields)

lemma within_earliest:
  assumes "t \<in> set_times ts"
  shows "\<exists>d. earliestDeadline ts = Some d \<and> d \<le> t"
  using earliestDeadline_spec [of ts] assms by (auto split: option.splits)

text \<open>
  C39. A connection cannot outlive the configured timeouts, whatever it reads and writes: from its acceptance on the deadline of
  its transport is never later than the maximal time after the acceptance, nor, until the handshake is over,
  than the time for the handshake, both before and after the callbacks that may replace the transport. After
  the handshake only the maximal time and the idle timeout since the last update count. The timer for the handshake
  does nothing to a connection that has left its handshake.
\<close>

theorem connection_times_out:
  assumes "c = fold conn_step ops (conn_new hs mx idle acceptedAt now)"
    "h = configuredDuration hs DefaultHandshakeTimeout" "m = configuredDuration mx DefaultMaxTimeout" "i = configuredDuration idle DefaultIdleTimeout"
  shows "(0 < m \<longrightarrow> (\<exists>t. sc_deadline c = Some t \<and> t \<le> acceptedAt + m) \<and> (\<exists>t. transport_deadline hs mx acceptedAt = Some t \<and> t \<le> acceptedAt + m))
    \<and> (0 < h \<and> \<not> list_ex clears ops \<longrightarrow>
        (\<exists>t. sc_deadline c = Some t \<and> t \<le> acceptedAt + h) \<and> (\<exists>t. transport_deadline hs mx acceptedAt = Some t \<and> t \<le> acceptedAt + h))
    \<and> sc_deadline (clearHandshakeDeadline later c)
        = earliestDeadline [deadline_after m acceptedAt, if 0 < i then Some (later + i) else None]
    \<and> handshake_timer a (releaseStartup a scope) = None"
proof (intro conjI impI)
  obtain c0 where c0: "conn_new hs mx idle acceptedAt now = updateDeadline now c0" "sc_handshakeDeadline c0 = deadline_after h acceptedAt"
    "sc_maxDeadline c0 = deadline_after m acceptedAt" "sc_idleTimeout c0 = i"
    using conn_new_updated [of hs mx idle acceptedAt now] assms(2-4) by auto
  have c: "c = fold conn_step ops (updateDeadline now c0)" using assms(1) c0(1) by simp
  note bounded = connection_deadline_enforced [OF c]
  have fields: "sc_idleTimeout c = i" "sc_maxDeadline c = deadline_after m acceptedAt"
    unfolding c using conn_fields [of ops "updateDeadline now c0"] c0(3,4) by (simp_all add: update_keeps)
  have start: "t \<in> set_times [deadline_after h acceptedAt, deadline_after m acceptedAt] \<Longrightarrow> \<exists>d. transport_deadline hs mx acceptedAt = Some d \<and> d \<le> t" for t
    using within_earliest by (simp add: transport_deadline_def conn_deadlines_def assms(2,3))
  {
    assume pos: "0 < m"
    show "\<exists>t. sc_deadline c = Some t \<and> t \<le> acceptedAt + m" using bounded c0(3) pos by (simp add: deadline_after_def)
    show "\<exists>t. transport_deadline hs mx acceptedAt = Some t \<and> t \<le> acceptedAt + m" using start pos by (simp add: set_times_def deadline_after_def)
  }
  {
    assume pos: "0 < h \<and> \<not> list_ex clears ops"
    then have "sc_handshakeDeadline c = Some (acceptedAt + h)"
      unfolding c using handshake_until_cleared [of ops "updateDeadline now c0"] c0(2) by (simp add: update_keeps deadline_after_def)
    then show "\<exists>t. sc_deadline c = Some t \<and> t \<le> acceptedAt + h" using bounded by simp
    show "\<exists>t. transport_deadline hs mx acceptedAt = Some t \<and> t \<le> acceptedAt + h" using start pos by (simp add: set_times_def deadline_after_def)
  }
  show "sc_deadline (clearHandshakeDeadline later c) = earliestDeadline [deadline_after m acceptedAt, if 0 < i then Some (later + i) else None]"
    by (simp add: clearHandshakeDeadline_def updateDeadlineLocked_earliest fields earliestDeadline_def)
  show "handshake_timer a (releaseStartup a scope) = None"
    by (auto simp: handshake_timer_def isHandshaking_def releaseStartup_def Let_def)
qed

theorem connection_times_out_witness:
  "\<exists>t. sc_deadline (fold conn_step [OpRead 90 None] (conn_new (Some 50) (Some 100) (Some 30) 10 20)) = Some t \<and> t \<le> 60"
  using connection_times_out [of _ "[OpRead 90 None]" "Some 50" "Some 100" "Some 30" 10 20 50 100 30, OF refl]
  by (simp add: configuredDuration_def)

end
