(* ===== verification/ContextTree.thy ===== *)
theory ContextTree
  imports Contexts GoErrors
begin

text \<open>
  The cancellation of contexts: which context ends with which. The package derives contexts in three places, for a
  connection (\<open>newContextWithParent\<close> in \<open>context.go\<close>), for the requests of a forwarded channel
  (\<open>contextForChannelRequests\<close> in \<open>tcpip.go\<close>) and for the decision about a deferred subsystem
  (\<open>waitDeferredSubsystem\<close> and \<open>deferredSessionContext\<close> in \<open>session.go\<close>); the application derives its own from any
  of them. The values of a context are in \<open>Contexts\<close>.
\<close>

section \<open>Contexts of the standard library\<close>

datatype context_role = ApplicationContext | ConnectionContext | ChannelRequestsContext | DecisionContext

text \<open>
  A context is known by its position in the list of all contexts made so far. \<open>cn_follows\<close> is the context whose
  end ends this one, \<open>None\<close> for a context without one; \<open>cn_err\<close> and \<open>cn_cause\<close> are what \<open>Err\<close> and
  \<open>context.Cause\<close> return, nil until it is canceled.
\<close>

record context_node =
  cn_role :: context_role
  cn_follows :: "nat option"
  cn_deadline :: "int option"
  cn_err :: "gerr option"
  cn_cause :: "gerr option"

type_synonym contexts = "context_node list"

definition ctx_Err :: "contexts \<Rightarrow> nat \<Rightarrow> gerr option" where
  "ctx_Err ctxs i = cn_err (ctxs ! i)"

definition ctx_Cause :: "contexts \<Rightarrow> nat \<Rightarrow> gerr option" where
  "ctx_Cause ctxs i = cn_cause (ctxs ! i)"

definition ctx_Deadline :: "contexts \<Rightarrow> nat \<Rightarrow> int option" where
  "ctx_Deadline ctxs i = cn_deadline (ctxs ! i)"

text \<open>What a context derived from \<open>context.WithoutCancel(parent)\<close> follows: nothing.\<close>

definition WithoutCancel :: "nat option \<Rightarrow> nat option" where
  "WithoutCancel parent = None"

text \<open>
  \<open>context.WithDeadline\<close>, \<open>context.WithCancel\<close> and \<open>context.WithCancelCause\<close>: the earlier deadline
  counts, and a context derived from a canceled one is canceled.
\<close>

fun earlier :: "int option \<Rightarrow> int option \<Rightarrow> int option" where
  "earlier None d = d"
| "earlier d None = d"
| "earlier (Some a) (Some b) = Some (min a b)"

definition derive :: "context_role \<Rightarrow> nat option \<Rightarrow> int option \<Rightarrow> contexts \<Rightarrow> contexts" where
  "derive role parent d ctxs = ctxs @
     [\<lparr>cn_role = role, cn_follows = parent,
       cn_deadline = earlier d (Option.bind parent (ctx_Deadline ctxs)),
       cn_err = Option.bind parent (ctx_Err ctxs),
       cn_cause = Option.bind parent (ctx_Cause ctxs)\<rparr>]"

definition WithCancelCause :: "context_role \<Rightarrow> nat option \<Rightarrow> contexts \<Rightarrow> contexts" where
  "WithCancelCause role parent ctxs = derive role parent None ctxs"

function follows :: "contexts \<Rightarrow> nat \<Rightarrow> nat \<Rightarrow> bool" where
  "follows ctxs i j \<longleftrightarrow> i = j \<or>
     (case cn_follows (ctxs ! j) of None \<Rightarrow> False | Some p \<Rightarrow> if p < j then follows ctxs i p else False)"
  by pat_completeness auto
termination
  by (relation "measure (\<lambda>(_, _, j). j)") auto

declare follows.simps [simp del]

text \<open>Canceling ends a context and all that follow it; the first cancellation of a context counts.\<close>

definition cancel_context :: "nat \<Rightarrow> gerr \<Rightarrow> gerr \<Rightarrow> contexts \<Rightarrow> contexts" where
  "cancel_context i err cause ctxs =
     (if ctx_Err ctxs i \<noteq> None then ctxs
      else map (\<lambda>j. if follows ctxs i j \<and> ctx_Err ctxs j = None
                    then (ctxs ! j)\<lparr>cn_err := Some err, cn_cause := Some cause\<rparr> else ctxs ! j) [0..<length ctxs])"

section \<open>Contexts of the package\<close>

text \<open>A connection's context has the values of the context given to \<open>Serve\<close>, not its end.\<close>

definition newConnectionContext :: "nat option \<Rightarrow> contexts \<Rightarrow> contexts" where
  "newConnectionContext parent ctxs = WithCancelCause ConnectionContext (WithoutCancel parent) ctxs"

definition newContext :: "contexts \<Rightarrow> contexts" where
  "newContext ctxs = newConnectionContext None ctxs"

text \<open>\<open>cancelCause\<close>; \<open>cancel\<close> of \<open>handleConn\<close> and of \<open>newContext\<close> gives \<open>context.Canceled\<close> as the cause.\<close>

definition cancelCause :: "nat \<Rightarrow> gerr \<Rightarrow> contexts \<Rightarrow> contexts" where
  "cancelCause i cause ctxs = cancel_context i (Var ContextCanceled) cause ctxs"

definition conn_cancel :: "nat \<Rightarrow> contexts \<Rightarrow> contexts" where
  "conn_cancel i ctxs = cancelCause i (Var ContextCanceled) ctxs"

definition contextForChannelRequests :: "nat \<Rightarrow> contexts \<Rightarrow> contexts" where
  "contextForChannelRequests ctx ctxs = WithCancelCause ChannelRequestsContext (Some ctx) ctxs"

text \<open>The goroutine in it, once the channel has no more requests, and the function it returns.\<close>

definition channel_cancel :: "nat \<Rightarrow> contexts \<Rightarrow> contexts" where
  "channel_cancel i ctxs = cancelCause i (Var ContextCanceled) ctxs"

definition decisionContext :: "nat \<Rightarrow> contexts \<Rightarrow> contexts" where
  "decisionContext ctx ctxs = WithCancelCause DecisionContext (Some ctx) ctxs"

definition decision_cancel :: "nat \<Rightarrow> contexts \<Rightarrow> contexts" where
  "decision_cancel i ctxs = cancelCause i (Var ContextCanceled) ctxs"

text \<open>The context of a session with a deferred subsystem: it ends with the decision.\<close>

record deferredSessionContext =
  ds_Context :: nat
  ds_decision :: nat

definition deferred_Err :: "deferredSessionContext \<Rightarrow> contexts \<Rightarrow> gerr option" where
  "deferred_Err c ctxs = ctx_Err ctxs (ds_decision c)"

definition deferred_Deadline :: "deferredSessionContext \<Rightarrow> contexts \<Rightarrow> int option" where
  "deferred_Deadline c ctxs = ctx_Deadline ctxs (ds_decision c)"

section \<open>Executions\<close>

text \<open>
  What may happen to the contexts of a server: the application derives contexts, with or without a deadline, and ends
  them, with an error and a cause; connections are accepted and canceled, by their end, by a timer or by
  a forced stop; channels and decisions come and go. An event about a context that does not exist is impossible.
\<close>

datatype context_event =
    MakeContext "nat option" "int option"
  | EndContext nat gerr gerr
  | AcceptConnection "nat option"
  | CancelConnection nat gerr
  | OpenChannel nat
  | CancelChannel nat
  | DeferDecision nat
  | CancelDecision nat

definition has_role :: "contexts \<Rightarrow> context_role \<Rightarrow> nat \<Rightarrow> bool" where
  "has_role ctxs r i \<longleftrightarrow> i < length ctxs \<and> cn_role (ctxs ! i) = r"

definition exists_context :: "contexts \<Rightarrow> nat option \<Rightarrow> bool" where
  "exists_context ctxs p \<longleftrightarrow> (case p of None \<Rightarrow> True | Some i \<Rightarrow> i < length ctxs)"

fun context_step :: "context_event \<Rightarrow> contexts \<Rightarrow> contexts option" where
  "context_step (MakeContext p d) ctxs =
     (if exists_context ctxs p then Some (derive ApplicationContext p d ctxs) else None)"
| "context_step (EndContext i e c) ctxs =
     (if has_role ctxs ApplicationContext i then Some (cancel_context i e c ctxs) else None)"
| "context_step (AcceptConnection p) ctxs =
     (if exists_context ctxs p then Some (newConnectionContext p ctxs) else None)"
| "context_step (CancelConnection i c) ctxs =
     (if has_role ctxs ConnectionContext i then Some (cancelCause i c ctxs) else None)"
| "context_step (OpenChannel p) ctxs =
     (if p < length ctxs then Some (contextForChannelRequests p ctxs) else None)"
| "context_step (CancelChannel i) ctxs =
     (if has_role ctxs ChannelRequestsContext i then Some (channel_cancel i ctxs) else None)"
| "context_step (DeferDecision p) ctxs =
     (if p < length ctxs then Some (decisionContext p ctxs) else None)"
| "context_step (CancelDecision i) ctxs =
     (if has_role ctxs DecisionContext i then Some (decision_cancel i ctxs) else None)"

fun context_run :: "context_event list \<Rightarrow> contexts \<Rightarrow> contexts option" where
  "context_run [] ctxs = Some ctxs"
| "context_run (e # es) ctxs = Option.bind (context_step e ctxs) (context_run es)"

text \<open>The context an event cancels, and the cause it gives.\<close>

fun cancels :: "context_event \<Rightarrow> (nat \<times> gerr) option" where
  "cancels (EndContext i e c) = Some (i, c)"
| "cancels (CancelConnection i c) = Some (i, c)"
| "cancels (CancelChannel i) = Some (i, Var ContextCanceled)"
| "cancels (CancelDecision i) = Some (i, Var ContextCanceled)"
| "cancels _ = None"

text \<open>The cause that an event gives a context, by canceling it or one that it follows.\<close>

definition cause_given :: "contexts \<Rightarrow> nat \<Rightarrow> context_event \<Rightarrow> gerr option" where
  "cause_given ctxs j e =
     (case cancels e of Some (i, c) \<Rightarrow> if follows ctxs i j then Some c else None | None \<Rightarrow> None)"

section \<open>Well-formed contexts\<close>

definition contexts_wf :: "contexts \<Rightarrow> bool" where
  "contexts_wf ctxs \<longleftrightarrow> (\<forall>j < length ctxs.
     (\<forall>p. cn_follows (ctxs ! j) = Some p \<longrightarrow> p < j \<and> (ctx_Err ctxs p \<noteq> None \<longrightarrow> ctx_Err ctxs j \<noteq> None))
     \<and> (cn_err (ctxs ! j) = None \<longleftrightarrow> cn_cause (ctxs ! j) = None)
     \<and> (cn_role (ctxs ! j) = ConnectionContext \<longrightarrow> cn_follows (ctxs ! j) = None \<and> cn_deadline (ctxs ! j) = None))"

lemma follows_refl [simp]: "follows ctxs i i"
  by (simp add: follows.simps)

lemma follows_le: "follows ctxs i j \<Longrightarrow> i \<le> j"
proof (induction j rule: less_induct)
  case (less j)
  show ?case
  proof (cases "i = j")
    case False
    with less.prems obtain p where "p < j" "follows ctxs i p"
      by (auto simp: follows.simps [of ctxs i j] split: option.splits if_splits)
    with less.IH show ?thesis by fastforce
  qed simp
qed

lemma follows_cong: "(\<And>k. k \<le> j \<Longrightarrow> cn_follows (ctxs' ! k) = cn_follows (ctxs ! k)) \<Longrightarrow> follows ctxs' i j = follows ctxs i j"
proof (induction j rule: less_induct)
  case (less j)
  have "follows ctxs' i p = follows ctxs i p" if "p < j" for p
    using less.IH [OF that] less.prems that by simp
  then show ?case
    by (subst (1 2) follows.simps) (simp add: less.prems split: option.splits)
qed

lemma follows_canceled:
  "contexts_wf ctxs \<Longrightarrow> j < length ctxs \<Longrightarrow> follows ctxs i j \<Longrightarrow> ctx_Err ctxs i \<noteq> None \<Longrightarrow> ctx_Err ctxs j \<noteq> None"
proof (induction j rule: less_induct)
  case (less j)
  show ?case
  proof (cases "i = j")
    case False
    with less.prems obtain p where "cn_follows (ctxs ! j) = Some p" "p < j" "follows ctxs i p"
      by (auto simp: follows.simps [of ctxs i j] split: option.splits if_splits)
    with less show ?thesis by (metis contexts_wf_def order_less_trans)
  qed (use less.prems in simp)
qed

lemma length_derive [simp]: "length (derive r p d ctxs) = Suc (length ctxs)"
  by (simp add: derive_def)

lemma length_cancel [simp]: "length (cancel_context i e c ctxs) = length ctxs"
  by (simp add: cancel_context_def)

lemma derive_old: "j < length ctxs \<Longrightarrow> derive r p d ctxs ! j = ctxs ! j"
  by (simp add: derive_def nth_append)

lemma derive_new: "cn_follows (derive r p d ctxs ! length ctxs) = p" "cn_role (derive r p d ctxs ! length ctxs) = r"
  "cn_err (derive r p d ctxs ! length ctxs) = Option.bind p (ctx_Err ctxs)"
  "cn_cause (derive r p d ctxs ! length ctxs) = Option.bind p (ctx_Cause ctxs)"
  "cn_deadline (derive r p d ctxs ! length ctxs) = earlier d (Option.bind p (ctx_Deadline ctxs))"
  by (simp_all add: derive_def)

lemma cancel_nth: "j < length ctxs \<Longrightarrow> cancel_context i e c ctxs ! j =
   (if ctx_Err ctxs i = None \<and> follows ctxs i j \<and> ctx_Err ctxs j = None
    then (ctxs ! j)\<lparr>cn_err := Some e, cn_cause := Some c\<rparr> else ctxs ! j)"
  by (simp add: cancel_context_def)

lemma cancel_same [simp]: "j < length ctxs \<Longrightarrow> cn_follows (cancel_context i e c ctxs ! j) = cn_follows (ctxs ! j)"
  "j < length ctxs \<Longrightarrow> cn_role (cancel_context i e c ctxs ! j) = cn_role (ctxs ! j)"
  "j < length ctxs \<Longrightarrow> cn_deadline (cancel_context i e c ctxs ! j) = cn_deadline (ctxs ! j)"
  by (simp_all add: cancel_nth)

lemma follows_parent: "cn_follows (ctxs ! j) = Some p \<Longrightarrow> p < j \<Longrightarrow> follows ctxs i p \<Longrightarrow> follows ctxs i j"
  by (subst follows.simps) simp

lemma derive_wf:
  "contexts_wf ctxs \<Longrightarrow> exists_context ctxs p \<Longrightarrow> (r = ConnectionContext \<Longrightarrow> p = None \<and> d = None) \<Longrightarrow>
   contexts_wf (derive r p d ctxs)"
  unfolding contexts_wf_def ctx_Err_def
  by (auto simp: less_Suc_eq derive_old derive_new exists_context_def ctx_Err_def ctx_Cause_def split: option.splits)

lemma cancel_wf: "contexts_wf ctxs \<Longrightarrow> contexts_wf (cancel_context i e c ctxs)"
proof -
  assume wf: "contexts_wf ctxs"
  show ?thesis
    unfolding contexts_wf_def
  proof (intro allI impI conjI)
    fix j p
    assume j: "j < length (cancel_context i e c ctxs)" and p: "cn_follows (cancel_context i e c ctxs ! j) = Some p"
    then have jp: "j < length ctxs" "cn_follows (ctxs ! j) = Some p" by simp_all
    with wf show "p < j" by (auto simp: contexts_wf_def)
    assume err: "ctx_Err (cancel_context i e c ctxs) p \<noteq> None"
    have up: "ctx_Err ctxs p \<noteq> None \<Longrightarrow> ctx_Err ctxs j \<noteq> None"
      using wf jp by (auto simp: contexts_wf_def)
    have "p < length ctxs" using \<open>p < j\<close> jp by simp
    with err up jp \<open>p < j\<close> show "ctx_Err (cancel_context i e c ctxs) j \<noteq> None"
      by (auto simp: ctx_Err_def cancel_nth follows_parent split: if_splits)
  qed (use wf in \<open>auto simp: contexts_wf_def cancel_nth\<close>)
qed

lemma newConnection_derive: "newConnectionContext p ctxs = derive ConnectionContext None None ctxs"
  by (simp add: newConnectionContext_def WithCancelCause_def WithoutCancel_def)

lemmas context_ops = contextForChannelRequests_def decisionContext_def WithCancelCause_def newConnection_derive
  cancelCause_def channel_cancel_def decision_cancel_def

lemma step_cases:
  assumes "context_step ev ctxs = Some ctxs'"
  obtains (derives) r p d where "ctxs' = derive r p d ctxs" "exists_context ctxs p" "cancels ev = None"
      "r = ConnectionContext \<Longrightarrow> p = None \<and> d = None"
    | (cancels) i e c where "ctxs' = cancel_context i e c ctxs" "i < length ctxs" "cancels ev = Some (i, c)"
      "cn_role (ctxs ! i) = ConnectionContext \<Longrightarrow> ev = CancelConnection i c"
  using assms by (cases ev) (fastforce simp: context_ops exists_context_def has_role_def split: if_splits)+

lemma step_wf: "context_step ev ctxs = Some ctxs' \<Longrightarrow> contexts_wf ctxs \<Longrightarrow> contexts_wf ctxs'"
  by (erule step_cases) (auto intro: derive_wf cancel_wf)

lemma step_length: "context_step ev ctxs = Some ctxs' \<Longrightarrow> length ctxs \<le> length ctxs'"
  by (erule step_cases) auto

lemma step_role: "context_step ev ctxs = Some ctxs' \<Longrightarrow> j < length ctxs \<Longrightarrow> cn_role (ctxs' ! j) = cn_role (ctxs ! j)"
  by (erule step_cases) (auto simp: derive_old)

lemma step_follows: "context_step ev ctxs = Some ctxs' \<Longrightarrow> j < length ctxs \<Longrightarrow> follows ctxs' i j = follows ctxs i j"
  by (erule step_cases) (auto intro!: follows_cong simp: derive_old)

lemma step_parent: "context_step ev ctxs = Some ctxs' \<Longrightarrow> contexts_wf ctxs \<Longrightarrow> length ctxs = n \<Longrightarrow> n < length ctxs' \<Longrightarrow>
   follows ctxs' i n \<longleftrightarrow> i = n \<or> (\<exists>p < n. cn_follows (ctxs' ! n) = Some p \<and> follows ctxs i p)"
  using step_follows [of ev ctxs ctxs']
  by (subst follows.simps) (auto split: option.splits)

section \<open>The cause of a cancellation\<close>

lemma run_append: "context_run (es @ fs) ctxs = Option.bind (context_run es ctxs) (context_run fs)"
  by (induction es arbitrary: ctxs) (simp_all split: Option.bind_splits)

lemma run_snoc:
  "context_run (es @ [e]) ctxs = Some ctxs' \<longleftrightarrow> (\<exists>mid. context_run es ctxs = Some mid \<and> context_step e mid = Some ctxs')"
  by (auto simp: run_append split: Option.bind_splits)

lemma run_wf: "context_run es [] = Some ctxs \<Longrightarrow> contexts_wf ctxs"
proof (induction es arbitrary: ctxs rule: rev_induct)
  case Nil
  then show ?case by (simp add: contexts_wf_def)
next
  case (snoc e es)
  then show ?case by (auto simp: run_snoc intro: step_wf)
qed

lemma first_some_append:
  "first_some f (xs @ ys) = (case first_some f xs of None \<Rightarrow> first_some f ys | Some y \<Rightarrow> Some y)"
  by (induction xs) (simp_all split: option.splits)

lemma canceled_exist:
  "context_run es [] = Some ctxs \<Longrightarrow> e \<in> set es \<Longrightarrow> cancels e = Some (i, c) \<Longrightarrow>
   i < length ctxs \<and> (cn_role (ctxs ! i) = ConnectionContext \<longrightarrow> e = CancelConnection i c)"
proof (induction es arbitrary: ctxs rule: rev_induct)
  case (snoc e' es)
  then obtain mid where mid: "context_run es [] = Some mid" "context_step e' mid = Some ctxs" by (auto simp: run_snoc)
  have "i < length mid \<and> (cn_role (mid ! i) = ConnectionContext \<longrightarrow> e = CancelConnection i c)"
  proof (cases "e = e'")
    case True
    with mid snoc.prems show ?thesis by (auto elim: step_cases)
  qed (use snoc mid in auto)
  with step_length [OF mid(2)] step_role [OF mid(2)] show ?case by fastforce
qed simp

lemma first_some_eq: "(\<And>x. x \<in> set xs \<Longrightarrow> f x = g x) \<Longrightarrow> first_some f xs = first_some g xs"
  by (rule first_some_cong) simp_all

lemma cause_given_old:
  "context_step ev ctxs = Some ctxs' \<Longrightarrow> j < length ctxs \<Longrightarrow> cause_given ctxs' j = cause_given ctxs j"
  by (simp add: cause_given_def step_follows fun_eq_iff split: option.splits)

lemma cause_given_new:
  assumes "context_run es [] = Some ctxs" and "e \<in> set es" and "exists_context ctxs p"
  shows "cause_given (derive r p d ctxs) (length ctxs) e = Option.bind p (\<lambda>q. cause_given ctxs q e)"
proof -
  have "follows (derive r p d ctxs) i (length ctxs) \<longleftrightarrow> (\<exists>q. p = Some q \<and> follows ctxs i q)" if "i < length ctxs" for i
  proof -
    have "follows (derive r p d ctxs) i q = follows ctxs i q" if "q < length ctxs" for q
      using that by (intro follows_cong) (simp add: derive_old)
    with that assms(3) show ?thesis
      by (subst follows.simps) (auto simp: derive_new exists_context_def split: option.splits)
  qed
  then show ?thesis
    using canceled_exist [OF assms(1,2)]
    by (cases p) (auto simp: cause_given_def split: option.splits)
qed

lemma cause_of_context:
  "context_run es [] = Some ctxs \<Longrightarrow> j < length ctxs \<Longrightarrow> ctx_Cause ctxs j = first_some (cause_given ctxs j) es"
proof (induction es arbitrary: ctxs j rule: rev_induct)
  case (snoc ev es)
  then obtain mid where run: "context_run es [] = Some mid" and ev: "context_step ev mid = Some ctxs"
    by (auto simp: run_snoc)
  have wf: "contexts_wf mid" using run by (rule run_wf)
  have old: "ctx_Cause mid k = first_some (cause_given ctxs k) es" if "k < length mid" for k
    using snoc.IH [OF run that] cause_given_old [OF ev that] by simp
  from ev show ?case
  proof (cases rule: step_cases)
    case (derives r p d)
    then have none: "cause_given ctxs j ev = None" for j by (simp add: cause_given_def)
    show ?thesis
    proof (cases "j < length mid")
      case True
      with derives old [OF True] none show ?thesis
        by (simp add: first_some_append ctx_Cause_def derive_old split: option.splits)
    next
      case False
      with snoc.prems derives have j: "j = length mid" by simp
      have "first_some (cause_given ctxs j) es = first_some (\<lambda>e. Option.bind p (\<lambda>q. cause_given mid q e)) es"
        using cause_given_new [OF run _ derives(2)] by (intro first_some_eq) (simp add: j derives(1))
      also have "\<dots> = Option.bind p (ctx_Cause mid)"
        using snoc.IH [OF run] derives(2) by (cases p) (auto simp: exists_context_def first_some_None)
      finally show ?thesis
        using none [of j] by (simp add: first_some_append j derives(1) ctx_Cause_def derive_new split: option.splits)
    qed
  next
    case (cancels i e c)
    with snoc.prems have j: "j < length mid" by simp
    have given: "cause_given ctxs j ev = (if follows mid i j then Some c else None)"
      using cause_given_old [OF ev j] by (simp add: cause_given_def cancels(3))
    have errs: "ctx_Err mid j = None \<longleftrightarrow> ctx_Cause mid j = None" "follows mid i j \<Longrightarrow> ctx_Err mid i \<noteq> None \<Longrightarrow> ctx_Err mid j \<noteq> None"
      using wf j follows_canceled [OF wf j] by (auto simp: contexts_wf_def ctx_Err_def ctx_Cause_def)
    have "ctx_Cause ctxs j = (case ctx_Cause mid j of Some y \<Rightarrow> Some y | None \<Rightarrow> if follows mid i j then Some c else None)"
      using errs j by (auto simp: cancels(1) ctx_Cause_def cancel_nth split: option.splits)
    then show ?thesis
      by (simp add: first_some_append old [OF j, symmetric] given split: option.splits)
  qed
qed simp

lemma connection_follows_itself:
  "contexts_wf ctxs \<Longrightarrow> n < length ctxs \<Longrightarrow> cn_role (ctxs ! n) = ConnectionContext \<Longrightarrow> follows ctxs i n \<longleftrightarrow> i = n"
  by (subst follows.simps) (auto simp: contexts_wf_def)

text \<open>
  C22. The context of a connection is detached from the context given to \<open>Serve\<close>. Whatever contexts an application derives, cancels
  or gives a deadline, in whatever order connections, channels and decisions come and go: a connection's context
  has no deadline and is canceled exactly when one of its own cancellations has happened, with the cause of the first; every
  other context has the cause of the first cancellation of a context that it follows, so a
  channel, a deferred decision and any context the application derives in a handler end with their connection; and \<open>Err\<close> and
  \<open>context.Cause\<close> agree on whether a context has ended.
\<close>

theorem connections_outlive_the_serve_context:
  assumes "context_run es [] = Some ctxs"
  shows "\<forall>j < length ctxs.
      ctx_Cause ctxs j = first_some (cause_given ctxs j) es
      \<and> (ctx_Err ctxs j = None \<longleftrightarrow> ctx_Cause ctxs j = None)
      \<and> (has_role ctxs ConnectionContext j \<longrightarrow> ctx_Deadline ctxs j = None
           \<and> ctx_Cause ctxs j = first_some (\<lambda>e. case e of CancelConnection i c \<Rightarrow> if i = j then Some c else None | _ \<Rightarrow> None) es)
      \<and> (\<forall>i < length ctxs. follows ctxs i j \<and> ctx_Err ctxs i \<noteq> None \<longrightarrow> ctx_Err ctxs j \<noteq> None)"
proof (intro allI impI conjI)
  fix j
  assume j: "j < length ctxs"
  have wf: "contexts_wf ctxs" using assms by (rule run_wf)
  show cause: "ctx_Cause ctxs j = first_some (cause_given ctxs j) es" using assms j by (rule cause_of_context)
  show "ctx_Err ctxs j = None \<longleftrightarrow> ctx_Cause ctxs j = None"
    using wf j by (simp add: contexts_wf_def ctx_Err_def ctx_Cause_def)
  show "ctx_Err ctxs j \<noteq> None" if "i < length ctxs" "follows ctxs i j \<and> ctx_Err ctxs i \<noteq> None" for i
    using follows_canceled [OF wf j] that by blast
  assume conn: "has_role ctxs ConnectionContext j"
  then show "ctx_Deadline ctxs j = None" using wf by (simp add: contexts_wf_def has_role_def ctx_Deadline_def)
  have "cause_given ctxs j e = (case e of CancelConnection i c \<Rightarrow> if i = j then Some c else None | _ \<Rightarrow> None)" if "e \<in> set es" for e
    using canceled_exist [OF assms that] conn connection_follows_itself [OF wf j]
    by (cases e) (auto simp: cause_given_def has_role_def)
  then show "ctx_Cause ctxs j = first_some (\<lambda>e. case e of CancelConnection i c \<Rightarrow> if i = j then Some c else None | _ \<Rightarrow> None) es"
    by (simp add: cause cong: first_some_cong)
qed

text \<open>
  A server with a context that has a deadline and one connection with a forwarded channel: the deadline and the cancellation of the server's
  context leave the connection alone, a forced stop ends it and the channel, and its own end comes too late to change the cause.
\<close>

abbreviation sample_context_events :: "context_event list" where
  "sample_context_events \<equiv> [MakeContext None (Some 5), AcceptConnection (Some 0), OpenChannel 1,
     EndContext 0 (Var ContextDeadlineExceeded) (Opaque 1), CancelConnection 1 (Opaque 2), CancelConnection 1 (Var ContextCanceled)]"

abbreviation sample_contexts :: contexts where
  "sample_contexts \<equiv>
     [\<lparr>cn_role = ApplicationContext, cn_follows = None, cn_deadline = Some 5, cn_err = Some (Var ContextDeadlineExceeded), cn_cause = Some (Opaque 1)\<rparr>,
      \<lparr>cn_role = ConnectionContext, cn_follows = None, cn_deadline = None, cn_err = Some (Var ContextCanceled), cn_cause = Some (Opaque 2)\<rparr>,
      \<lparr>cn_role = ChannelRequestsContext, cn_follows = Some 1, cn_deadline = None, cn_err = Some (Var ContextCanceled), cn_cause = Some (Opaque 2)\<rparr>]"

lemma sample_context_run: "context_run sample_context_events [] = Some sample_contexts"
  by (simp add: derive_def cancel_context_def context_ops exists_context_def has_role_def ctx_Err_def ctx_Cause_def ctx_Deadline_def
      upt_rec follows.simps)

theorem connections_outlive_the_serve_context_witness:
  "context_run sample_context_events [] = Some sample_contexts \<and> ctx_Deadline sample_contexts 1 = None
     \<and> ctx_Cause sample_contexts 1 = Some (Opaque 2) \<and> ctx_Err sample_contexts 1 \<noteq> None"
proof -
  have "has_role sample_contexts ConnectionContext 1" by (simp add: has_role_def)
  with connections_outlive_the_serve_context [OF sample_context_run, THEN spec, of 1]
  have "ctx_Deadline sample_contexts 1 = None \<and> ctx_Cause sample_contexts 1 = Some (Opaque 2) \<and> ctx_Err sample_contexts 1 \<noteq> None"
    by (auto simp: ctx_Deadline_def)
  with sample_context_run show ?thesis by blast
qed

text \<open>\<open>Err\<close> of the context of a session with a deferred subsystem: set once the decision is canceled or the connection has ended.\<close>

lemma deferred_context_ends:
  assumes "context_run es [] = Some ctxs" and "ds_decision c < length ctxs"
  shows "deferred_Err c ctxs \<noteq> None \<longleftrightarrow> (\<exists>e \<in> set es. cause_given ctxs (ds_decision c) e \<noteq> None)"
  using cause_of_context [OF assms] run_wf [OF assms(1)] assms(2)
  by (auto simp: deferred_Err_def contexts_wf_def ctx_Err_def ctx_Cause_def first_some_None)

end
