(* ===== verification/SessionViews.thy ===== *)
theory SessionViews
  imports Codec Contexts GoErrors
begin

text \<open>
  What a handler gets from its session (\<open>session.go\<close>): \<open>Permissions\<close>, \<open>Pty\<close>, \<open>Environ\<close>, \<open>Command\<close> and the plain getters. Maps and slices
  are references, so whether the handler can change the session through what it gets depends on what is
  copied. The model has an explicit store of the maps, arrays and structs involved.
\<close>

section \<open>The store\<close>

text \<open>
  A map of \<open>ExtraData\<close> takes interface values to interface values, each known by a number; its values are not cloned. \<open>PermissionsCell\<close> is
  a \<open>gossh.Permissions\<close> with its maps \<open>CriticalOptions\<close>, \<open>Extensions\<close> and \<open>ExtraData\<close>; \<open>Strings\<close> is the array behind a slice of strings.
\<close>

type_synonym ref = "nat option"

datatype cell =
    TextMap "string \<rightharpoonup> string"
  | ValueMap "nat \<rightharpoonup> nat"
  | ModeMap "uint8 \<rightharpoonup> uint32"
  | Strings "string list"
  | PermissionsCell ref ref ref

record heap =
  hp_next :: nat
  hp_cells :: "nat \<rightharpoonup> cell"

definition load :: "heap \<Rightarrow> ref \<Rightarrow> cell option" where
  "load h r = Option.bind r (hp_cells h)"

definition store :: "nat \<Rightarrow> cell \<Rightarrow> heap \<Rightarrow> heap" where
  "store a c h = h\<lparr>hp_cells := (hp_cells h)(a \<mapsto> c)\<rparr>"

definition alloc :: "cell \<Rightarrow> heap \<Rightarrow> ref \<times> heap" where
  "alloc c h = (Some (hp_next h), \<lparr>hp_next = Suc (hp_next h), hp_cells = (hp_cells h)(hp_next h \<mapsto> c)\<rparr>)"

text \<open>\<open>maps.Clone\<close>: nil of a nil map, otherwise a new map with the same entries.\<close>

definition maps_Clone :: "ref \<Rightarrow> heap \<Rightarrow> ref \<times> heap" where
  "maps_Clone r h = (case load h r of None \<Rightarrow> (None, h) | Some c \<Rightarrow> alloc c h)"

text \<open>A slice of strings: its array, if it has one, and its length. The array may be longer: its capacity.\<close>

type_synonym slice = "ref \<times> nat"

text \<open>\<open>append([]string(nil), xs...)\<close>: nil when there is nothing to append.\<close>

definition copy_strings :: "string list \<Rightarrow> heap \<Rightarrow> slice \<times> heap" where
  "copy_strings xs h =
     (if xs = [] then ((None, 0), h) else (let (r, h') = alloc (Strings xs) h in ((r, length xs), h')))"

text \<open>
  \<open>append(s, x)\<close>: in place while the capacity lasts, into a new array otherwise, with as much spare room (\<open>slack\<close>) as
  the runtime likes.
\<close>

definition append_string :: "nat \<Rightarrow> string \<Rightarrow> slice \<Rightarrow> heap \<Rightarrow> slice \<times> heap" where
  "append_string slack x s h =
     (case (s, load h (fst s)) of
        ((Some a, n), Some (Strings xs)) \<Rightarrow>
          if n < length xs then ((Some a, Suc n), store a (Strings (xs[n := x])) h)
          else (let (r, h') = alloc (Strings (take n xs @ x # replicate slack [])) h in ((r, Suc n), h'))
      | _ \<Rightarrow> (let (r, h') = alloc (Strings (x # replicate slack [])) h in ((r, 1), h')))"

text \<open>What is at a reference.\<close>

definition text_at :: "heap \<Rightarrow> ref \<Rightarrow> string \<rightharpoonup> string" where
  "text_at h r = (case load h r of Some (TextMap m) \<Rightarrow> m | _ \<Rightarrow> Map.empty)"

definition values_at :: "heap \<Rightarrow> ref \<Rightarrow> nat \<rightharpoonup> nat" where
  "values_at h r = (case load h r of Some (ValueMap m) \<Rightarrow> m | _ \<Rightarrow> Map.empty)"

definition modes_at :: "heap \<Rightarrow> ref \<Rightarrow> uint8 \<rightharpoonup> uint32" where
  "modes_at h r = (case load h r of Some (ModeMap m) \<Rightarrow> m | _ \<Rightarrow> Map.empty)"

definition strings_at :: "heap \<Rightarrow> slice \<Rightarrow> string list" where
  "strings_at h s = (case load h (fst s) of Some (Strings xs) \<Rightarrow> take (snd s) xs | _ \<Rightarrow> [])"

section \<open>The getters\<close>

record pty_value =
  pv_term :: string
  pv_window :: Window
  pv_modes :: ref

text \<open>
  The fields of a session that the getters read: the \<open>*gossh.Permissions\<close> that its context holds, the
  public key there, the metadata of its connection, its PTY, the channel of its windows, its environment, its command and subsystem.
\<close>

record session_store =
  st_permissions :: ref
  st_publicKey :: ctx_value
  st_conn :: connMetadata
  st_pty :: "pty_value option"
  st_winch :: "nat option"
  st_env :: slice
  st_rawCmd :: string
  st_subsystem :: string

text \<open>\<open>None\<close> is the panic of a nil dereference: the context of a connection always holds permissions.\<close>

definition session_Permissions :: "session_store \<Rightarrow> heap \<Rightarrow> (ref \<times> heap) option" where
  "session_Permissions s h =
     (case load h (st_permissions s) of
        Some (PermissionsCell criticalOptions extensions extraData) \<Rightarrow>
          (let (c, h1) = maps_Clone criticalOptions h;
               (e, h2) = maps_Clone extensions h1;
               (x, h3) = maps_Clone extraData h2
           in Some (alloc (PermissionsCell c e x) h3))
      | _ \<Rightarrow> None)"

definition clonePty :: "pty_value \<Rightarrow> heap \<Rightarrow> pty_value \<times> heap" where
  "clonePty pty h = (let (m, h') = maps_Clone (pv_modes pty) h in (pty\<lparr>pv_modes := m\<rparr>, h'))"

abbreviation no_pty :: pty_value where
  "no_pty \<equiv> \<lparr>pv_term = [], pv_window = \<lparr>Width = 0, Height = 0, WidthPixels = 0, HeightPixels = 0\<rparr>, pv_modes = None\<rparr>"

definition session_Pty :: "session_store \<Rightarrow> heap \<Rightarrow> (pty_value \<times> nat option \<times> bool) \<times> heap" where
  "session_Pty s h = (case st_pty s of
     Some pty \<Rightarrow> (let (p, h') = clonePty pty h in ((p, st_winch s, True), h'))
   | None \<Rightarrow> ((no_pty, st_winch s, False), h))"

definition session_Environ :: "session_store \<Rightarrow> heap \<Rightarrow> slice \<times> heap" where
  "session_Environ s h = copy_strings (strings_at h (st_env s)) h"

text \<open>\<open>shlex.Split\<close> is a parameter; its error is dropped.\<close>

definition session_Command :: "(string \<Rightarrow> string list \<times> gerr option) \<Rightarrow> session_store \<Rightarrow> heap \<Rightarrow> slice \<times> heap" where
  "session_Command shlex_Split s h = (let (cmd, _) = shlex_Split (st_rawCmd s) in copy_strings cmd h)"

text \<open>\<open>PublicKey\<close>: the type assertion fails, which panics (\<open>None\<close>), when the context holds a value of another type.\<close>

definition session_PublicKey :: "session_store \<Rightarrow> nat option option" where
  "session_PublicKey s = (case st_publicKey s of Nil_value \<Rightarrow> Some None | Ref_value k \<Rightarrow> Some (Some k) | _ \<Rightarrow> None)"

definition session_User :: "session_store \<Rightarrow> string" where "session_User s = md_user (st_conn s)"
definition session_RemoteAddr :: "session_store \<Rightarrow> string" where "session_RemoteAddr s = md_remoteAddr (st_conn s)"
definition session_LocalAddr :: "session_store \<Rightarrow> string" where "session_LocalAddr s = md_localAddr (st_conn s)"
definition session_RawCommand :: "session_store \<Rightarrow> string" where "session_RawCommand s = st_rawCmd s"
definition session_Subsystem :: "session_store \<Rightarrow> string" where "session_Subsystem s = st_subsystem s"

section \<open>A session and its handler\<close>

text \<open>\<open>vs_known\<close> are the addresses that the handler and the callbacks have got from the session.\<close>

record views =
  vs_heap :: heap
  vs_session :: session_store
  vs_known :: "nat list"

text \<open>
  The request loop accepts a PTY (after the callback, when there is one, has got a copy and has decided; \<open>Some False\<close> stands for a refusal and
  for an error of the callback, after which the session has no PTY), changes its window to the merged one, and adds to the environment. Replies, parsing
  and the other conditions of these requests are in \<open>SessionRequests\<close>; leaving them out only allows more to happen. The handler
  calls the getters and writes what it likes at the addresses it knows.
\<close>

datatype view_event =
    PtyRequest string Window "uint8 \<rightharpoonup> uint32" "bool option"
  | WindowChange Window
  | EnvRequest string nat
  | CallPermissions
  | CallPty
  | CallEnviron
  | CallCommand
  | HandlerWrites nat cell

fun addresses :: "ref list \<Rightarrow> nat list" where
  "addresses [] = []"
| "addresses (None # rs) = addresses rs"
| "addresses (Some a # rs) = a # addresses rs"

definition permissions_refs :: "heap \<Rightarrow> ref \<Rightarrow> ref list" where
  "permissions_refs h r = r # (case load h r of Some (PermissionsCell c e x) \<Rightarrow> [c, e, x] | _ \<Rightarrow> [])"

definition gets_to_know :: "ref list \<Rightarrow> heap \<Rightarrow> views \<Rightarrow> views" where
  "gets_to_know rs h s = s\<lparr>vs_heap := h, vs_known := addresses rs @ vs_known s\<rparr>"

definition acceptPty :: "pty_value \<Rightarrow> views \<Rightarrow> views" where
  "acceptPty pty s = s\<lparr>vs_session := (vs_session s)\<lparr>st_pty := Some pty, st_winch := Some 0\<rparr>\<rparr>"

definition ptyRequest :: "string \<Rightarrow> Window \<Rightarrow> (uint8 \<rightharpoonup> uint32) \<Rightarrow> bool option \<Rightarrow> views \<Rightarrow> views" where
  "ptyRequest term win modes callback s =
     (if st_pty (vs_session s) \<noteq> None then s
      else
        (let (m, h1) = alloc (ModeMap modes) (vs_heap s);
             pty = \<lparr>pv_term = term, pv_window = win, pv_modes = m\<rparr>
         in case callback of
              None \<Rightarrow> acceptPty pty (s\<lparr>vs_heap := h1\<rparr>)
            | Some allowed \<Rightarrow>
                (let (copy, h2) = clonePty pty h1;
                     s' = gets_to_know [pv_modes copy] h2 s
                 in if allowed then acceptPty pty s' else s')))"

definition windowChange :: "Window \<Rightarrow> views \<Rightarrow> views" where
  "windowChange win s =
     s\<lparr>vs_session := (vs_session s)\<lparr>st_pty := map_option (\<lambda>p. p\<lparr>pv_window := win\<rparr>) (st_pty (vs_session s))\<rparr>\<rparr>"

definition envRequest :: "string \<Rightarrow> nat \<Rightarrow> views \<Rightarrow> views" where
  "envRequest kv slack s =
     (let (env, h) = append_string slack kv (st_env (vs_session s)) (vs_heap s)
      in s\<lparr>vs_heap := h, vs_session := (vs_session s)\<lparr>st_env := env\<rparr>\<rparr>)"

text \<open>\<open>None\<close>: a panic, or a write to an address that the handler does not have.\<close>

fun view_step :: "(string \<Rightarrow> string list \<times> gerr option) \<Rightarrow> view_event \<Rightarrow> views \<Rightarrow> views option" where
  "view_step shlex (PtyRequest t w m cb) s = Some (ptyRequest t w m cb s)"
| "view_step shlex (WindowChange w) s = Some (windowChange w s)"
| "view_step shlex (EnvRequest kv slack) s = Some (envRequest kv slack s)"
| "view_step shlex CallPermissions s =
     map_option (\<lambda>(r, h). gets_to_know (permissions_refs h r) h s) (session_Permissions (vs_session s) (vs_heap s))"
| "view_step shlex CallPty s =
     (let ((p, _, _), h) = session_Pty (vs_session s) (vs_heap s) in Some (gets_to_know [pv_modes p] h s))"
| "view_step shlex CallEnviron s =
     (let ((r, _), h) = session_Environ (vs_session s) (vs_heap s) in Some (gets_to_know [r] h s))"
| "view_step shlex CallCommand s =
     (let ((r, _), h) = session_Command shlex (vs_session s) (vs_heap s) in Some (gets_to_know [r] h s))"
| "view_step shlex (HandlerWrites a c) s =
     (if a \<in> set (vs_known s) then Some (s\<lparr>vs_heap := store a c (vs_heap s)\<rparr>) else None)"

fun view_run :: "(string \<Rightarrow> string list \<times> gerr option) \<Rightarrow> view_event list \<Rightarrow> views \<Rightarrow> views option" where
  "view_run shlex [] s = Some s"
| "view_run shlex (e # es) s = Option.bind (view_step shlex e s) (view_run shlex es)"

section \<open>What the session is, without a store\<close>

record session_view =
  av_permissions :: "(string \<rightharpoonup> string) \<times> (string \<rightharpoonup> string) \<times> (nat \<rightharpoonup> nat)"
  av_pty :: "Pty option"
  av_env :: "string list"

definition permissions_at :: "heap \<Rightarrow> ref \<Rightarrow> (string \<rightharpoonup> string) \<times> (string \<rightharpoonup> string) \<times> (nat \<rightharpoonup> nat)" where
  "permissions_at h r = (case load h r of
     Some (PermissionsCell c e x) \<Rightarrow> (text_at h c, text_at h e, values_at h x)
   | _ \<Rightarrow> (Map.empty, Map.empty, Map.empty))"

definition pty_at :: "heap \<Rightarrow> pty_value \<Rightarrow> Pty" where
  "pty_at h p = \<lparr>Term = pv_term p, PtyWindow = pv_window p, TerminalModes = modes_at h (pv_modes p)\<rparr>"

definition view_of :: "views \<Rightarrow> session_view" where
  "view_of s =
     \<lparr>av_permissions = permissions_at (vs_heap s) (st_permissions (vs_session s)),
      av_pty = map_option (pty_at (vs_heap s)) (st_pty (vs_session s)),
      av_env = strings_at (vs_heap s) (st_env (vs_session s))\<rparr>"

text \<open>What each event does to it: only the requests of the client do anything.\<close>

fun view_effect :: "view_event \<Rightarrow> session_view \<Rightarrow> session_view" where
  "view_effect (PtyRequest t w m cb) v =
     (if av_pty v = None \<and> cb \<noteq> Some False then v\<lparr>av_pty := Some \<lparr>Term = t, PtyWindow = w, TerminalModes = m\<rparr>\<rparr> else v)"
| "view_effect (WindowChange w) v = v\<lparr>av_pty := map_option (\<lambda>p. p\<lparr>PtyWindow := w\<rparr>) (av_pty v)\<rparr>"
| "view_effect (EnvRequest kv _) v = v\<lparr>av_env := av_env v @ [kv]\<rparr>"
| "view_effect _ v = v"

section \<open>Well-formed views\<close>

text \<open>The addresses of what the session itself keeps.\<close>

definition kept_refs :: "views \<Rightarrow> ref list" where
  "kept_refs s = permissions_refs (vs_heap s) (st_permissions (vs_session s))
     @ (case st_pty (vs_session s) of Some p \<Rightarrow> [pv_modes p] | None \<Rightarrow> [])"

definition env_wf :: "heap \<Rightarrow> slice \<Rightarrow> bool" where
  "env_wf h env \<longleftrightarrow> (case env of (None, n) \<Rightarrow> n = 0 | (Some a, n) \<Rightarrow> \<exists>xs. hp_cells h a = Some (Strings xs) \<and> n \<le> length xs)"

text \<open>
  Nothing lies beyond the next free address; the session's own references are allocated, the array of its environment is
  shared with nothing else, the permissions are there, and the handler knows none of these.
\<close>

definition own_addresses :: "views \<Rightarrow> nat set" where
  "own_addresses s = set (addresses (fst (st_env (vs_session s)) # kept_refs s))"

definition views_wf :: "views \<Rightarrow> bool" where
  "views_wf s \<longleftrightarrow>
     (\<forall>a \<in> own_addresses s \<union> set (vs_known s). a < hp_next (vs_heap s))
     \<and> own_addresses s \<inter> set (vs_known s) = {}
     \<and> (fst (st_env (vs_session s)) = None \<or> fst (st_env (vs_session s)) \<notin> set (kept_refs s))
     \<and> env_wf (vs_heap s) (st_env (vs_session s))
     \<and> (\<exists>c e x. load (vs_heap s) (st_permissions (vs_session s)) = Some (PermissionsCell c e x))"

definition grows :: "heap \<Rightarrow> heap \<Rightarrow> bool" where
  "grows h h' \<longleftrightarrow> hp_next h \<le> hp_next h' \<and> (\<forall>a < hp_next h. hp_cells h' a = hp_cells h a)"

lemma grows_refl [simp]: "grows h h"
  by (simp add: grows_def)

lemma grows_trans: "grows h h' \<Longrightarrow> grows h' h'' \<Longrightarrow> grows h h''"
  by (auto simp: grows_def)

lemma mem_addresses: "a \<in> set (addresses rs) \<longleftrightarrow> Some a \<in> set rs"
  by (induction rs rule: addresses.induct) auto

lemma alloc_facts: "alloc c h = (r, h') \<Longrightarrow> r = Some (hp_next h) \<and> hp_next h' = Suc (hp_next h) \<and> grows h h' \<and> load h' r = Some c"
  by (auto simp: alloc_def grows_def load_def)

lemma clone_facts:
  "maps_Clone r h = (r', h') \<Longrightarrow> grows h h' \<and> load h' r' = load h r
     \<and> (r' = None \<or> r' = Some (hp_next h) \<and> hp_next h < hp_next h')"
  by (auto simp: maps_Clone_def load_def split: option.splits dest!: alloc_facts)

lemma load_same: "(\<And>a. r = Some a \<Longrightarrow> hp_cells h' a = hp_cells h a) \<Longrightarrow> load h' r = load h r"
  by (cases r) (simp_all add: load_def)

lemma load_grows: "grows h h' \<Longrightarrow> (\<And>a. r = Some a \<Longrightarrow> a < hp_next h) \<Longrightarrow> load h' r = load h r"
  by (cases r) (auto simp: grows_def load_def)

lemma at_load:
  "load h' r' = load h r \<Longrightarrow> text_at h' r' = text_at h r"
  "load h' r' = load h r \<Longrightarrow> values_at h' r' = values_at h r"
  "load h' r' = load h r \<Longrightarrow> modes_at h' r' = modes_at h r"
  by (simp_all add: text_at_def values_at_def modes_at_def)

text \<open>The view of a session depends on what is at its own addresses.\<close>

lemma permissions_at_cong:
  assumes "\<And>a. Some a \<in> set (permissions_refs h r) \<Longrightarrow> hp_cells h' a = hp_cells h a"
  shows "permissions_at h' r = permissions_at h r \<and> permissions_refs h' r = permissions_refs h r"
proof -
  have r: "load h' r = load h r" using assms by (intro load_same) (auto simp: permissions_refs_def)
  have "load h' r' = load h r'" if "r' \<in> set (permissions_refs h r)" for r'
    using that assms by (intro load_same) auto
  with r show ?thesis
    by (auto simp: permissions_at_def permissions_refs_def text_at_def values_at_def split: option.splits cell.splits)
qed

lemma own_iff: "a \<in> own_addresses s \<longleftrightarrow> fst (st_env (vs_session s)) = Some a \<or> Some a \<in> set (kept_refs s)"
  by (auto simp: own_addresses_def mem_addresses)

lemma views_cong:
  assumes own: "\<And>a. a \<in> own_addresses s \<Longrightarrow> hp_cells h a = hp_cells (vs_heap s) a"
  shows "view_of (s\<lparr>vs_heap := h\<rparr>) = view_of s" and "kept_refs (s\<lparr>vs_heap := h\<rparr>) = kept_refs s"
    and "env_wf h (st_env (vs_session s)) = env_wf (vs_heap s) (st_env (vs_session s))"
    and "load h (st_permissions (vs_session s)) = load (vs_heap s) (st_permissions (vs_session s))"
proof -
  have assms: "hp_cells h a = hp_cells (vs_heap s) a"
    if "fst (st_env (vs_session s)) = Some a \<or> Some a \<in> set (kept_refs s)" for a
    using own that by (simp add: own_iff)
  have perms: "permissions_at h (st_permissions (vs_session s)) = permissions_at (vs_heap s) (st_permissions (vs_session s))"
    "permissions_refs h (st_permissions (vs_session s)) = permissions_refs (vs_heap s) (st_permissions (vs_session s))"
    using permissions_at_cong [of "vs_heap s" "st_permissions (vs_session s)" h] assms by (auto simp: kept_refs_def)
  have pty: "modes_at h (pv_modes p) = modes_at (vs_heap s) (pv_modes p)" if "st_pty (vs_session s) = Some p" for p
    using that assms by (cases "pv_modes p") (auto simp: kept_refs_def modes_at_def load_def)
  have env: "load h (fst (st_env (vs_session s))) = load (vs_heap s) (fst (st_env (vs_session s)))"
    using assms by (intro load_same) auto
  show "view_of (s\<lparr>vs_heap := h\<rparr>) = view_of s"
    using perms(1) pty env by (simp add: view_of_def pty_at_def strings_at_def split: option.splits)
      (cases "st_pty (vs_session s)"; simp add: pty_at_def)
  show "kept_refs (s\<lparr>vs_heap := h\<rparr>) = kept_refs s" using perms(2) by (simp add: kept_refs_def)
  show "env_wf h (st_env (vs_session s)) = env_wf (vs_heap s) (st_env (vs_session s))"
    using env by (cases "st_env (vs_session s)"; cases "fst (st_env (vs_session s))") (simp_all add: env_wf_def load_def)
  show "load h (st_permissions (vs_session s)) = load (vs_heap s) (st_permissions (vs_session s))"
    using assms by (intro load_same) (auto simp: kept_refs_def permissions_refs_def)
qed

text \<open>Nothing that was there changes, the array of the environment excepted.\<close>

definition others_kept :: "views \<Rightarrow> views \<Rightarrow> bool" where
  "others_kept s t \<longleftrightarrow> (\<forall>a < hp_next (vs_heap s). fst (st_env (vs_session s)) \<noteq> Some a \<longrightarrow>
     hp_cells (vs_heap t) a = hp_cells (vs_heap s) a)"

lemma views_below: "views_wf s \<Longrightarrow> a \<in> own_addresses s \<union> set (vs_known s) \<Longrightarrow> a < hp_next (vs_heap s)"
  by (auto simp: views_wf_def)

lemma views_apart: "views_wf s \<Longrightarrow> a \<in> own_addresses s \<Longrightarrow> a \<notin> set (vs_known s)"
  by (auto simp: views_wf_def)

text \<open>What a getter hands out is new: the view stays, and the handler still knows nothing of the session's own.\<close>

lemma know_wf:
  assumes wf: "views_wf s" and grows: "grows (vs_heap s) h"
    and new: "\<And>a. a \<in> set (addresses rs) \<Longrightarrow> hp_next (vs_heap s) \<le> a \<and> a < hp_next h"
  shows "views_wf (gets_to_know rs h s) \<and> view_of (gets_to_know rs h s) = view_of s \<and> others_kept s (gets_to_know rs h s)"
proof -
  have old: "hp_cells h a = hp_cells (vs_heap s) a" if "a \<in> own_addresses s" for a
    using wf grows that by (simp add: views_wf_def grows_def)
  note same = views_cong [OF old]
  let ?t = "gets_to_know rs h s"
  have t: "vs_session ?t = vs_session s" "vs_heap ?t = h" "set (vs_known ?t) = set (addresses rs) \<union> set (vs_known s)"
    by (simp_all add: gets_to_know_def)
  have refs: "kept_refs ?t = kept_refs s"
    using same(2) by (simp add: gets_to_know_def kept_refs_def)
  then have own: "own_addresses ?t = own_addresses s" by (simp add: own_addresses_def t)
  have "view_of ?t = view_of s" using same(1) by (simp add: gets_to_know_def view_of_def)
  moreover have "views_wf ?t"
    unfolding views_wf_def own refs t same(3,4)
  proof (intro conjI ballI)
    fix a
    assume "a \<in> own_addresses s \<union> (set (addresses rs) \<union> set (vs_known s))"
    then show "a < hp_next h"
      using views_below [OF wf, of a] grows new [of a] by (cases "a \<in> set (addresses rs)") (auto simp: grows_def)
  next
    have "a \<notin> set (addresses rs)" if "a \<in> own_addresses s" for a
      using views_below [OF wf, of a] new [of a] that by fastforce
    then show "own_addresses s \<inter> (set (addresses rs) \<union> set (vs_known s)) = {}"
      using wf by (auto simp: views_wf_def)
  qed (use wf same(3,4) in \<open>simp_all add: views_wf_def\<close>)
  moreover have "others_kept s ?t" using grows by (simp add: others_kept_def t grows_def)
  ultimately show ?thesis by blast
qed

lemma Permissions_facts:
  assumes res: "session_Permissions s h = Some (r, h')"
    and refs: "\<And>a. Some a \<in> set (permissions_refs h (st_permissions s)) \<Longrightarrow> a < hp_next h"
  shows "grows h h' \<and> permissions_at h' r = permissions_at h (st_permissions s)
     \<and> (\<forall>a \<in> set (addresses (permissions_refs h' r)). hp_next h \<le> a \<and> a < hp_next h')"
proof -
  from res obtain c e x c' e' x' h1 h2 h3 where
    src: "load h (st_permissions s) = Some (PermissionsCell c e x)"
    and ops: "maps_Clone c h = (c', h1)" "maps_Clone e h1 = (e', h2)" "maps_Clone x h2 = (x', h3)"
      "alloc (PermissionsCell c' e' x') h3 = (r, h')"
    by (auto simp: session_Permissions_def split: option.splits cell.splits prod.splits)
  note cf = clone_facts [OF ops(1)] and ef = clone_facts [OF ops(2)] and xf = clone_facts [OF ops(3)] and rf = alloc_facts [OF ops(4)]
  have g: "grows h h1" "grows h h2" "grows h1 h'" "grows h2 h'" "grows h3 h'" "grows h h'"
    using cf ef xf rf by (blast intro: grows_trans)+
  have src_load: "load h1 e = load h e" "load h2 x = load h x"
    using refs src by (auto intro!: load_grows g simp: permissions_refs_def)
  have "load h' c' = load h1 c'" using cf by (intro load_grows [OF g(3)]) auto
  moreover have "load h' e' = load h2 e'" using ef by (intro load_grows [OF g(4)]) auto
  moreover have "load h' x' = load h3 x'" using xf by (intro load_grows [OF g(5)]) auto
  ultimately have new: "load h' c' = load h c" "load h' e' = load h e" "load h' x' = load h x"
    using cf ef xf src_load by simp_all
  have "permissions_at h' r = permissions_at h (st_permissions s)"
    using conjunct2 [OF conjunct2 [OF conjunct2 [OF rf]]] src at_load [OF new(1)] at_load [OF new(2)] at_load [OF new(3)]
    by (simp add: permissions_at_def)
  moreover have "\<forall>a \<in> set (addresses (permissions_refs h' r)). hp_next h \<le> a \<and> a < hp_next h'"
    using cf ef xf rf g by (auto simp: permissions_refs_def mem_addresses grows_def)
  ultimately show ?thesis using g(6) by blast
qed

section \<open>Each event keeps them\<close>

lemma Pty_facts:
  assumes "clonePty p h = (p', h')"
  shows "grows h h' \<and> pty_at h' p' = pty_at h p \<and> (\<forall>a \<in> set (addresses [pv_modes p']). hp_next h \<le> a \<and> a < hp_next h')"
proof -
  from assms obtain m where "maps_Clone (pv_modes p) h = (m, h')" "p' = p\<lparr>pv_modes := m\<rparr>"
    by (auto simp: clonePty_def split: prod.splits)
  with clone_facts [of "pv_modes p" h m h'] show ?thesis
    by (auto simp: pty_at_def modes_at_def mem_addresses)
qed

lemma copy_facts:
  assumes "copy_strings xs h = ((r, n), h')"
  shows "grows h h' \<and> strings_at h' (r, n) = xs \<and> (\<forall>a \<in> set (addresses [r]). hp_next h \<le> a \<and> a < hp_next h')"
  using assms alloc_facts [of "Strings xs" h r h']
  by (auto simp: copy_strings_def strings_at_def load_def mem_addresses split: if_splits prod.splits)

lemma acceptPty_wf:
  assumes wf: "views_wf s" and none: "st_pty (vs_session s) = None"
    and new: "pv_modes pty = Some a" "a < hp_next (vs_heap s)" "a \<notin> set (vs_known s)" "a \<notin> own_addresses s"
  shows "views_wf (acceptPty pty s) \<and> view_of (acceptPty pty s) = (view_of s)\<lparr>av_pty := Some (pty_at (vs_heap s) pty)\<rparr>"
proof -
  have refs: "kept_refs (acceptPty pty s) = kept_refs s @ [Some a]"
    using none new(1) by (simp add: acceptPty_def kept_refs_def)
  have own: "own_addresses (acceptPty pty s) = insert a (own_addresses s)"
    unfolding own_addresses_def refs by (auto simp: acceptPty_def mem_addresses)
  have "fst (st_env (vs_session s)) \<noteq> Some a" using new(4) by (simp add: own_iff)
  then show ?thesis
    using wf new unfolding views_wf_def own refs by (simp add: acceptPty_def view_of_def)
qed

lemma ptyRequest_wf:
  assumes wf: "views_wf s"
  shows "views_wf (ptyRequest t w m cb s) \<and> view_of (ptyRequest t w m cb s) = view_effect (PtyRequest t w m cb) (view_of s)
     \<and> others_kept s (ptyRequest t w m cb s)"
proof (cases "st_pty (vs_session s)")
  case (Some p)
  with wf show ?thesis by (simp add: ptyRequest_def view_of_def others_kept_def)
next
  case None
  obtain r h1 where r: "alloc (ModeMap m) (vs_heap s) = (r, h1)" by fastforce
  define a where "a = hp_next (vs_heap s)"
  define pty where "pty = \<lparr>pv_term = t, pv_window = w, pv_modes = r\<rparr>"
  have ra: "r = Some a" "hp_next h1 = Suc a" "grows (vs_heap s) h1" "load h1 r = Some (ModeMap m)"
    using alloc_facts [OF r] by (auto simp: a_def)
  have noview: "av_pty (view_of s) = None" using None by (simp add: view_of_def)
  have accepted: "views_wf (acceptPty pty (gets_to_know rs h s)) \<and>
      view_of (acceptPty pty (gets_to_know rs h s)) = view_effect (PtyRequest t w m None) (view_of s)
      \<and> others_kept s (acceptPty pty (gets_to_know rs h s))"
    if h: "grows h1 h" "hp_next (vs_heap s) < hp_next h" and rs: "\<And>b. b \<in> set (addresses rs) \<Longrightarrow> a < b \<and> b < hp_next h" for rs h
  proof -
    have g: "grows (vs_heap s) h" using ra(3) h(1) by (rule grows_trans)
    have know: "views_wf (gets_to_know rs h s)" "view_of (gets_to_know rs h s) = view_of s" "others_kept s (gets_to_know rs h s)"
      using know_wf [OF wf g, of rs] rs by (auto simp: a_def less_imp_le)
    have "a \<notin> own_addresses (gets_to_know rs h s)"
    proof -
      have "own_addresses (gets_to_know rs h s) = own_addresses s"
        using views_cong(2) [of s h] g views_below [OF wf] by (simp add: own_addresses_def gets_to_know_def kept_refs_def grows_def)
      then show ?thesis using views_below [OF wf, of a] by (auto simp: a_def)
    qed
    moreover have "a \<notin> set (vs_known (gets_to_know rs h s))"
      using rs [of a] views_below [OF wf, of a] by (auto simp: gets_to_know_def a_def)
    moreover have "pty_at h pty = \<lparr>Term = t, PtyWindow = w, TerminalModes = m\<rparr>"
      using ra(1,2,4) load_grows [OF h(1), of r] by (simp add: pty_at_def modes_at_def pty_def)
    ultimately show ?thesis
      using acceptPty_wf [OF know(1), of pty a] know(2,3) None ra(1) h(2) noview
      by (simp add: gets_to_know_def pty_def a_def others_kept_def acceptPty_def)
  qed
  show ?thesis
  proof (cases cb)
    case cb: None
    have "ptyRequest t w m cb s = acceptPty pty (gets_to_know [] h1 s)"
      using None by (simp add: cb ptyRequest_def r pty_def gets_to_know_def)
    with accepted [of h1 "[]"] ra(2) show ?thesis by (simp add: cb a_def)
  next
    case (Some allowed)
    obtain copy h2 where c: "clonePty pty h1 = (copy, h2)" by fastforce
    have cf: "grows h1 h2" "\<And>b. b \<in> set (addresses [pv_modes copy]) \<Longrightarrow> Suc a \<le> b \<and> b < hp_next h2"
      using Pty_facts [OF c] ra(2) by auto
    let ?s = "gets_to_know [pv_modes copy] h2 s"
    have res: "ptyRequest t w m (Some allowed) s = (if allowed then acceptPty pty ?s else ?s)"
      using None c by (simp add: ptyRequest_def r pty_def)
    have g: "grows (vs_heap s) h2" using ra(3) cf(1) by (rule grows_trans)
    have new: "hp_next (vs_heap s) \<le> b \<and> b < hp_next h2" if "b \<in> set (addresses [pv_modes copy])" for b
      using cf(2) [OF that] by (simp add: a_def)
    have "views_wf ?s \<and> view_of ?s = view_of s \<and> others_kept s ?s" using wf g new by (rule know_wf)
    moreover have "views_wf (acceptPty pty ?s) \<and> view_of (acceptPty pty ?s) = view_effect (PtyRequest t w m None) (view_of s)
        \<and> others_kept s (acceptPty pty ?s)"
    proof (rule accepted [OF cf(1)])
      show "hp_next (vs_heap s) < hp_next h2" using cf(1) ra(2) by (simp add: grows_def a_def)
      show "a < b \<and> b < hp_next h2" if "b \<in> set (addresses [pv_modes copy])" for b using cf(2) [OF that] by simp
    qed
    ultimately show ?thesis
      unfolding Some res using noview by simp
  qed
qed

lemma windowChange_wf:
  "views_wf s \<Longrightarrow> views_wf (windowChange w s) \<and> view_of (windowChange w s) = view_effect (WindowChange w) (view_of s)
     \<and> others_kept s (windowChange w s)"
  by (cases "st_pty (vs_session s)")
    (simp_all add: others_kept_def windowChange_def views_wf_def view_of_def own_addresses_def kept_refs_def pty_at_def)

lemma envRequest_wf:
  assumes wf: "views_wf s"
  shows "views_wf (envRequest kv slack s) \<and> view_of (envRequest kv slack s) = view_effect (EnvRequest kv slack) (view_of s)
     \<and> others_kept s (envRequest kv slack s)"
proof -
  obtain r n where env: "st_env (vs_session s) = (r, n)" by fastforce
  obtain c e x where perms: "load (vs_heap s) (st_permissions (vs_session s)) = Some (PermissionsCell c e x)"
    using wf by (auto simp: views_wf_def)
  obtain env' h where app: "append_string slack kv (r, n) (vs_heap s) = (env', h)" by fastforce
  have res: "envRequest kv slack s = s\<lparr>vs_heap := h, vs_session := (vs_session s)\<lparr>st_env := env'\<rparr>\<rparr>"
    using app by (simp add: envRequest_def env)
  have envwf: "env_wf (vs_heap s) (r, n)" and apart: "r = None \<or> r \<notin> set (kept_refs s)"
    using wf by (simp_all add: views_wf_def env)
  have key: "strings_at h env' = strings_at (vs_heap s) (r, n) @ [kv] \<and> env_wf h env' \<and> hp_next (vs_heap s) \<le> hp_next h
      \<and> (\<forall>a. Some a \<noteq> fst env' \<longrightarrow> a < hp_next (vs_heap s) \<longrightarrow> hp_cells h a = hp_cells (vs_heap s) a)
      \<and> (fst env' = r \<and> r \<noteq> None \<or> fst env' = Some (hp_next (vs_heap s)) \<and> hp_next (vs_heap s) < hp_next h)"
    using app envwf
    by (auto simp: append_string_def env_wf_def load_def strings_at_def alloc_def store_def take_Suc_conv_app_nth
        split: option.splits cell.splits if_splits)
  let ?t = "envRequest kv slack s"
  have below: "a < hp_next (vs_heap s)" if "Some a \<in> set (kept_refs s)" for a
    using views_below [OF wf, of a] that by (simp add: own_iff)
  have kept: "hp_cells h a = hp_cells (vs_heap s) a" if "Some a \<in> set (kept_refs s)" for a
  proof -
    have "Some a \<noteq> fst env'" using key apart below [OF that] that by auto
    with key below [OF that] show ?thesis by blast
  qed
  have perms': "permissions_at h (st_permissions (vs_session s)) = permissions_at (vs_heap s) (st_permissions (vs_session s))
      \<and> permissions_refs h (st_permissions (vs_session s)) = permissions_refs (vs_heap s) (st_permissions (vs_session s))"
    using kept by (intro permissions_at_cong) (simp add: kept_refs_def)
  have same: "load h (st_permissions (vs_session s)) = Some (PermissionsCell c e x)"
    unfolding perms [symmetric] using kept by (intro load_same) (simp add: kept_refs_def permissions_refs_def)
  have pty: "pty_at h p = pty_at (vs_heap s) p" if "st_pty (vs_session s) = Some p" for p
    using load_same [of "pv_modes p" h "vs_heap s"] kept that by (simp add: pty_at_def modes_at_def kept_refs_def)
  have view: "view_of ?t = view_effect (EnvRequest kv slack) (view_of s)"
    using key perms' pty by (cases "st_pty (vs_session s)") (simp_all add: res view_of_def env)
  have refs: "kept_refs ?t = kept_refs s" using perms' by (simp add: res kept_refs_def)
  obtain a where a: "fst env' = Some a" "Some a \<notin> set (kept_refs s)" "a \<notin> set (vs_known s)" "a < hp_next h"
  proof -
    consider b where "r = Some b" "fst env' = Some b" | "fst env' = Some (hp_next (vs_heap s))" "hp_next (vs_heap s) < hp_next h"
      using key by (cases r) auto
    then show thesis
    proof cases
      case 1
      then have "b \<in> own_addresses s" by (simp add: own_iff env)
      then show thesis
        using 1 that apart views_below [OF wf, of b] views_apart [OF wf, of b] key by auto
    next
      case 2
      then show thesis using that below views_below [OF wf, of "hp_next (vs_heap s)"] by auto
    qed
  qed
  have own: "own_addresses ?t = insert a {b. Some b \<in> set (kept_refs s)}"
    unfolding own_addresses_def refs using a(1) by (auto simp: mem_addresses res)
  have "views_wf ?t"
    unfolding views_wf_def own refs
  proof (intro conjI)
    have le: "hp_next (vs_heap s) \<le> hp_next h" using key by blast
    show "\<forall>b \<in> insert a {b. Some b \<in> set (kept_refs s)} \<union> set (vs_known ?t). b < hp_next (vs_heap ?t)"
      using a(4) below views_below [OF wf] by (auto simp: res intro: less_le_trans [OF _ le])
    show "insert a {b. Some b \<in> set (kept_refs s)} \<inter> set (vs_known ?t) = {}"
      using a(3) views_apart [OF wf] by (auto simp: res own_iff)
    show "fst (st_env (vs_session ?t)) = None \<or> fst (st_env (vs_session ?t)) \<notin> set (kept_refs s)"
      using a by (simp add: res)
  qed (use key same in \<open>auto simp: res\<close>)
  moreover have "others_kept s ?t" using key by (auto simp: others_kept_def res env)
  ultimately show ?thesis using view by blast
qed

lemma HandlerWrites_wf:
  assumes wf: "views_wf s" and a: "a \<in> set (vs_known s)"
  shows "views_wf (s\<lparr>vs_heap := store a c (vs_heap s)\<rparr>) \<and> view_of (s\<lparr>vs_heap := store a c (vs_heap s)\<rparr>) = view_of s"
proof -
  let ?h = "store a c (vs_heap s)"
  have "hp_cells ?h b = hp_cells (vs_heap s) b" if "b \<in> own_addresses s" for b
    using views_apart [OF wf that] a by (auto simp: store_def)
  note same = views_cong [OF this]
  have "own_addresses (s\<lparr>vs_heap := ?h\<rparr>) = own_addresses s" using same(2) by (simp add: own_addresses_def)
  then show ?thesis
    using wf same unfolding views_wf_def by (simp add: store_def)
qed

section \<open>Snapshots\<close>

lemma view_step_wf:
  assumes wf: "views_wf s" and st: "view_step shlex e s = Some t"
  shows "views_wf t \<and> view_of t = view_effect e (view_of s) \<and> ((\<forall>b c. e \<noteq> HandlerWrites b c) \<longrightarrow> others_kept s t)"
proof (cases e)
  case (PtyRequest t' w m cb)
  with ptyRequest_wf [OF wf, of t' w m cb] st show ?thesis by simp
next
  case (WindowChange w)
  with windowChange_wf [OF wf, of w] st show ?thesis by simp
next
  case (EnvRequest kv slack)
  with envRequest_wf [OF wf, of kv slack] st show ?thesis by simp
next
  case CallPermissions
  then obtain r h where call: "session_Permissions (vs_session s) (vs_heap s) = Some (r, h)"
    and t: "t = gets_to_know (permissions_refs h r) h s"
    using st by auto
  have "a < hp_next (vs_heap s)" if "Some a \<in> set (permissions_refs (vs_heap s) (st_permissions (vs_session s)))" for a
    using views_below [OF wf, of a] that by (simp add: own_iff kept_refs_def)
  note facts = Permissions_facts [OF call this]
  have "views_wf t \<and> view_of t = view_of s \<and> others_kept s t"
    unfolding t by (rule know_wf [OF wf]) (use facts in blast)+
  then show ?thesis by (simp add: CallPermissions)
next
  case CallPty
  show ?thesis
  proof (cases "st_pty (vs_session s)")
    case None
    then show ?thesis using st wf know_wf [OF wf grows_refl, of "[]"] by (auto simp: CallPty session_Pty_def others_kept_def gets_to_know_def)
  next
    case (Some p)
    obtain p' h where c: "clonePty p (vs_heap s) = (p', h)" by fastforce
    have t: "t = gets_to_know [pv_modes p'] h s" using st by (simp add: CallPty session_Pty_def Some c)
    have "views_wf t \<and> view_of t = view_of s \<and> others_kept s t"
      unfolding t by (rule know_wf [OF wf]) (use Pty_facts [OF c] in blast)+
    then show ?thesis by (simp add: CallPty)
  qed
next
  case CallEnviron
  obtain r n h where c: "session_Environ (vs_session s) (vs_heap s) = ((r, n), h)" by (metis surj_pair)
  have t: "t = gets_to_know [r] h s" using st by (simp add: CallEnviron c)
  have "views_wf t \<and> view_of t = view_of s \<and> others_kept s t"
    unfolding t by (rule know_wf [OF wf]) (use copy_facts [OF c [unfolded session_Environ_def]] in blast)+
  then show ?thesis by (simp add: CallEnviron)
next
  case CallCommand
  obtain r n h where c: "session_Command shlex (vs_session s) (vs_heap s) = ((r, n), h)" by (metis surj_pair)
  obtain xs where xs: "copy_strings xs (vs_heap s) = ((r, n), h)"
    using c by (auto simp: session_Command_def split: prod.splits)
  have t: "t = gets_to_know [r] h s" using st by (simp add: CallCommand c)
  have "views_wf t \<and> view_of t = view_of s \<and> others_kept s t"
    unfolding t by (rule know_wf [OF wf]) (use copy_facts [OF xs] in blast)+
  then show ?thesis by (simp add: CallCommand)
next
  case (HandlerWrites a c)
  with HandlerWrites_wf [OF wf, of a c] st show ?thesis by (auto split: if_splits)
qed

lemma view_run_wf:
  "view_run shlex es s = Some t \<Longrightarrow> views_wf s \<Longrightarrow> views_wf t \<and> view_of t = fold view_effect es (view_of s)"
proof (induction es arbitrary: s)
  case (Cons e es)
  then obtain u where "view_step shlex e s = Some u" "view_run shlex es u = Some t" by (auto split: Option.bind_splits)
  with view_step_wf [OF Cons.prems(2)] Cons.IH show ?case by simp
qed simp

text \<open>
  C23. What a session hands to its handler are snapshots. Let the client's requests for a PTY, its window and the environment, calls
  of \<open>Permissions\<close>, \<open>Pty\<close>, \<open>Environ\<close> and \<open>Command\<close>, and arbitrary writes by the handler to every map, array and
  struct it got from them come in any order. The session is then what the requests alone have made of it; its getters return just
  that, so no write reached the session or a later result; and no request and no call changes anything the handler holds.
\<close>

theorem session_getters_return_snapshots:
  assumes "views_wf s" and "view_run shlex es s = Some t"
  shows "view_of t = fold view_effect es (view_of s)
    \<and> (\<exists>r h. session_Permissions (vs_session t) (vs_heap t) = Some (r, h) \<and> permissions_at h r = av_permissions (view_of s))
    \<and> (case session_Pty (vs_session t) (vs_heap t) of ((p, _, ok), h) \<Rightarrow>
            (if ok then Some (pty_at h p) else None) = av_pty (fold view_effect es (view_of s)))
    \<and> (case session_Environ (vs_session t) (vs_heap t) of (env, h) \<Rightarrow>
            strings_at h env = av_env (fold view_effect es (view_of s)))
    \<and> (\<forall>e u a. view_step shlex e t = Some u \<and> (\<forall>b c. e \<noteq> HandlerWrites b c) \<and> a \<in> set (vs_known t) \<longrightarrow>
            hp_cells (vs_heap u) a = hp_cells (vs_heap t) a)"
proof -
  have wf: "views_wf t" and view: "view_of t = fold view_effect es (view_of s)"
    using view_run_wf assms by blast+
  have "\<exists>res. session_Permissions (vs_session t) (vs_heap t) = Some res"
    using wf by (auto simp: views_wf_def session_Permissions_def split_beta Let_def)
  then obtain r h where call: "session_Permissions (vs_session t) (vs_heap t) = Some (r, h)" by auto
  have "av_permissions (fold view_effect es v) = av_permissions v" for v
  proof (induction es arbitrary: v)
    case (Cons e es)
    have "av_permissions (view_effect e v) = av_permissions v" by (cases e) simp_all
    with Cons show ?case by simp
  qed simp
  with view have "av_permissions (view_of t) = av_permissions (view_of s)" by simp
  moreover have "permissions_at h r = av_permissions (view_of t)"
    using Permissions_facts [OF call] views_below [OF wf] by (simp add: view_of_def own_iff kept_refs_def)
  ultimately have 1: "\<exists>r h. session_Permissions (vs_session t) (vs_heap t) = Some (r, h) \<and> permissions_at h r = av_permissions (view_of s)"
    using call by auto
  have 2: "case session_Pty (vs_session t) (vs_heap t) of ((p, _, ok), h) \<Rightarrow>
      (if ok then Some (pty_at h p) else None) = av_pty (fold view_effect es (view_of s))"
    unfolding view [symmetric]
    by (auto simp: session_Pty_def view_of_def split: option.splits prod.splits dest: Pty_facts)
  have 3: "case session_Environ (vs_session t) (vs_heap t) of (env, h) \<Rightarrow> strings_at h env = av_env (fold view_effect es (view_of s))"
    unfolding view [symmetric]
    by (auto simp: session_Environ_def view_of_def split: prod.splits dest: copy_facts)
  have 4: "\<forall>e u a. view_step shlex e t = Some u \<and> (\<forall>b c. e \<noteq> HandlerWrites b c) \<and> a \<in> set (vs_known t) \<longrightarrow>
      hp_cells (vs_heap u) a = hp_cells (vs_heap t) a"
  proof (intro allI impI, elim conjE)
    fix e u a
    assume st: "view_step shlex e t = Some u" "\<forall>b c. e \<noteq> HandlerWrites b c" and a: "a \<in> set (vs_known t)"
    have "a \<notin> own_addresses t" using views_apart [OF wf] a by blast
    with view_step_wf [OF wf st(1)] st(2) views_below [OF wf, of a] a
    show "hp_cells (vs_heap u) a = hp_cells (vs_heap t) a" by (auto simp: others_kept_def own_iff)
  qed
  show ?thesis using view 1 2 3 4 by blast
qed

text \<open>
  A PTY is accepted, the environment grows, and the handler, which holds copies of all three, overwrites them before
  another variable arrives.
\<close>

abbreviation sample_views :: views where
  "sample_views \<equiv>
     \<lparr>vs_heap = \<lparr>hp_next = 2, hp_cells = [0 \<mapsto> PermissionsCell (Some 1) None None, 1 \<mapsto> TextMap [''k'' \<mapsto> ''v'']]\<rparr>,
      vs_session = \<lparr>st_permissions = Some 0, st_publicKey = Nil_value,
        st_conn = \<lparr>md_user = ''u'', md_sessionID = [], md_clientVersion = [], md_serverVersion = [], md_localAddr = ''l'', md_remoteAddr = ''r''\<rparr>,
        st_pty = None, st_winch = None, st_env = (None, 0), st_rawCmd = [], st_subsystem = []\<rparr>,
      vs_known = []\<rparr>"

abbreviation sample_window :: Window where
  "sample_window \<equiv> \<lparr>Width = 80, Height = 24, WidthPixels = 0, HeightPixels = 0\<rparr>"

abbreviation sample_view_events :: "view_event list" where
  "sample_view_events \<equiv> [PtyRequest ''xterm'' sample_window [1 \<mapsto> 1] (Some True), EnvRequest ''A=1'' 3, CallEnviron, CallPermissions,
     HandlerWrites 5 (Strings [''B=2'']), HandlerWrites 6 (TextMap Map.empty), HandlerWrites 3 (ModeMap Map.empty), EnvRequest ''C=3'' 0]"

lemma sample_views_wf: "views_wf sample_views"
  by (simp add: views_wf_def own_addresses_def kept_refs_def permissions_refs_def load_def env_wf_def)

lemma sample_views_run: "\<exists>t. view_run shlex sample_view_events sample_views = Some t"
  by (simp add: ptyRequest_def alloc_def clonePty_def maps_Clone_def load_def acceptPty_def gets_to_know_def envRequest_def
      append_string_def session_Environ_def copy_strings_def strings_at_def session_Permissions_def permissions_refs_def store_def)

theorem session_getters_return_snapshots_witness:
  "\<exists>t. view_run (\<lambda>s. ([s], None)) sample_view_events sample_views = Some t
     \<and> (case session_Environ (vs_session t) (vs_heap t) of (env, h) \<Rightarrow> strings_at h env = [''A=1'', ''C=3''])
     \<and> (\<exists>r h. session_Permissions (vs_session t) (vs_heap t) = Some (r, h) \<and> fst (permissions_at h r) = [''k'' \<mapsto> ''v''])"
proof -
  obtain t where t: "view_run (\<lambda>s. ([s], None)) sample_view_events sample_views = Some t"
    using sample_views_run by blast
  have "view_of sample_views = \<lparr>av_permissions = ([''k'' \<mapsto> ''v''], Map.empty, Map.empty), av_pty = None, av_env = []\<rparr>"
    by (simp add: view_of_def permissions_at_def text_at_def values_at_def strings_at_def load_def)
  with session_getters_return_snapshots [OF sample_views_wf t] t show ?thesis by auto
qed

end
