(* ===== verification/Logging.thy ===== *)
theory Logging
  imports ErrorHandling
begin

text \<open>
  Loggers: which one each part of the package uses, the fields that \<open>enrichLoggerForServerConnection\<close> (\<open>conn.go\<close>) adds for a
  connection, and what the log actions of \<open>error-handling.go\<close> write. The logging library is a parameter: its loggers are of a type \<open>'l\<close>, and
  a \<open>log_api\<close> has its operations. That an action logs at all is the effect \<open>Log\<close> in the trace of the other theories.
\<close>

section \<open>Base64 (base64.URLEncoding)\<close>

definition urlAlphabet :: string where
  "urlAlphabet = ''ABCDEFGHIJKLMNOPQRSTUVWXYZabcdefghijklmnopqrstuvwxyz0123456789-_''"

definition urlDigit :: "nat \<Rightarrow> char" where
  "urlDigit n = urlAlphabet ! n"

definition digits3 :: "nat \<Rightarrow> nat \<Rightarrow> nat \<Rightarrow> nat list" where
  "digits3 a b c = [a div 4, (a mod 4) * 16 + b div 16, (b mod 16) * 4 + c div 64, c mod 64]"

fun base64Encode :: "bytes \<Rightarrow> string" where
  "base64Encode [] = []"
| "base64Encode [a] = map urlDigit (take 2 (digits3 (unat a) 0 0)) @ ''==''"
| "base64Encode [a, b] = map urlDigit (take 3 (digits3 (unat a) (unat b) 0)) @ ''=''"
| "base64Encode (a # b # c # bs) = map urlDigit (digits3 (unat a) (unat b) (unat c)) @ base64Encode bs"

text \<open>Reading it back, as whoever searches a log for a session does.\<close>

definition urlValue :: "char \<Rightarrow> nat option" where
  "urlValue ch = map_of (zip urlAlphabet [0..<64]) ch"

definition bytes3 :: "nat \<Rightarrow> nat \<Rightarrow> nat \<Rightarrow> nat \<Rightarrow> bytes" where
  "bytes3 p q r s = map word_of_nat [p * 4 + q div 16, (q mod 16) * 16 + r div 4, (r mod 4) * 64 + s]"

fun base64Decode :: "string \<Rightarrow> bytes option" where
  "base64Decode [] = Some []"
| "base64Decode (w # x # y # z # rest) =
     (case (urlValue w, urlValue x) of
        (Some p, Some q) \<Rightarrow>
          if y = CHR ''='' then (if z = CHR ''='' \<and> rest = [] then Some (take 1 (bytes3 p q 0 0)) else None)
          else (case urlValue y of
                  None \<Rightarrow> None
                | Some r \<Rightarrow>
                    if z = CHR ''='' then (if rest = [] then Some (take 2 (bytes3 p q r 0)) else None)
                    else (case (urlValue z, base64Decode rest) of
                            (Some s, Some bs) \<Rightarrow> Some (bytes3 p q r s @ bs)
                          | _ \<Rightarrow> None))
      | _ \<Rightarrow> None)"
| "base64Decode _ = None"

lemma urlAlphabet_facts: "length urlAlphabet = 64" "distinct urlAlphabet" "CHR ''='' \<notin> set urlAlphabet"
  by (simp_all add: urlAlphabet_def)

lemma urlValue_digit [simp]: "n < 64 \<Longrightarrow> urlValue (urlDigit n) = Some n"
  using map_of_zip_nth [of urlAlphabet "[0..<64]" n] urlAlphabet_facts by (simp add: urlValue_def urlDigit_def)

lemma urlDigit_pad [simp]: "n < 64 \<Longrightarrow> urlDigit n \<noteq> CHR ''=''"
  using urlAlphabet_facts nth_mem [of n urlAlphabet] by (metis urlDigit_def)

lemma byte_bound [simp]: "unat (b :: byte) < 256"
  using unsigned_less [of b] by simp

lemma bytes3_digits3:
  assumes "x < 256" "y < 256" "z < 256"
  shows "bytes3 (x div 4) ((x mod 4) * 16 + y div 16) ((y mod 16) * 4 + z div 64) (z mod 64) =
    map word_of_nat [x, y, z]"
proof -
  have "x div 4 * 4 + ((x mod 4) * 16 + y div 16) div 16 = x" using assms by simp
  moreover have "((x mod 4) * 16 + y div 16) mod 16 * 16 + ((y mod 16) * 4 + z div 64) div 4 = y" using assms by simp
  moreover have "((y mod 16) * 4 + z div 64) mod 4 * 64 + z mod 64 = z" using assms by simp
  ultimately show ?thesis by (simp add: bytes3_def)
qed

lemma digit_bounds [simp]:
  fixes x y :: nat
  assumes "x < 256"
  shows "x div 4 < 64" and "y < 256 \<Longrightarrow> (x mod 4) * 16 + y div 16 < 64" and "y < 256 \<Longrightarrow> (x mod 16) * 4 + y div 64 < 64" and "x mod 64 < 64"
    and "(x mod 4) * 16 < 64" and "(x mod 16) * 4 < 64"
  using assms by linarith+

lemma base64_decodes: "base64Decode (base64Encode bs) = Some bs"
proof (induction bs rule: base64Encode.induct)
  case (2 a)
  show ?case using bytes3_digits3 [of "unat a" 0 0] by (simp add: digits3_def bytes3_def)
next
  case (3 a b)
  show ?case using bytes3_digits3 [of "unat a" "unat b" 0] by (simp add: digits3_def bytes3_def)
next
  case (4 a b c bs)
  show ?case using 4 bytes3_digits3 [of "unat a" "unat b" "unat c"] by (simp add: digits3_def)
qed simp

section \<open>Fields of a connection\<close>

text \<open>
  What a \<open>*gossh.ServerConn\<close> answers about itself. A field is made once and evaluated whenever its logger
  logs; \<open>None\<close> is \<open>fields.Exclude\<close>.
\<close>

record conn_info =
  ci_remoteAddr :: "string option"
  ci_localAddr :: "string option"
  ci_user :: string
  ci_sessionID :: bytes

datatype log_value =
    LazyValue "conn_info \<Rightarrow> string option"
  | TextValue string
  | ErrorValue "gerr option"
  | ScopeValue uint8
  | OperationValue uint8

record 'l log_api =
  la_With :: "'l \<Rightarrow> string \<Rightarrow> log_value \<Rightarrow> 'l"
  la_WithError :: "'l \<Rightarrow> gerr option \<Rightarrow> 'l"
  la_GetLogger :: "string \<Rightarrow> 'l"

definition sessionId_field :: "conn_info \<Rightarrow> string option" where
  "sessionId_field conn = (if length (ci_sessionID conn) > 0 then Some (base64Encode (ci_sessionID conn)) else None)"

definition user_field :: "conn_info \<Rightarrow> string option" where
  "user_field conn = (if ci_user conn \<noteq> [] then Some (ci_user conn) else None)"

definition enrichLoggerForServerConnection :: "'l log_api \<Rightarrow> 'l \<Rightarrow> nat option \<Rightarrow> 'l" where
  "enrichLoggerForServerConnection api inp conn =
     (if conn = None then inp
      else la_With api
             (la_With api
               (la_With api
                 (la_With api inp ''ssh.remote'' (LazyValue ci_remoteAddr))
                 ''ssh.local'' (LazyValue ci_localAddr))
               ''ssh.user'' (LazyValue user_field))
             ''ssh.sessionId'' (LazyValue sessionId_field))"

section \<open>Which logger\<close>

text \<open>The default loggers, each made once: \<open>pkg\<close> is the name of the package's logger.\<close>

definition defaultServerLogger :: "'l log_api \<Rightarrow> string \<Rightarrow> 'l" where
  "defaultServerLogger api pkg = la_GetLogger api (pkg @ ''.server'')"

definition defaultSessionLogger :: "'l log_api \<Rightarrow> string \<Rightarrow> 'l" where
  "defaultSessionLogger api pkg = la_GetLogger api (pkg @ ''.session'')"

definition defaultForwardedTCPHandlerLogger :: "'l log_api \<Rightarrow> string \<Rightarrow> 'l" where
  "defaultForwardedTCPHandlerLogger api pkg = la_GetLogger api (pkg @ ''.tcpForward'')"

definition defaultForwardedUnixHandlerLogger :: "'l log_api \<Rightarrow> string \<Rightarrow> 'l" where
  "defaultForwardedUnixHandlerLogger api pkg = la_GetLogger api (pkg @ ''.unixForward'')"

definition defaultForwardAgentConnectionsLogger :: "'l log_api \<Rightarrow> string \<Rightarrow> 'l" where
  "defaultForwardAgentConnectionsLogger api pkg = la_GetLogger api (pkg @ ''.agent'')"

definition server_logger :: "'l log_api \<Rightarrow> string \<Rightarrow> 'l option \<Rightarrow> 'l" where
  "server_logger api pkg configured = (case configured of Some v \<Rightarrow> v | None \<Rightarrow> defaultServerLogger api pkg)"

definition tcp_logger :: "'l log_api \<Rightarrow> string \<Rightarrow> 'l option \<Rightarrow> 'l" where
  "tcp_logger api pkg configured = (case configured of Some v \<Rightarrow> v | None \<Rightarrow> defaultForwardedTCPHandlerLogger api pkg)"

definition tcp_loggerOfConnection :: "'l log_api \<Rightarrow> string \<Rightarrow> 'l option \<Rightarrow> nat option \<Rightarrow> 'l" where
  "tcp_loggerOfConnection api pkg configured conn = enrichLoggerForServerConnection api (tcp_logger api pkg configured) conn"

definition unix_logger :: "'l log_api \<Rightarrow> string \<Rightarrow> 'l option \<Rightarrow> 'l" where
  "unix_logger api pkg configured = (case configured of Some v \<Rightarrow> v | None \<Rightarrow> defaultForwardedUnixHandlerLogger api pkg)"

definition unix_loggerOfConnection :: "'l log_api \<Rightarrow> string \<Rightarrow> 'l option \<Rightarrow> nat option \<Rightarrow> 'l" where
  "unix_loggerOfConnection api pkg configured conn = enrichLoggerForServerConnection api (unix_logger api pkg configured) conn"

definition agent_logger :: "'l log_api \<Rightarrow> string \<Rightarrow> 'l option \<Rightarrow> 'l" where
  "agent_logger api pkg given = (case given of Some v \<Rightarrow> v | None \<Rightarrow> defaultForwardAgentConnectionsLogger api pkg)"

definition session_getLogger :: "'l log_api \<Rightarrow> string \<Rightarrow> 'l option \<Rightarrow> nat option \<Rightarrow> 'l" where
  "session_getLogger api pkg configured conn =
     enrichLoggerForServerConnection api
       (case configured of None \<Rightarrow> defaultSessionLogger api pkg | Some v \<Rightarrow> v) conn"

section \<open>What is logged about errors\<close>

text \<open>The logger, with its fields, and the message it writes at level error.\<close>

definition log_escalation :: "'l log_api \<Rightarrow> 'l \<Rightarrow> uint8 \<Rightarrow> uint8 \<Rightarrow> gerr option \<Rightarrow> gerr option \<Rightarrow> 'l \<times> string" where
  "log_escalation api logger scope operation dispatchErr originalErr =
     (la_With api
       (la_With api
         (la_With api (la_WithError api logger dispatchErr) ''error.original'' (ErrorValue originalErr))
         ''scope'' (ScopeValue scope))
       ''operation'' (OperationValue operation),
      ''cannot handle error'')"

text \<open>\<open>defaultLogAndFailErrorAction\<close>: nothing without an error; \<open>conn\<close> is the connection that the context knows.\<close>

definition log_failure ::
  "'l log_api \<Rightarrow> string \<Rightarrow> nat option \<Rightarrow> 'l option \<Rightarrow> uint8 \<Rightarrow> uint8 \<Rightarrow> gerr option \<Rightarrow> ('l \<times> string) option" where
  "log_failure api pkg conn logger scope operation err =
     (if err = None then None
      else
        (let logger1 = (case logger of None \<Rightarrow> defaultServerLogger api pkg | Some l \<Rightarrow> l);
             logger2 = (if conn \<noteq> None then enrichLoggerForServerConnection api logger1 conn else logger1)
         in Some (la_With api
                   (la_With api (la_WithError api logger2 err) ''scope'' (TextValue (ErrorScope_String scope)))
                   ''operation'' (TextValue (ErrorOperation_String operation)),
                  ''SSH operation failed'')))"

section \<open>What a log says about a connection\<close>

text \<open>A session id in a log is that of one session: the field is left out exactly for an empty id, and two ids never look the same.\<close>

lemma base64_injective: "base64Encode a = base64Encode b \<longleftrightarrow> a = b"
  by (metis base64_decodes option.inject)

lemma sessionId_field_identifies: "sessionId_field a = sessionId_field b \<longleftrightarrow> ci_sessionID a = ci_sessionID b"
  by (simp add: sessionId_field_def base64_injective)

text \<open>
  Every logger that the package writes with inside a connection has the connection's four fields, after whatever fields the
  configured or default logger has.
\<close>

definition connection_fields :: "(string \<times> (conn_info \<Rightarrow> string option)) list" where
  "connection_fields = [(''ssh.remote'', ci_remoteAddr), (''ssh.local'', ci_localAddr), (''ssh.user'', user_field), (''ssh.sessionId'', sessionId_field)]"

definition with_fields :: "'l log_api \<Rightarrow> (string \<times> (conn_info \<Rightarrow> string option)) list \<Rightarrow> 'l \<Rightarrow> 'l" where
  "with_fields api kvs l = foldl (\<lambda>l (k, f). la_With api l k (LazyValue f)) l kvs"

lemma enriched_loggers:
  "enrichLoggerForServerConnection api l (Some c) = with_fields api connection_fields l"
  "session_getLogger api pkg (Some l) (Some c) = with_fields api connection_fields l"
  "tcp_loggerOfConnection api pkg (Some l) (Some c) = with_fields api connection_fields l"
  "unix_loggerOfConnection api pkg (Some l) (Some c) = with_fields api connection_fields l"
  "log_failure api pkg (Some c) (Some l) scope op (Some e) =
     Some (la_With api (la_With api (la_WithError api (with_fields api connection_fields l) (Some e))
             ''scope'' (TextValue (ErrorScope_String scope))) ''operation'' (TextValue (ErrorOperation_String op)),
           ''SSH operation failed'')"
  by (simp_all add: enrichLoggerForServerConnection_def with_fields_def connection_fields_def session_getLogger_def
      tcp_loggerOfConnection_def tcp_logger_def unix_loggerOfConnection_def unix_logger_def log_failure_def)

text \<open>Without a connection, or without an error, nothing is added or written.\<close>

lemma plain_loggers:
  "enrichLoggerForServerConnection api l None = l"
  "log_failure api pkg conn ol scope op None = None"
  by (simp_all add: enrichLoggerForServerConnection_def log_failure_def)

text \<open>The default loggers of the parts have different names.\<close>

lemma default_logger_names:
  "la_GetLogger api = id \<Longrightarrow>
   distinct [defaultServerLogger api pkg, defaultSessionLogger api pkg, defaultForwardedTCPHandlerLogger api pkg,
     defaultForwardedUnixHandlerLogger api pkg, defaultForwardAgentConnectionsLogger api pkg]"
  by (simp add: defaultServerLogger_def defaultSessionLogger_def defaultForwardedTCPHandlerLogger_def
      defaultForwardedUnixHandlerLogger_def defaultForwardAgentConnectionsLogger_def)

end
