(* ===== verification/Spec2Isabelle.thy ===== *)
theory Spec2Isabelle
  imports Algorithms Codec Config Limits Lifecycle ErrorHandling Request Channel SessionSafety Contexts SignalDelivery ForwardSystem Copy ForwardConnections Auth Server ForwardWorkers AcceptLoop Setup ConnTimeouts
    ContextTree SessionViews Logging
begin

text \<open>
  Verification development for the SSH server library \<open>ssh-server-go\<close> (package \<open>ssh\<close>).

  \<^bold>\<open>The program.\<close> \<open>Serve\<close> accepts connections from a listener and keeps them in a scope
  (\<open>lifecycle.go\<close>), which knows which of them are not authenticated yet, refuses some of those under the
  startup limits, and stops all of them gracefully or by force. \<open>handleConn\<close> (\<open>server.go\<close>) takes a connection through the PROXY
  protocol, the user's connection callbacks and the SSH handshake, for which it puts the authentication
  callbacks together. An authenticated connection has a context with values, resources and workers (\<open>context.go\<close>), one goroutine
  for its global requests (\<open>request.go\<close>), and one worker for every channel its client opens, admitted under limits.
  A session channel (\<open>session.go\<close>) has a loop for its requests beside the user's handler. Other channels, and global requests, forward
  TCP ports and Unix sockets (\<open>tcpip.go\<close>, \<open>streamlocal.go\<close>, \<open>agent.go\<close>, \<open>copy.go\<close>). Every component hands its errors, with the scope
  and the operation they happened in, to the user's error handler (\<open>error-handling.go\<close>), which may
  send one response and may call the default action once. The transport is \<open>golang.org/x/crypto/ssh\<close>.

  \<^bold>\<open>How it is modelled.\<close> Each operation is a function with the guards, branches and order of effects of the
  code. A struct is a record, an interface value or a pointer whose content does not matter a number, a Go error
  (\<open>GoErrors\<close>) a value of \<open>gerr option\<close> that \<open>errors.Is\<close>, \<open>errors.As\<close> and \<open>errors.Join\<close> work on, a
  result with an error a pair or a sum. What other code does is the argument of the functions that use it: callbacks and handlers
  of the user, listeners, dialers, the transport, clocks, random numbers.

  \<^item> Where code talks to the transport while it works, the effects are recorded in the trace of a \<open>world\<close>
  (\<open>World\<close>), whose environment, an arbitrary function of the trace, chooses what each effect returns. A user's handler is then a program
  of interactions (\<open>hprog\<close> for error handlers, \<open>rprog\<close> for requests, \<open>cprog\<close> for channels, \<open>dprog\<close> for forwards): a
  theorem about all programs and all environments is one about every handler and every peer.
  \<^item> Where goroutines share state, what one does between two points at which another may run, mostly a
  section under a mutex, is one function, and an inductive relation (\<open>scope_step\<close>, \<open>limiter_run\<close>, \<open>response_step\<close>, \<open>channels_step\<close>,
  \<open>signal_step\<close>, \<open>delivery_step\<close>, \<open>resource_step\<close>, \<open>closing_step\<close>, \<open>worker_step\<close>, \<open>forward_step\<close>, \<open>copy_step\<close>) interleaves these sections in every order. Safety
  is then an invariant of the relation, proved by rule induction and an interpretation of the locale \<open>step_invariant\<close>; that something ends
  is an interpretation of \<open>ending_steps\<close>, and that it implements a coarser relation one of \<open>refining_steps\<close>.
  \<^item> Where one goroutine consumes what others and the client send it, the execution is a list of events (\<open>session_event\<close>), of rounds
  (\<open>accept_round\<close>, \<open>open_round\<close>) or of requests, of any length. The lists bound nothing: the theorems are about all of them. A loop
  that has consumed its list and goes on returns a value that says so, as \<open>None\<close> for \<open>Serve\<close>, and no theorem
  takes that for a return.

  No definition uses fuel: recursion is structural or over a measure.

  \<^bold>\<open>Foundations.\<close>

  \<^item> \<open>Prelude\<close>: types, strings and bytes, the three locales of step relations.
  \<^item> \<open>GoErrors\<close>: error values, the texts of the package's errors, \<open>isClosedError\<close> and \<open>isRelevantIoError\<close> (\<open>io-util.go\<close>), on unix and
  on the other platforms; the rest of the development uses the classification of unix.
  \<^item> \<open>World\<close>: effects, the trace, triples \<open>valid\<close> and invariants \<open>keeps\<close> of programs over the state monad.
  \<^item> \<open>TextCodec\<close>, \<open>Algorithms\<close>: the text methods of ciphers, key exchanges and message authentication codes; the tables satisfy
  the locale \<open>name_table\<close>, the methods \<open>text_codec\<close>, from which the round trips of the lists follow.
  \<^item> \<open>Codec\<close>: \<open>parsePtyRequest\<close> and \<open>parseWinchRequest\<close> (\<open>codec-util.go\<close>) accept exactly the encodings of RFC 4254.
  \<^item> \<open>HostPort\<close>: \<open>net.JoinHostPort\<close> and \<open>net.SplitHostPort\<close>, as forwards use them, and what the client is told about a forwarded connection.
  \<^item> \<open>Config\<close>: defaults, \<open>configuredDuration\<close>, \<open>effectiveMaxStartups\<close>, random early drop, retries, and \<open>serverConn\<close> (\<open>conn.go\<close>).
  \<^item> \<open>Limits\<close>: \<open>resourceLimiter\<close> and \<open>connectionChannelLimiter\<close>, as methods, as atomic additions of goroutines that interleave,
  and the refinement between the two; both are interpretations of the locale \<open>slot_limiter\<close>.

  \<^bold>\<open>A call of Serve or HandleConn.\<close>

  \<^item> \<open>Lifecycle\<close>: \<open>serveContext\<close> and its methods; \<open>scope_inv\<close> accounts for startup slots and for what is released, in every reachable
  state; \<open>force\<close> and \<open>shutdown\<close> are shown to stop every connection and to return what they should.
  \<^item> \<open>Server\<close>: \<open>AddHostKey\<close>, \<open>prepare\<close> and \<open>handleConn\<close>, from the acceptance to the end on every path. The handshake, the callbacks and
  the serving of channels inside are inputs (\<open>handle_input\<close>); the latter are the components below.
  \<^item> \<open>AcceptLoop\<close>: \<open>Serve\<close> with its retries and its ways to stop, \<open>HandleConn\<close>.
  \<^item> \<open>ConnTimeouts\<close>: the deadlines, timers and limiters that \<open>handleConn\<close> makes of the configuration.
  \<^item> \<open>Auth\<close>: \<open>configForConnection\<close> with each callback it wraps, on the state of a handshake.
  \<^item> \<open>Setup\<close>: the options (\<open>options.go\<close>), the package's \<open>Serve\<close> and \<open>ListenAndServe\<close>, default handlers, the wrapping for the PROXY
  protocol (\<open>proxyproto.go\<close>), the listener for agents.

  \<^bold>\<open>A connection.\<close>

  \<^item> \<open>ErrorHandling\<close>: scopes and operations, locations, the one-shot responder and next handler, \<open>dispatchError\<close>, the limit on handlers.
  The locales \<open>quiet_invariant\<close>, \<open>dispatch_invariant\<close> and \<open>dispatch_pair_invariant\<close> say what a dispatch keeps; the theories of its
  callers interpret them.
  \<^item> \<open>Contexts\<close>: values of a connection's context and of a session's view of it.
  \<^item> \<open>ContextTree\<close>: which context ends with which: the list of all contexts ever made, each with the one it follows, and events that
  derive and cancel them. The context of a connection has the values of the context given to \<open>Serve\<close> but neither its end nor its deadline.
  \<^item> \<open>Logging\<close>: the logger of each part, the fields of a connection, what the log actions write; the base64 text of a session id can be read back.
  \<^item> \<open>Resources\<close>: registrations, acquisitions, \<open>closeAll\<close> and the workers of a connection.
  \<^item> \<open>Request\<close>: global requests and the loop \<open>handleRequests\<close>.
  \<^item> \<open>Channel\<close>: the answer to a channel open, the worker around a channel handler, the admission of channels.

  \<^bold>\<open>A session.\<close> \<open>SessionSignals\<close> (signals and breaks, each request and registration at once), \<open>SignalDelivery\<close> (the same in
  the sections of the code, which refines it), \<open>Session\<close> (state, \<open>Exit\<close>, \<open>Close\<close>, \<open>Write\<close>, errors, the end of the handler),
  \<open>SessionContracts\<close> (what error paths keep: \<open>session_invariant\<close>, \<open>session_answer\<close>), \<open>SessionRequests\<close> (the request loop, deferred
  subsystems, all events; the locale \<open>loop_invariant\<close>), \<open>SessionSafety\<close> (one handler, one exit status, bounded data, ends). The
  properties hold for all lists of events, each an interpretation of \<open>loop_invariant\<close>. \<open>SessionViews\<close> has the getters
  of a session over an explicit store of maps, arrays and structs, in which the handler may write at every address it has been given; the other theories
  treat these containers as values, which the refinement of this one justifies.

  \<^bold>\<open>Forwarding.\<close> \<open>Forwarding\<close> (requests and cancellations of reverse forwards), \<open>ForwardSystem\<close> (their interleaving with accept loops, connections
  and the end of the connection: slots, names), \<open>ForwardConnections\<close> (channel handlers of local forwards, \<open>openForwardedChannel\<close>, accept
  loops), \<open>ForwardWorkers\<close> (the worker of a forwarded connection), \<open>Copy\<close> (\<open>FullDuplexCopy\<close>).

  \<^bold>\<open>Assumptions.\<close> A hypothesis that speaks of other code states documented behaviour of it: \<open>fair_wait\<close> (while \<open>shutdown\<close> waits, only
  methods of the scope run, and it is told that the scope has drained only when it has), \<open>any_order\<close> (ranging over a map visits each key
  once), the handler of an attempt that does not replace the permissions itself. Counters and
  times are \<open>int\<close>s where they cannot reach the bounds of 64 bits; a word is kept at its width where the code converts or parses it.

  \<^bold>\<open>Not modelled.\<close>

  \<^item> \<open>wrap.go\<close> (interface types and two calls handed on to \<open>gossh\<close>) and \<open>doc.go\<close>: no logic of their own. The methods \<open>IsZero\<close> and \<open>IsCumulative\<close> of the
  algorithm types, which return a constant.
  \<^item> The logging library, whose operations are a parameter of \<open>Logging\<close>. Elsewhere, that an action logs is the effect \<open>Log\<close> in the trace.
  \<^item> \<open>shlex.Split\<close>, a parameter of \<open>session_Command\<close>.
  \<^item> The encodings of forward requests and channel data: what \<open>gossh.Unmarshal\<close> returns is an input, what goes into \<open>gossh.Marshal\<close> a record.
  \<^item> Examples and tests.
\<close>

end
